(* ===== verification/Prelude.thy ===== *)
theory Prelude
  imports Main "HOL-Library.Word" "HOL-Library.AList" "HOL-Library.Multiset"
begin

text \<open>
  What every component of the caching system shares: Go's 64-bit signed integers, clocks and
  durations, byte strings with the functions of package \<open>strings\<close> that the code calls, Go maps
  as association lists with distinct keys, error values, and the decimal formatting of
  \<open>fmt.Sprintf("%d")\<close>.

  A Go \<open>map\<close> is an association list: \<^const>\<open>map_of\<close> looks a key up,
  \<^const>\<open>AList.update\<close> stores, \<^const>\<open>AList.delete\<close> deletes, and the order of the list is one
  of the iteration orders the language allows.  Theorems about results that a \<open>range\<close> loop
  collects hold for every list, hence for every iteration order.
\<close>

section \<open>Collections of rewrite rules\<close>

named_theorems go_int \<open>ranges and identities of wrap-around 64-bit arithmetic\<close>
named_theorems go_str \<open>facts about Go byte strings\<close>
named_theorems al_simps \<open>facts about Go maps as association lists\<close>

section \<open>Signed 64-bit integers\<close>

text \<open>
  Go's \<open>int\<close>, \<open>int64\<close> and \<open>time.Duration\<close> are two's complement 64-bit integers on the
  platforms the system is deployed on; an arithmetic result is reduced to that range.
\<close>

definition i64 :: "int \<Rightarrow> int" where
  "i64 x = (x + 2 ^ 63) mod 2 ^ 64 - 2 ^ 63"

definition in_i64 :: "int \<Rightarrow> bool" where
  "in_i64 x \<longleftrightarrow> - (2 ^ 63) \<le> x \<and> x < 2 ^ 63"

lemma i64_range [go_int]: "in_i64 (i64 x)"
  by (simp add: i64_def in_i64_def)

lemma i64_lower: "- 9223372036854775808 \<le> i64 x"
  and i64_upper: "i64 x \<le> 9223372036854775807"
  using i64_range [of x] by (auto simp: in_i64_def)

lemma i64_id [go_int, simp]: "in_i64 x \<Longrightarrow> i64 x = x"
  by (simp add: i64_def in_i64_def)

lemma i64_idem [simp]: "i64 (i64 x) = i64 x"
  by (rule i64_id) (rule i64_range)

lemma i64_add_left [go_int]: "i64 (i64 x + y) = i64 (x + y)"
proof -
  have "i64 x + y + 2 ^ 63 = (x + 2 ^ 63) mod 2 ^ 64 + y"
    by (simp add: i64_def)
  then have "(i64 x + y + 2 ^ 63) mod 2 ^ 64 = (x + 2 ^ 63 + y) mod 2 ^ 64"
    by (metis mod_add_left_eq)
  then show ?thesis
    unfolding i64_def [of "i64 x + y"] i64_def [of "x + y"] by (simp add: ac_simps)
qed

lemma i64_add_right [go_int]: "i64 (x + i64 y) = i64 (x + y)"
  using i64_add_left [of y x] by (simp add: ac_simps)

text \<open>The reduction is exactly the signed reading of the 64-bit machine word.\<close>

lemma i64_word: "i64 x = sint (word_of_int x :: 64 word)"
proof -
  have "sint (word_of_int x :: 64 word) = signed_take_bit 63 x"
    by (simp add: sint_uint uint_word_of_int signed_take_bit_eq_take_bit_shift take_bit_eq_mod
        mod_simps)
  then show ?thesis
    by (simp add: i64_def signed_take_bit_eq_take_bit_shift take_bit_eq_mod)
qed

text \<open>\<open>atomic.Int64.Add\<close>, an addition that wraps.\<close>

definition add64 :: "int \<Rightarrow> int \<Rightarrow> int" where
  "add64 x d = i64 (x + d)"

lemma add64_small [go_int]: "in_i64 (x + d) \<Longrightarrow> add64 x d = x + d"
  by (simp add: add64_def)

lemma add64_in [go_int]: "in_i64 (add64 x d)"
  by (simp add: add64_def i64_range)

lemma add64_add64 [go_int]: "add64 (add64 x a) b = add64 x (a + b)"
  by (simp add: add64_def i64_add_left add.assoc)

lemma add64_0 [go_int]: "in_i64 x \<Longrightarrow> add64 x 0 = x"
  by (simp add: add64_def)

text \<open>Go's integer division truncates towards zero.\<close>

definition go_div :: "int \<Rightarrow> int \<Rightarrow> int" where
  "go_div a b = sgn a * sgn b * (\<bar>a\<bar> div \<bar>b\<bar>)"

lemma go_div_pos: "0 \<le> a \<Longrightarrow> 0 < b \<Longrightarrow> go_div a b = a div b"
  by (cases "a = 0") (auto simp: go_div_def)

section \<open>Clocks and durations\<close>

text \<open>
  A \<open>time.Time\<close> is its distance from the Unix epoch in nanoseconds; its range is far larger than
  64 bits, so \<open>Time.Add\<close> does not wrap.  \<open>time.Time{}\<close> is 1 January of year 1.  \<open>Time.Sub\<close>
  saturates at the ends of the duration range.  Each call of \<open>time.Now\<close> is an argument of the
  operation that makes it; when an operation reads the clock twice it takes two readings.
\<close>

type_synonym time = int
type_synonym duration = int

definition nanosecond :: duration where "nanosecond = 1"
definition millisecond :: duration where "millisecond = 1000000"
definition second :: duration where "second = 1000000000"
definition minute :: duration where "minute = 60 * second"
definition hour :: duration where "hour = 60 * minute"

lemmas time_units = nanosecond_def millisecond_def second_def minute_def hour_def

definition zero_time :: time where
  "zero_time = - 62135596800000000000"

definition max_duration :: duration where "max_duration = 9223372036854775807"
definition min_duration :: duration where "min_duration = - 9223372036854775808"

definition time_add :: "time \<Rightarrow> duration \<Rightarrow> time" where
  "time_add t d = t + d"

definition time_sub :: "time \<Rightarrow> time \<Rightarrow> duration" where
  "time_sub t u = max min_duration (min max_duration (t - u))"

definition time_after :: "time \<Rightarrow> time \<Rightarrow> bool" where
  "time_after t u \<longleftrightarrow> u < t"

definition time_before :: "time \<Rightarrow> time \<Rightarrow> bool" where
  "time_before t u \<longleftrightarrow> t < u"

text \<open>\<open>time.Duration(n) * unit\<close>, a 64-bit multiplication.\<close>

definition dur_mul :: "int \<Rightarrow> duration \<Rightarrow> duration" where
  "dur_mul n unit = i64 (n * unit)"

text \<open>\<open>Duration.Milliseconds\<close>, \<open>Time.Unix\<close> (floor of the seconds).\<close>

definition dur_ms :: "duration \<Rightarrow> int" where
  "dur_ms d = go_div d millisecond"

definition unix_seconds :: "time \<Rightarrow> int" where
  "unix_seconds t = t div second"

lemma time_sub_exact: "in_i64 (t - u) \<Longrightarrow> time_sub t u = t - u"
  by (simp add: time_sub_def in_i64_def min_duration_def max_duration_def)

lemma time_sub_in [go_int]: "in_i64 (time_sub t u)"
  by (simp add: time_sub_def in_i64_def min_duration_def max_duration_def)

section \<open>Errors\<close>

text \<open>An \<open>error\<close> value: a message, or a message that wraps a cause with \<open>%w\<close>.\<close>

datatype go_error = ErrMsg string | ErrWrap string go_error

type_synonym 'a go_result = "go_error + 'a"

section \<open>Byte strings\<close>

text \<open>A Go string is a sequence of bytes, here a list of (8-bit) characters.\<close>

definition has_prefix :: "string \<Rightarrow> string \<Rightarrow> bool" where
  "has_prefix s p \<longleftrightarrow> take (length p) s = p"

definition has_suffix :: "string \<Rightarrow> string \<Rightarrow> bool" where
  "has_suffix s p \<longleftrightarrow> length p \<le> length s \<and> drop (length s - length p) s = p"

fun str_contains :: "string \<Rightarrow> string \<Rightarrow> bool" where
  "str_contains [] p \<longleftrightarrow> p = []"
| "str_contains (c # s) p \<longleftrightarrow> has_prefix (c # s) p \<or> str_contains s p"

definition trim_suffix :: "string \<Rightarrow> string \<Rightarrow> string" where
  "trim_suffix s p = (if has_suffix s p then take (length s - length p) s else s)"

definition trim_prefix :: "string \<Rightarrow> string \<Rightarrow> string" where
  "trim_prefix s p = (if has_prefix s p then drop (length p) s else s)"

lemma has_prefix_iff [go_str]: "has_prefix s p \<longleftrightarrow> (\<exists>r. s = p @ r)"
  by (auto simp: has_prefix_def) (metis append_take_drop_id)

lemma has_suffix_iff [go_str]: "has_suffix s p \<longleftrightarrow> (\<exists>r. s = r @ p)"
  by (auto simp: has_suffix_def) (metis append_take_drop_id)

lemma has_prefix_Nil [simp]: "has_prefix s []"
  by (simp add: has_prefix_def)

lemma str_contains_iff [go_str]: "str_contains s p \<longleftrightarrow> (\<exists>a b. s = a @ p @ b)"
proof (induction s)
  case Nil
  then show ?case by auto
next
  case (Cons c s)
  show ?case
  proof
    assume "str_contains (c # s) p"
    then consider "has_prefix (c # s) p" | "str_contains s p" by auto
    then show "\<exists>a b. c # s = a @ p @ b"
    proof cases
      case 1
      then obtain r where "c # s = [] @ p @ r" by (auto simp: has_prefix_iff)
      then show ?thesis by blast
    next
      case 2
      then obtain a b where "s = a @ p @ b" using Cons.IH by blast
      then have "c # s = (c # a) @ p @ b" by simp
      then show ?thesis by blast
    qed
  next
    assume "\<exists>a b. c # s = a @ p @ b"
    then obtain a b where ab: "c # s = a @ p @ b" by blast
    show "str_contains (c # s) p"
    proof (cases a)
      case Nil
      with ab have "has_prefix (c # s) p" by (auto simp: has_prefix_iff)
      then show ?thesis by simp
    next
      case (Cons d a')
      with ab have "s = a' @ p @ b" by simp
      then have "str_contains s p" using Cons.IH by blast
      then show ?thesis by simp
    qed
  qed
qed

lemma has_suffix_star: "has_suffix p ''*'' \<longleftrightarrow> p \<noteq> [] \<and> last p = CHR ''*''"
  by (auto simp: has_suffix_iff) (metis append_butlast_last_id)

lemma trim_suffix_star: "has_suffix p ''*'' \<Longrightarrow> trim_suffix p ''*'' = butlast p"
  by (simp add: trim_suffix_def butlast_conv_take)

lemma trim_suffix_append [simp]: "trim_suffix (p @ q) q = p"
  by (simp add: trim_suffix_def has_suffix_def)

lemma single_in_contains [go_str]: "str_contains s [c] \<longleftrightarrow> c \<in> set s"
  by (auto simp: str_contains_iff dest: split_list)

section \<open>Go maps as association lists\<close>

lemma al_update_map_of [al_simps]: "map_of (AList.update k v al) = (map_of al)(k \<mapsto> v)"
  by (simp add: update_conv')

lemma al_delete_map_of [al_simps]: "map_of (AList.delete k al) = (map_of al)(k := None)"
  by (simp add: AList.delete_conv')

lemma al_keys: "dom (map_of al) = fst ` set al"
  by (simp add: dom_map_of_conv_image_fst)

lemma al_delete_in [al_simps]: "p \<in> set (AList.delete k al) \<longleftrightarrow> p \<in> set al \<and> fst p \<noteq> k"
  by (auto simp: AList.delete_eq)

lemma al_update_new [al_simps]: "k \<notin> fst ` set al \<Longrightarrow> AList.update k v al = al @ [(k, v)]"
  by (induction al) auto

lemma al_delete_distinct [al_simps]:
  "distinct (map fst al) \<Longrightarrow> distinct (map fst (AList.delete k al))"
  by (simp add: AList.delete_keys distinct_removeAll)

lemma al_length_delete [al_simps]:
  "distinct (map fst al) \<Longrightarrow>
   length (AList.delete k al) = (if k \<in> fst ` set al then length al - 1 else length al)"
proof (induction al)
  case Nil
  then show ?case by simp
next
  case (Cons p al)
  have "k \<in> fst ` set al \<Longrightarrow> 0 < length al" by (cases al) auto
  with Cons show ?case
    by (cases "k \<in> fst ` set al") (auto simp: AList.delete_id)
qed

lemma al_in_map_of: "distinct (map fst al) \<Longrightarrow> (k, v) \<in> set al \<longleftrightarrow> map_of al k = Some v"
  by (simp add: map_of_eq_Some_iff)

lemma al_length_card: "distinct (map fst al) \<Longrightarrow> length al = card (dom (map_of al))"
  by (metis al_keys distinct_card length_map list.set_map)

section \<open>Decimal formatting\<close>

definition digit_char :: "nat \<Rightarrow> char" where
  "digit_char d = char_of (48 + d)"

fun nat_dec :: "nat \<Rightarrow> string" where
  "nat_dec n = (if n < 10 then [digit_char n] else nat_dec (n div 10) @ [digit_char (n mod 10)])"

declare nat_dec.simps [simp del]

definition int_dec :: "int \<Rightarrow> string" where
  "int_dec x = (if x < 0 then CHR ''-'' # nat_dec (nat (- x)) else nat_dec (nat x))"

definition dec_value :: "string \<Rightarrow> nat" where
  "dec_value s = fold (\<lambda>c n. 10 * n + (of_char c - 48)) s 0"

lemma dec_value_snoc: "dec_value (s @ [c]) = 10 * dec_value s + (of_char c - 48)"
  by (simp add: dec_value_def)

lemma of_digit_char: "d < 10 \<Longrightarrow> of_char (digit_char d) = 48 + d"
  by (simp add: digit_char_def of_char_of)

lemma dec_value_nat_dec: "dec_value (nat_dec n) = n"
proof (induction n rule: nat_dec.induct)
  case (1 n)
  show ?case
  proof (cases "n < 10")
    case True
    then show ?thesis
      by (subst nat_dec.simps) (simp add: dec_value_def of_digit_char)
  next
    case False
    then have "dec_value (nat_dec (n div 10)) = n div 10" using "1.IH" by simp
    with False show ?thesis
      by (subst nat_dec.simps) (simp add: dec_value_snoc of_digit_char)
  qed
qed

lemma nat_dec_inject: "nat_dec m = nat_dec n \<longleftrightarrow> m = n"
  by (metis dec_value_nat_dec)

lemma nat_dec_digits: "c \<in> set (nat_dec n) \<Longrightarrow> 48 \<le> (of_char c :: nat) \<and> (of_char c :: nat) \<le> 57"
proof (induction n rule: nat_dec.induct)
  case (1 n)
  show ?case
  proof (cases "n < 10")
    case True
    with "1.prems" show ?thesis
      by (subst (asm) nat_dec.simps) (simp add: of_digit_char)
  next
    case False
    with "1.prems" have "c \<in> set (nat_dec (n div 10)) \<or> c = digit_char (n mod 10)"
      by (subst (asm) nat_dec.simps) auto
    then show ?thesis
      using False "1.IH" by (auto simp: of_digit_char)
  qed
qed

lemma nat_dec_digit: "n < 10 \<Longrightarrow> nat_dec n = [digit_char n]"
  by (subst nat_dec.simps) simp

lemma digit_chars: "digit_char 0 = CHR ''0''" "digit_char (Suc 0) = CHR ''1''" "digit_char 1 = CHR ''1''"
  "digit_char 2 = CHR ''2''" "digit_char 3 = CHR ''3''" "digit_char 4 = CHR ''4''"
  "digit_char 5 = CHR ''5''" "digit_char 6 = CHR ''6''" "digit_char 7 = CHR ''7''"
  "digit_char 8 = CHR ''8''" "digit_char 9 = CHR ''9''"
  by (simp_all add: digit_char_def char_of_def bit_Suc_0_iff)

section \<open>The text of a duration\<close>

text \<open>\<open>Duration.String\<close>: hours, minutes and seconds with the fraction without trailing zeros, and the
  units below a second (the micro sign is two bytes).\<close>

definition frac_string :: "nat \<Rightarrow> nat \<Rightarrow> string" where
  "frac_string v prec =
     (let ds = map (\<lambda>i. digit_char ((v div 10 ^ (prec - 1 - i)) mod 10)) [0..<prec];
          ds = rev (dropWhile (\<lambda>c. c = CHR ''0'') (rev ds))
      in if ds = [] then [] else CHR ''.'' # ds)"

definition dur_string :: "duration \<Rightarrow> string" where
  "dur_string d =
     (let u = nat \<bar>d\<bar>; sign = (if d < 0 then ''-'' else []) in
      if u = 0 then ''0s''
      else if u < 1000 then sign @ nat_dec u @ ''ns''
      else if u < 1000000 then sign @ nat_dec (u div 1000) @ frac_string u 3 @ [char_of (194 :: nat), char_of (181 :: nat)] @ ''s''
      else if u < 1000000000 then sign @ nat_dec (u div 1000000) @ frac_string u 6 @ ''ms''
      else
        (let s = u div 1000000000; m = s div 60; h = m div 60 in
         sign @ (if h > 0 then nat_dec h @ ''h'' else []) @ (if m > 0 then nat_dec (m mod 60) @ ''m'' else []) @
           nat_dec (s mod 60) @ frac_string u 9 @ ''s''))"

section \<open>Loops over slices\<close>

text \<open>A loop that updates a state for each element, stopping never: the shape of most
  \<open>range\<close> loops of the code.\<close>

lemma fold_invariant:
  assumes "\<And>x s. x \<in> set xs \<Longrightarrow> P s \<Longrightarrow> P (f x s)" and "P s"
  shows "P (fold f xs s)"
  using assms by (induction xs arbitrary: s) auto

lemma filter_nth_take: "filter P (take n xs) = take (length (filter P (take n xs))) (filter P xs)"
  by (metis append_eq_conv_conj append_take_drop_id filter_append)

section \<open>First occurrences\<close>

text \<open>The elements of a list without repetitions, in the order of their first occurrence, leaving
  out those already seen: what the code computes with a \<open>seen\<close> map.\<close>

fun uniq :: "'a list \<Rightarrow> 'a list \<Rightarrow> 'a list" where
  "uniq seen [] = []"
| "uniq seen (x # xs) = (if x \<in> set seen then uniq seen xs else x # uniq (x # seen) xs)"

lemma set_uniq: "set (uniq seen xs) = set xs - set seen"
  by (induction seen xs rule: uniq.induct) auto

lemma distinct_uniq: "distinct (uniq seen xs)"
  by (induction seen xs rule: uniq.induct) (auto simp: set_uniq)

lemma length_uniq: "length (uniq [] xs) = card (set xs)"
  using distinct_card [OF distinct_uniq, of "[]" xs] by (simp add: set_uniq)

lemma uniq_cong: "set seen = set seen' \<Longrightarrow> uniq seen xs = uniq seen' xs"
proof (induction xs arbitrary: seen seen')
  case (Cons x xs)
  have "uniq (x # seen) xs = uniq (x # seen') xs" by (rule Cons.IH) (simp add: Cons.prems)
  moreover have "uniq seen xs = uniq seen' xs" by (rule Cons.IH) (rule Cons.prems)
  ultimately show ?case by (simp add: Cons.prems)
qed simp

section \<open>Binary search\<close>

text \<open>\<open>sort.Search\<close> between two indices: the bisection of the standard library.\<close>

function bisect :: "(nat \<Rightarrow> bool) \<Rightarrow> nat \<Rightarrow> nat \<Rightarrow> nat" where
  "bisect f i j = (if i < j
     then let h = (i + j) div 2 in if \<not> f h then bisect f (h + 1) j else bisect f i h
     else i)"
  by auto
termination
  by (relation "measure (\<lambda>(f, i, j). j - i)") auto

declare bisect.simps [simp del]

definition sort_search :: "nat \<Rightarrow> (nat \<Rightarrow> bool) \<Rightarrow> nat" where
  "sort_search n f = bisect f 0 n"

text \<open>For a monotone predicate it finds the first index where the predicate holds.\<close>

lemma bisect_boundary:
  assumes "i \<le> p" "p \<le> j" "\<And>h. h < p \<Longrightarrow> \<not> f h" "\<And>h. p \<le> h \<Longrightarrow> h < j \<Longrightarrow> f h"
  shows "bisect f i j = p"
  using assms
proof (induction f i j rule: bisect.induct)
  case (1 f i j)
  show ?case
  proof (cases "i < j")
    case True
    let ?h = "(i + j) div 2"
    have h: "i \<le> ?h" "?h < j" using True by linarith+
    show ?thesis
    proof (cases "f ?h")
      case True
      with "1.prems" have "p \<le> ?h" by (meson not_le_imp_less)
      with True \<open>i < j\<close> h "1.prems" "1.IH"(2) [OF \<open>i < j\<close> refl] show ?thesis
        by (subst bisect.simps) (simp add: Let_def)
    next
      case False
      with "1.prems" h have "?h + 1 \<le> p" by (metis Suc_eq_plus1 not_less_eq_eq not_le)
      with False \<open>i < j\<close> h "1.prems" "1.IH"(1) [OF \<open>i < j\<close> refl] show ?thesis
        by (subst bisect.simps) (simp add: Let_def)
    qed
  next
    case False
    with "1.prems" show ?thesis by (subst bisect.simps) simp
  qed
qed

lemma sort_search_sorted:
  fixes x :: "'a::linorder"
  assumes "sorted xs"
  shows "sort_search (length xs) (\<lambda>i. x \<le> xs ! i) = length (takeWhile (\<lambda>y. y < x) xs)"
    (is "_ = ?p")
  unfolding sort_search_def
proof (rule bisect_boundary)
  show "?p \<le> length xs" by (rule length_takeWhile_le)
  show "\<not> x \<le> xs ! h" if "h < ?p" for h
    using that by (metis not_le nth_mem set_takeWhileD takeWhile_nth)
  show "x \<le> xs ! h" if "?p \<le> h" "h < length xs" for h
  proof -
    have "\<not> xs ! ?p < x" using that by (intro nth_length_takeWhile) simp
    moreover have "xs ! ?p \<le> xs ! h" using assms that by (intro sorted_nth_mono)
    ultimately show ?thesis by simp
  qed
qed simp

section \<open>Runs of a step relation\<close>

text \<open>A run from its first steps.\<close>

lemma step_trans: "r x y \<Longrightarrow> r\<^sup>*\<^sup>* y z \<Longrightarrow> r\<^sup>*\<^sup>* x z"
  by (rule converse_rtranclp_into_rtranclp)

lemma two_steps: "r a b \<Longrightarrow> r b c \<Longrightarrow> r\<^sup>*\<^sup>* a c"
  by (rule step_trans [OF _ r_into_rtranclp])

lemma four_steps: "r a b \<Longrightarrow> r b c \<Longrightarrow> r c d \<Longrightarrow> r d e \<Longrightarrow> r\<^sup>*\<^sup>* a e"
  by (rule rtranclp_trans [OF two_steps two_steps])

end
