(* ===== verification/CacheContract.thy ===== *)
theory CacheContract
  imports Prelude
begin

text \<open>
  The contract between the level-1 cache and its clients: what \<open>Get\<close>, \<open>Set\<close>, \<open>Delete\<close> and
  \<open>DeletePattern\<close> promise about the contents of the store, as a locale.  The loops that clients
  run over such a store are defined here and their effect is proved once, inside the locale.
\<close>

text \<open>The message of topic \<open>cache-invalidate\<close>, \<open>InvalidationEvent\<close> of \<open>invalidation/service.go\<close>.\<close>

record inval_event =
  ie_pattern :: string
  ie_keys :: "string list"
  ie_by :: string
  ie_at :: time
  ie_request :: string

text \<open>The loop of \<open>Service.Invalidate\<close> and \<open>HandleInvalidateEvent\<close> over the keys of a request:
  every key is deleted and the keys that existed are counted.\<close>

fun delete_each :: "('s \<Rightarrow> string \<Rightarrow> 's \<times> bool) \<Rightarrow> 's \<Rightarrow> string list \<Rightarrow> 's \<times> int" where
  "delete_each del s [] = (s, 0)"
| "delete_each del s (k # ks) =
     (let (s1, ok) = del s k; (s2, n) = delete_each del s1 ks
      in (s2, (if ok then 1 else 0) + n))"

locale ttl_store =
  fixes invar :: "'s \<Rightarrow> bool"
    and content :: "'s \<Rightarrow> string \<Rightarrow> ('v \<times> time) option"
    and get :: "time \<Rightarrow> 's \<Rightarrow> string \<Rightarrow> 's \<times> 'r option"
    and present :: "'v \<Rightarrow> time \<Rightarrow> 'r"
    and set :: "time \<Rightarrow> 's \<Rightarrow> string \<Rightarrow> 'v \<Rightarrow> duration \<Rightarrow> 's"
    and delete :: "'s \<Rightarrow> string \<Rightarrow> 's \<times> bool"
  assumes get_invar: "invar s \<Longrightarrow> invar (fst (get now s k))"
    and get_result: "invar s \<Longrightarrow> snd (get now s k) =
      (case content s k of None \<Rightarrow> None
       | Some (v, t) \<Rightarrow> if time_after now t then None else Some (present v t))"
    and get_content: "invar s \<Longrightarrow> content (fst (get now s k)) =
      (case content s k of None \<Rightarrow> content s
       | Some (v, t) \<Rightarrow> if time_after now t then (content s)(k := None) else content s)"
    and set_invar: "invar s \<Longrightarrow> invar (set now s k v ttl)"
    and set_same: "invar s \<Longrightarrow> content (set now s k v ttl) k = Some (v, time_add now ttl)"
    and set_other: "invar s \<Longrightarrow> j \<noteq> k \<Longrightarrow>
      content (set now s k v ttl) j = content s j \<or> content (set now s k v ttl) j = None"
    and delete_invar: "invar s \<Longrightarrow> invar (fst (delete s k))"
    and delete_content: "invar s \<Longrightarrow> content (fst (delete s k)) = (content s)(k := None)"
    and delete_found: "invar s \<Longrightarrow> snd (delete s k) \<longleftrightarrow> content s k \<noteq> None"
begin

text \<open>A value that was just stored is returned until its deadline, and never after it.\<close>

lemma read_own_write:
  "invar s \<Longrightarrow> snd (get later (set now s k v ttl) k) =
    (if time_after later (time_add now ttl) then None else Some (present v (time_add now ttl)))"
  by (simp add: get_result set_invar set_same)

lemma delete_then_miss: "invar s \<Longrightarrow> snd (get now (fst (delete s k)) k) = None"
  by (simp add: get_result delete_invar delete_content)

lemma delete_each_content:
  assumes "invar s"
  shows "invar (fst (delete_each delete s ks)) \<and>
    content (fst (delete_each delete s ks)) = (\<lambda>k. if k \<in> List.set ks then None else content s k)"
  using assms
proof (induction ks arbitrary: s)
  case Nil
  then show ?case by simp
next
  case (Cons k ks)
  from Cons.IH [OF delete_invar [OF Cons.prems, of k]] Cons.prems show ?case
    by (auto simp: case_prod_beta Let_def delete_content fun_eq_iff)
qed

lemma delete_each_count:
  assumes "invar s"
  shows "snd (delete_each delete s ks) =
    int (length (filter (\<lambda>k. content s k \<noteq> None) (remdups ks)))"
  using assms
proof (induction ks rule: rev_induct)
  case Nil
  then show ?case by simp
next
  case (snoc k ks)
  have snocd: "delete_each delete s (ks @ [k]) =
      (fst (delete (fst (delete_each delete s ks)) k),
       snd (delete_each delete s ks) +
         (if snd (delete (fst (delete_each delete s ks)) k) then 1 else 0))" for s
    by (induction ks arbitrary: s) (simp_all add: case_prod_beta Let_def)
  have found: "snd (delete (fst (delete_each delete s ks)) k) \<longleftrightarrow>
      k \<notin> List.set ks \<and> content s k \<noteq> None"
    using delete_each_content [OF snoc.prems, of ks] by (simp add: delete_found)
  have "length (filter P (remdups (ks @ [k]))) =
      length (filter P (remdups ks)) + (if k \<notin> List.set ks \<and> P k then 1 else 0)" for P
  proof -
    have card: "length (filter P (remdups xs)) = card {x \<in> List.set xs. P x}" for xs
      using distinct_card [OF distinct_filter [OF distinct_remdups], of P xs]
      unfolding set_filter set_remdups by (rule sym)
    have "{x \<in> List.set (ks @ [k]). P x} =
        (if P k then insert k {x \<in> List.set ks. P x} else {x \<in> List.set ks. P x})"
      by auto
    then show ?thesis by (auto simp: card card_insert_if)
  qed
  with snoc found show ?case by (simp add: snocd)
qed

end

locale ttl_pattern_store = ttl_store +
  fixes delete_pattern :: "'s \<Rightarrow> string \<Rightarrow> 's \<times> int"
    and matches :: "string \<Rightarrow> string \<Rightarrow> bool"
  assumes pattern_invar: "invar s \<Longrightarrow> invar (fst (delete_pattern s p))"
    and pattern_content: "invar s \<Longrightarrow> content (fst (delete_pattern s p)) =
      (\<lambda>k. if matches p k then None else content s k)"
    and pattern_count: "invar s \<Longrightarrow> snd (delete_pattern s p) =
      int (card {k. content s k \<noteq> None \<and> matches p k})"
begin

text \<open>Invalidation by keys and then by pattern: neither the keys nor the matching keys are left,
  and everything else is as it was.\<close>

lemma invalidate_content:
  assumes "invar s"
  shows "content (fst (delete_pattern (fst (delete_each delete s ks)) p)) =
    (\<lambda>k. if k \<in> List.set ks \<or> matches p k then None else content s k)"
  using delete_each_content [OF assms, of ks] by (auto simp: pattern_content fun_eq_iff)

lemma pattern_idempotent:
  assumes "invar s"
  shows "snd (delete_pattern (fst (delete_pattern s p)) p) = 0"
  using assms by (auto simp: pattern_count pattern_invar pattern_content)

end

end
