(* ===== verification/L1Cache.thy ===== *)
theory L1Cache
  imports CacheContract "HOL-Library.Sublist"
begin

text \<open>
  The in-memory level-1 cache, \<open>cache-manager/cache.go\<close>: a Go map from keys to shared
  \<open>lruEntry\<close> objects together with a doubly linked list of the same objects, most recently
  used first.  Objects live in a heap, because \<open>Set\<close> updates an entry in place and \<open>Get\<close>
  keeps a pointer to it between two critical sections.  An entry owns exactly one list element,
  so the pointer to the entry also names its element.

  The second half gives the abstract cache, a list of entries in recency order, and shows that
  every operation of the pointer structure refines the operation on that list.
\<close>

section \<open>Data\<close>

type_synonym json = string  \<comment> \<open>\<open>json.RawMessage\<close>, a byte slice\<close>
type_synonym ptr = nat

record cache_entry =
  ce_value :: json
  ce_cached_at :: time
  ce_expires_at :: time
  ce_source :: string

record lru_entry =
  le_key :: string
  le_value :: json
  le_expires :: time

record l1_cache =
  l1_heap :: "ptr \<Rightarrow> lru_entry option"
  l1_map :: "(string \<times> ptr) list"
  l1_list :: "ptr list"
  l1_max :: int
  l1_next :: ptr

section \<open>Package container/list\<close>

text \<open>\<open>MoveToFront\<close> and \<open>Remove\<close> do nothing for an element of another list.\<close>

definition move_to_front :: "ptr \<Rightarrow> ptr list \<Rightarrow> ptr list" where
  "move_to_front p ps = (if p \<in> set ps then p # remove1 p ps else ps)"

definition list_remove :: "ptr \<Rightarrow> ptr list \<Rightarrow> ptr list" where
  "list_remove p ps = remove1 p ps"

section \<open>Operations\<close>

definition l1_new :: "int \<Rightarrow> l1_cache" where
  "l1_new max_entries =
     \<lparr>l1_heap = (\<lambda>_. None), l1_map = [], l1_list = [], l1_max = max_entries, l1_next = 0\<rparr>"

definition l1_delete_unsafe :: "l1_cache \<Rightarrow> string \<Rightarrow> l1_cache \<times> bool" where
  "l1_delete_unsafe c key =
     (case map_of (l1_map c) key of
        None \<Rightarrow> (c, False)
      | Some p \<Rightarrow>
          (c\<lparr>l1_list := list_remove p (l1_list c), l1_map := AList.delete key (l1_map c)\<rparr>, True))"

definition l1_delete :: "l1_cache \<Rightarrow> string \<Rightarrow> l1_cache \<times> bool" where
  "l1_delete c key = l1_delete_unsafe c key"

text \<open>
  \<open>Get\<close> takes the read lock for the map lookup, reads the entry outside any lock, and takes the
  write lock again either to delete the key or to move the element.  The program counter
  separates these sections; \<open>l1_get\<close> runs them without interference.
\<close>

datatype get_pc =
    GetStart string
  | GetFound string ptr
  | GetExpired string
  | GetLive ptr
  | GetDone "cache_entry option"

definition entry_response :: "lru_entry \<Rightarrow> cache_entry" where
  "entry_response e =
     \<lparr>ce_value = le_value e, ce_cached_at = time_add (le_expires e) (- 1 * hour),
      ce_expires_at = le_expires e, ce_source = ''l1''\<rparr>"

fun l1_get_step :: "time \<Rightarrow> l1_cache \<times> get_pc \<Rightarrow> l1_cache \<times> get_pc" where
  "l1_get_step now (c, GetStart key) =
     (case map_of (l1_map c) key of
        None \<Rightarrow> (c, GetDone None)
      | Some p \<Rightarrow> (c, GetFound key p))"
| "l1_get_step now (c, GetFound key p) =
     (case l1_heap c p of
        None \<Rightarrow> (c, GetDone None)
      | Some e \<Rightarrow>
          (if time_after now (le_expires e) then (c, GetExpired key) else (c, GetLive p)))"
| "l1_get_step now (c, GetExpired key) = (fst (l1_delete_unsafe c key), GetDone None)"
| "l1_get_step now (c, GetLive p) =
     (c\<lparr>l1_list := move_to_front p (l1_list c)\<rparr>,
      GetDone (map_option entry_response (l1_heap c p)))"
| "l1_get_step now (c, GetDone r) = (c, GetDone r)"

definition l1_get :: "time \<Rightarrow> l1_cache \<Rightarrow> string \<Rightarrow> l1_cache \<times> cache_entry option" where
  "l1_get now c key =
     (case map_of (l1_map c) key of
        None \<Rightarrow> (c, None)
      | Some p \<Rightarrow>
          (case l1_heap c p of
             None \<Rightarrow> (c, None)
           | Some e \<Rightarrow>
               (if time_after now (le_expires e) then (fst (l1_delete_unsafe c key), None)
                else (c\<lparr>l1_list := move_to_front p (l1_list c)\<rparr>, Some (entry_response e)))))"

definition l1_evict_lru :: "l1_cache \<Rightarrow> l1_cache" where
  "l1_evict_lru c =
     (if l1_list c = [] then c
      else let oldest = last (l1_list c) in
        (case l1_heap c oldest of
           None \<Rightarrow> c
         | Some e \<Rightarrow>
             c\<lparr>l1_list := list_remove oldest (l1_list c),
               l1_map := AList.delete (le_key e) (l1_map c)\<rparr>))"

definition l1_set :: "time \<Rightarrow> l1_cache \<Rightarrow> string \<Rightarrow> json \<Rightarrow> duration \<Rightarrow> l1_cache" where
  "l1_set now c key v ttl =
     (let expires_at = time_add now ttl in
      case map_of (l1_map c) key of
        Some p \<Rightarrow>
          c\<lparr>l1_heap := (l1_heap c)(p := map_option
               (\<lambda>e. e\<lparr>le_value := v, le_expires := expires_at\<rparr>) (l1_heap c p)),
            l1_list := move_to_front p (l1_list c)\<rparr>
      | None \<Rightarrow>
          (let c1 = (if int (length (l1_list c)) \<ge> l1_max c then l1_evict_lru c else c);
               p = l1_next c1
           in c1\<lparr>l1_heap := (l1_heap c1)(p \<mapsto>
                  \<lparr>le_key = key, le_value = v, le_expires = expires_at\<rparr>),
                 l1_next := Suc p,
                 l1_list := p # l1_list c1,
                 l1_map := AList.update key p (l1_map c1)\<rparr>))"

text \<open>The deletion loop of \<open>DeletePattern\<close> and \<open>CleanupExpired\<close>: keys are collected first,
  then deleted one by one and counted.\<close>

fun l1_delete_keys :: "l1_cache \<Rightarrow> string list \<Rightarrow> l1_cache \<times> int" where
  "l1_delete_keys c [] = (c, 0)"
| "l1_delete_keys c (key # keys) =
     (let (c1, ok) = l1_delete_unsafe c key; (c2, count) = l1_delete_keys c1 keys
      in (c2, (if ok then 1 else 0) + count))"

definition matches_pattern :: "string \<Rightarrow> string \<Rightarrow> string \<Rightarrow> bool" where
  "matches_pattern key pattern pre =
     (if has_suffix pattern ''*'' then has_prefix key pre else key = pattern)"

definition l1_delete_pattern :: "l1_cache \<Rightarrow> string \<Rightarrow> l1_cache \<times> int" where
  "l1_delete_pattern c pattern =
     (let pre = trim_suffix pattern ''*'';
          to_delete = filter (\<lambda>key. matches_pattern key pattern pre) (map fst (l1_map c))
      in l1_delete_keys c to_delete)"

definition l1_cleanup_expired :: "time \<Rightarrow> l1_cache \<Rightarrow> l1_cache \<times> int" where
  "l1_cleanup_expired now c =
     (let expired = map fst (filter (\<lambda>(key, p).
            (case l1_heap c p of None \<Rightarrow> False | Some e \<Rightarrow> time_after now (le_expires e)))
            (l1_map c))
      in l1_delete_keys c expired)"

definition l1_size :: "l1_cache \<Rightarrow> int" where
  "l1_size c = int (length (l1_map c))"

definition l1_clear :: "l1_cache \<Rightarrow> l1_cache" where
  "l1_clear c = c\<lparr>l1_map := [], l1_list := []\<rparr>"

section \<open>The structural invariant\<close>

text \<open>
  The map and the list hold the same entries, each under its own key, and no pointer is ahead
  of the allocator.
\<close>

definition l1_inv :: "l1_cache \<Rightarrow> bool" where
  "l1_inv c \<longleftrightarrow>
     distinct (map fst (l1_map c)) \<and> distinct (l1_list c) \<and>
     (\<forall>k p. map_of (l1_map c) k = Some p \<longleftrightarrow>
        p \<in> set (l1_list c) \<and> (\<exists>e. l1_heap c p = Some e \<and> le_key e = k)) \<and>
     (\<forall>p \<in> set (l1_list c). l1_heap c p \<noteq> None \<and> p < l1_next c)"

text \<open>The abstraction: the entries in recency order.\<close>

definition l1_view :: "l1_cache \<Rightarrow> lru_entry list" where
  "l1_view c = map (\<lambda>p. the (l1_heap c p)) (l1_list c)"

lemma l1_invD:
  assumes "l1_inv c"
  shows "distinct (map fst (l1_map c))" "distinct (l1_list c)"
    "map_of (l1_map c) k = Some p \<longleftrightarrow>
       p \<in> set (l1_list c) \<and> (\<exists>e. l1_heap c p = Some e \<and> le_key e = k)"
    "p \<in> set (l1_list c) \<Longrightarrow> \<exists>e. l1_heap c p = Some e"
    "p \<in> set (l1_list c) \<Longrightarrow> p < l1_next c"
  using assms by (auto simp: l1_inv_def)

lemma l1_inv_key_unique:
  assumes "l1_inv c" "p \<in> set (l1_list c)" "q \<in> set (l1_list c)"
    and "le_key (the (l1_heap c p)) = le_key (the (l1_heap c q))"
  shows "p = q"
proof -
  obtain e f where e: "l1_heap c p = Some e" and f: "l1_heap c q = Some f"
    using l1_invD(4) [OF assms(1)] assms(2,3) by blast
  have "map_of (l1_map c) (le_key e) = Some p" "map_of (l1_map c) (le_key e) = Some q"
    using assms e f by (simp_all add: l1_invD(3) [OF assms(1)])
  then show ?thesis by simp
qed

lemma l1_view_mem:
  assumes "l1_inv c" "e \<in> set (l1_view c)"
  shows "\<exists>p. p \<in> set (l1_list c) \<and> l1_heap c p = Some e"
proof -
  obtain p where p: "p \<in> set (l1_list c)" "e = the (l1_heap c p)"
    using assms(2) by (auto simp: l1_view_def)
  with l1_invD(4) [OF assms(1)] show ?thesis by force
qed

lemma l1_view_distinct: "l1_inv c \<Longrightarrow> distinct (map le_key (l1_view c))"
  by (simp add: l1_view_def distinct_map l1_invD(2) inj_on_def comp_def l1_inv_key_unique)

lemma l1_map_None_view: "l1_inv c \<Longrightarrow> map_of (l1_map c) k = None \<longleftrightarrow> k \<notin> le_key ` set (l1_view c)"
proof -
  assume inv: "l1_inv c"
  have "map_of (l1_map c) k = None \<longleftrightarrow> (\<forall>p. map_of (l1_map c) k \<noteq> Some p)" by auto
  also have "\<dots> \<longleftrightarrow> (\<forall>p \<in> set (l1_list c). \<forall>e. l1_heap c p = Some e \<longrightarrow> le_key e \<noteq> k)"
    by (simp add: l1_invD(3) [OF inv]) blast
  also have "\<dots> \<longleftrightarrow> (\<forall>p \<in> set (l1_list c). le_key (the (l1_heap c p)) \<noteq> k)"
    using l1_invD(4) [OF inv] by (intro ball_cong) force+
  finally show ?thesis by (auto simp: l1_view_def)
qed

lemma l1_map_dom: "l1_inv c \<Longrightarrow> fst ` set (l1_map c) = le_key ` set (l1_view c)"
  using l1_map_None_view by (metis (no_types, lifting) map_of_eq_None_iff set_eqI)

lemma l1_size_view: "l1_inv c \<Longrightarrow> l1_size c = int (length (l1_view c))"
proof -
  assume inv: "l1_inv c"
  have "length (l1_map c) = card (fst ` set (l1_map c))"
    using l1_invD(1) [OF inv] by (metis distinct_card length_map list.set_map)
  also have "\<dots> = length (l1_view c)"
    using l1_view_distinct [OF inv] by (metis distinct_card inv l1_map_dom length_map list.set_map)
  finally show ?thesis by (simp add: l1_size_def)
qed


section \<open>The abstract cache\<close>

text \<open>
  The contract: a list of entries with distinct keys, most recently used first.
\<close>

type_synonym lru = "lru_entry list"

definition lru_find :: "string \<Rightarrow> lru \<Rightarrow> lru_entry option" where
  "lru_find k es = find (\<lambda>e. le_key e = k) es"

definition lru_remove :: "string \<Rightarrow> lru \<Rightarrow> lru" where
  "lru_remove k es = filter (\<lambda>e. le_key e \<noteq> k) es"

definition lru_get :: "time \<Rightarrow> string \<Rightarrow> lru \<Rightarrow> lru \<times> cache_entry option" where
  "lru_get now k es =
     (case lru_find k es of
        None \<Rightarrow> (es, None)
      | Some e \<Rightarrow>
          (if time_after now (le_expires e) then (lru_remove k es, None)
           else (e # lru_remove k es, Some (entry_response e))))"

definition lru_set :: "int \<Rightarrow> time \<Rightarrow> string \<Rightarrow> json \<Rightarrow> duration \<Rightarrow> lru \<Rightarrow> lru" where
  "lru_set cap now k v ttl es =
     (let e = \<lparr>le_key = k, le_value = v, le_expires = time_add now ttl\<rparr>
      in if lru_find k es \<noteq> None then e # lru_remove k es
         else e # (if int (length es) \<ge> cap then butlast es else es))"

definition lru_match :: "string \<Rightarrow> string \<Rightarrow> bool" where
  "lru_match pattern key = matches_pattern key pattern (trim_suffix pattern ''*'')"

subsection \<open>Facts about views\<close>

lemma lru_find_None: "lru_find k es = None \<longleftrightarrow> k \<notin> le_key ` set es"
  by (auto simp: lru_find_def find_None_iff)

lemma find_map: "find P (map f xs) = map_option f (find (P \<circ> f) xs)"
  by (induction xs) auto

lemma find_distinct_key:
  assumes "p \<in> set xs" "P p" "\<And>q. q \<in> set xs \<Longrightarrow> P q \<Longrightarrow> q = p"
  shows "find P xs = Some p"
proof -
  obtain q where q: "find P xs = Some q"
    using assms(1,2) by (cases "find P xs") (auto simp: find_None_iff)
  then have "q \<in> set xs" "P q" by (auto simp: find_Some_iff)
  with assms(3) q show ?thesis by blast
qed

lemma l1_find_view:
  assumes inv: "l1_inv c"
  shows "lru_find k (l1_view c) =
    (case map_of (l1_map c) k of None \<Rightarrow> None | Some p \<Rightarrow> l1_heap c p)"
proof (cases "map_of (l1_map c) k")
  case None
  then have "k \<notin> le_key ` set (l1_view c)" using inv by (simp add: l1_map_None_view)
  then have "find (\<lambda>e. le_key e = k) (l1_view c) = None"
    by (auto simp: find_None_iff)
  with None show ?thesis by (simp add: lru_find_def)
next
  case (Some p)
  then obtain e where p: "p \<in> set (l1_list c)" and e: "l1_heap c p = Some e" "le_key e = k"
    by (auto simp: l1_invD(3) [OF inv])
  have "find ((\<lambda>e. le_key e = k) \<circ> (\<lambda>p. the (l1_heap c p))) (l1_list c) = Some p"
    using p e l1_inv_key_unique [OF inv] by (intro find_distinct_key) auto
  with Some e show ?thesis by (simp add: lru_find_def l1_view_def find_map)
qed

lemma l1_view_remove:
  assumes inv: "l1_inv c" and p: "map_of (l1_map c) k = Some p"
  shows "map (\<lambda>q. the (l1_heap c q)) (remove1 p (l1_list c)) = lru_remove k (l1_view c)"
proof -
  have pk: "p \<in> set (l1_list c)" "le_key (the (l1_heap c p)) = k"
    using p by (auto simp: l1_invD(3) [OF inv])
  have "remove1 p (l1_list c) = filter (\<lambda>q. q \<noteq> p) (l1_list c)"
    using l1_invD(2) [OF inv] by (simp add: distinct_remove1_removeAll removeAll_filter_not_eq
        eq_commute)
  also have "\<dots> = filter (\<lambda>q. le_key (the (l1_heap c q)) \<noteq> k) (l1_list c)"
    using pk l1_inv_key_unique [OF inv] by (intro filter_cong) auto
  finally show ?thesis by (simp add: lru_remove_def l1_view_def filter_map comp_def)
qed

subsection \<open>Deletion\<close>

lemma l1_delete_unsafe_refines:
  assumes inv: "l1_inv c"
  shows "l1_inv (fst (l1_delete_unsafe c k))"
    and "l1_view (fst (l1_delete_unsafe c k)) = lru_remove k (l1_view c)"
    and "snd (l1_delete_unsafe c k) \<longleftrightarrow> lru_find k (l1_view c) \<noteq> None"
    and "l1_max (fst (l1_delete_unsafe c k)) = l1_max c"
proof -
  show "l1_max (fst (l1_delete_unsafe c k)) = l1_max c"
    by (simp add: l1_delete_unsafe_def split: option.split)
  show "snd (l1_delete_unsafe c k) \<longleftrightarrow> lru_find k (l1_view c) \<noteq> None"
    using l1_map_None_view [OF inv, of k]
    by (auto simp: l1_delete_unsafe_def lru_find_None split: option.split)
  show "l1_view (fst (l1_delete_unsafe c k)) = lru_remove k (l1_view c)"
  proof (cases "map_of (l1_map c) k")
    case None
    with inv have "k \<notin> le_key ` set (l1_view c)" by (simp add: l1_map_None_view)
    then have "lru_remove k (l1_view c) = l1_view c"
      by (auto simp: lru_remove_def filter_id_conv)
    with None show ?thesis by (simp add: l1_delete_unsafe_def)
  next
    case (Some p)
    then show ?thesis
      using l1_view_remove [OF inv Some]
      by (simp add: l1_delete_unsafe_def l1_view_def list_remove_def)
  qed
  show "l1_inv (fst (l1_delete_unsafe c k))"
  proof (cases "map_of (l1_map c) k")
    case None
    with inv show ?thesis by (simp add: l1_delete_unsafe_def)
  next
    case (Some p)
    then have del: "fst (l1_delete_unsafe c k) =
        c\<lparr>l1_list := remove1 p (l1_list c), l1_map := AList.delete k (l1_map c)\<rparr>"
      by (simp add: l1_delete_unsafe_def list_remove_def)
    have "map_of (l1_map c) k' = Some q \<and> k' \<noteq> k \<longleftrightarrow>
        q \<in> set (remove1 p (l1_list c)) \<and> (\<exists>e. l1_heap c q = Some e \<and> le_key e = k')" for k' q
    proof -
      have "le_key f \<noteq> k" if "q \<in> set (l1_list c)" "q \<noteq> p" "l1_heap c q = Some f" for f
        using that Some l1_invD(3) [OF inv] by (metis option.inject)
      then show ?thesis
        using Some l1_invD(2) [OF inv] by (auto simp: l1_invD(3) [OF inv])
    qed
    then have "\<forall>k' q. map_of (AList.delete k (l1_map c)) k' = Some q \<longleftrightarrow>
        q \<in> set (remove1 p (l1_list c)) \<and> (\<exists>e. l1_heap c q = Some e \<and> le_key e = k')"
      by (auto simp: al_delete_map_of)
    then show ?thesis
      using inv set_remove1_subset [of p "l1_list c"]
      by (auto simp: del l1_inv_def al_delete_distinct)
  qed
qed

lemma l1_delete_keys_refines:
  assumes "l1_inv c"
  shows "l1_inv (fst (l1_delete_keys c ks)) \<and>
    l1_view (fst (l1_delete_keys c ks)) = filter (\<lambda>e. le_key e \<notin> set ks) (l1_view c) \<and>
    l1_max (fst (l1_delete_keys c ks)) = l1_max c"
  using assms
proof (induction ks arbitrary: c)
  case Nil
  then show ?case by simp
next
  case (Cons k ks)
  show ?case
    using Cons.IH [OF l1_delete_unsafe_refines(1) [OF Cons.prems]]
      l1_delete_unsafe_refines [OF Cons.prems]
    by (simp add: case_prod_beta Let_def lru_remove_def filter_filter conj_commute)
qed

lemma l1_delete_keys_count:
  assumes "l1_inv c" "distinct ks" "set ks \<subseteq> le_key ` set (l1_view c)"
  shows "snd (l1_delete_keys c ks) = int (length ks)"
  using assms
proof (induction ks arbitrary: c)
  case Nil
  then show ?case by simp
next
  case (Cons k ks)
  let ?c = "fst (l1_delete_unsafe c k)"
  have view: "l1_view ?c = lru_remove k (l1_view c)"
    using Cons.prems(1) by (rule l1_delete_unsafe_refines(2))
  have "set ks \<subseteq> le_key ` set (l1_view ?c)"
    using Cons.prems by (force simp: view lru_remove_def)
  then have "snd (l1_delete_keys ?c ks) = int (length ks)"
    using Cons.IH [OF l1_delete_unsafe_refines(1) [OF Cons.prems(1)]] Cons.prems(2) by simp
  moreover have "lru_find k (l1_view c) \<noteq> None"
    using Cons.prems(3) by (auto simp: lru_find_def find_None_iff)
  ultimately show ?case
    using l1_delete_unsafe_refines(3) [OF Cons.prems(1), of k]
    by (simp add: case_prod_beta Let_def)
qed

text \<open>The number of deleted keys is the number of entries that leave the view, whatever the
  order in which the map hands out its keys.\<close>

lemma l1_delete_matching:
  assumes inv: "l1_inv c" and ks: "ks = filter P (map fst (l1_map c))"
  shows "l1_inv (fst (l1_delete_keys c ks))"
    and "l1_view (fst (l1_delete_keys c ks)) = filter (\<lambda>e. \<not> P (le_key e)) (l1_view c)"
    and "snd (l1_delete_keys c ks) = int (length (filter (\<lambda>e. P (le_key e)) (l1_view c)))"
    and "l1_max (fst (l1_delete_keys c ks)) = l1_max c"
proof -
  have set_ks: "set ks = {k \<in> le_key ` set (l1_view c). P k}"
    using l1_map_dom [OF inv] by (auto simp: ks)
  have "distinct ks" using l1_invD(1) [OF inv] by (simp add: ks)
  note r = l1_delete_keys_refines [OF inv, of ks]
  show "l1_inv (fst (l1_delete_keys c ks))"
    and "l1_max (fst (l1_delete_keys c ks)) = l1_max c" using r by auto
  show "l1_view (fst (l1_delete_keys c ks)) = filter (\<lambda>e. \<not> P (le_key e)) (l1_view c)"
    using r by (auto simp: set_ks intro!: filter_cong)
  have "length ks = card (set ks)" using \<open>distinct ks\<close> by (simp add: distinct_card)
  also have "set ks = set (map le_key (filter (\<lambda>e. P (le_key e)) (l1_view c)))"
    by (auto simp: set_ks)
  also have "card \<dots> = length (filter (\<lambda>e. P (le_key e)) (l1_view c))"
    using l1_view_distinct [OF inv]
    by (metis (no_types, lifting) distinct_card distinct_map_filter length_map)
  finally show "snd (l1_delete_keys c ks) = int (length (filter (\<lambda>e. P (le_key e)) (l1_view c)))"
    using l1_delete_keys_count [OF inv \<open>distinct ks\<close>] by (auto simp: set_ks)
qed

lemma l1_delete_pattern_refines:
  assumes inv: "l1_inv c"
  shows "l1_inv (fst (l1_delete_pattern c p))"
    and "l1_view (fst (l1_delete_pattern c p)) =
      filter (\<lambda>e. \<not> lru_match p (le_key e)) (l1_view c)"
    and "snd (l1_delete_pattern c p) =
      int (length (filter (\<lambda>e. lru_match p (le_key e)) (l1_view c)))"
    and "l1_max (fst (l1_delete_pattern c p)) = l1_max c"
  using l1_delete_matching [OF inv refl, of "lru_match p"]
  unfolding l1_delete_pattern_def Let_def lru_match_def [symmetric] by blast+

lemma l1_cleanup_refines:
  assumes inv: "l1_inv c"
  shows "l1_inv (fst (l1_cleanup_expired now c))"
    and "l1_view (fst (l1_cleanup_expired now c)) =
      filter (\<lambda>e. \<not> time_after now (le_expires e)) (l1_view c)"
    and "snd (l1_cleanup_expired now c) =
      int (length (filter (\<lambda>e. time_after now (le_expires e)) (l1_view c)))"
    and "l1_max (fst (l1_cleanup_expired now c)) = l1_max c"
proof -
  define P where "P k \<longleftrightarrow> (case lru_find k (l1_view c) of None \<Rightarrow> False
    | Some e \<Rightarrow> time_after now (le_expires e))" for k
  have mem: "map_of (l1_map c) (fst kp) = Some (snd kp)" if "kp \<in> set (l1_map c)" for kp
    using that l1_invD(1) [OF inv] by simp
  have "map fst (filter (\<lambda>(key, p). (case l1_heap c p of None \<Rightarrow> False
      | Some e \<Rightarrow> time_after now (le_expires e))) (l1_map c)) =
    map fst (filter (\<lambda>kp. P (fst kp)) (l1_map c))"
    by (intro arg_cong [where f = "map fst"] filter_cong)
      (auto simp: P_def l1_find_view [OF inv] mem split_beta)
  then have keys: "map fst (filter (\<lambda>(key, p). (case l1_heap c p of None \<Rightarrow> False
      | Some e \<Rightarrow> time_after now (le_expires e))) (l1_map c)) = filter P (map fst (l1_map c))"
    by (simp add: filter_map comp_def)
  have P: "P (le_key e) \<longleftrightarrow> time_after now (le_expires e)" if "e \<in> set (l1_view c)" for e
  proof -
    obtain p where p: "p \<in> set (l1_list c)" "l1_heap c p = Some e"
      using l1_view_mem [OF inv \<open>e \<in> set (l1_view c)\<close>] by blast
    then have "map_of (l1_map c) (le_key e) = Some p" by (simp add: l1_invD(3) [OF inv])
    with p show ?thesis by (simp add: P_def l1_find_view [OF inv])
  qed
  note r = l1_delete_matching [OF inv keys]
  show "l1_inv (fst (l1_cleanup_expired now c))"
    and "l1_max (fst (l1_cleanup_expired now c)) = l1_max c"
    using r(1,4) by (simp_all add: l1_cleanup_expired_def)
  show "l1_view (fst (l1_cleanup_expired now c)) =
      filter (\<lambda>e. \<not> time_after now (le_expires e)) (l1_view c)"
    using r(2) P by (auto simp: l1_cleanup_expired_def intro!: filter_cong)
  show "snd (l1_cleanup_expired now c) =
      int (length (filter (\<lambda>e. time_after now (le_expires e)) (l1_view c)))"
    using r(3) P by (auto simp: l1_cleanup_expired_def intro!: arg_cong [where f = length] filter_cong)
qed

subsection \<open>Lookup\<close>

lemma l1_move_view:
  assumes inv: "l1_inv c" and p: "map_of (l1_map c) k = Some p" and e: "l1_heap c p = Some e"
  shows "map (\<lambda>q. the (l1_heap c q)) (move_to_front p (l1_list c)) =
    e # lru_remove k (l1_view c)"
  using l1_view_remove [OF inv p] p e
  by (auto simp: move_to_front_def l1_invD(3) [OF inv])

lemma set_move_to_front [simp]: "set (move_to_front p ps) = set ps"
proof (rule set_eqI)
  fix x
  show "x \<in> set (move_to_front p ps) \<longleftrightarrow> x \<in> set ps"
    by (cases "x = p") (auto simp: move_to_front_def)
qed

lemma distinct_move_to_front [simp]: "distinct ps \<Longrightarrow> distinct (move_to_front p ps)"
  by (simp add: move_to_front_def)

lemma l1_inv_move: "l1_inv c \<Longrightarrow> l1_inv (c\<lparr>l1_list := move_to_front p (l1_list c)\<rparr>)"
  by (simp add: l1_inv_def)

lemma l1_get_refines:
  assumes inv: "l1_inv c"
  shows "l1_inv (fst (l1_get now c k))"
    and "l1_view (fst (l1_get now c k)) = fst (lru_get now k (l1_view c))"
    and "snd (l1_get now c k) = snd (lru_get now k (l1_view c))"
    and "l1_max (fst (l1_get now c k)) = l1_max c"
proof (atomize(full), goal_cases)
  case 1
  show ?case
  proof (cases "map_of (l1_map c) k")
    case None
    with inv show ?thesis by (simp add: l1_get_def lru_get_def l1_find_view)
  next
    case (Some p)
    then obtain e where e: "l1_heap c p = Some e" by (auto simp: l1_invD(3) [OF inv])
    have find: "lru_find k (l1_view c) = Some e"
      using inv Some e by (simp add: l1_find_view)
    show ?thesis
    proof (cases "time_after now (le_expires e)")
      case True
      with Some e find l1_delete_unsafe_refines [OF inv, of k] show ?thesis
        by (simp add: l1_get_def lru_get_def)
    next
      case False
      then have get: "l1_get now c k =
          (c\<lparr>l1_list := move_to_front p (l1_list c)\<rparr>, Some (entry_response e))"
        using Some e by (simp add: l1_get_def)
      with False find l1_move_view [OF inv Some e] l1_inv_move [OF inv]
      show ?thesis by (simp add: lru_get_def l1_view_def)
    qed
  qed
qed

text \<open>Run without interference, the three sections of \<open>Get\<close> are \<open>l1_get\<close>.\<close>

lemma l1_get_steps:
  "l1_get_step now (l1_get_step now (l1_get_step now (c, GetStart k))) =
    (fst (l1_get now c k), GetDone (snd (l1_get now c k)))"
  by (simp add: l1_get_def split: option.split)

subsection \<open>Insertion\<close>

lemma l1_evict_refines:
  assumes inv: "l1_inv c"
  shows "l1_inv (l1_evict_lru c)"
    and "l1_view (l1_evict_lru c) = butlast (l1_view c)"
    and "l1_max (l1_evict_lru c) = l1_max c" and "l1_next (l1_evict_lru c) = l1_next c"
    and "l1_heap (l1_evict_lru c) = l1_heap c"
proof -
  show "l1_max (l1_evict_lru c) = l1_max c" "l1_next (l1_evict_lru c) = l1_next c"
    "l1_heap (l1_evict_lru c) = l1_heap c"
    by (auto simp: l1_evict_lru_def Let_def split: option.split)
  have both: "l1_inv (l1_evict_lru c) \<and> l1_view (l1_evict_lru c) = butlast (l1_view c)"
  proof (cases "l1_list c = []")
    case True
    with inv show ?thesis by (simp add: l1_evict_lru_def l1_view_def)
  next
    case False
    define p where "p = last (l1_list c)"
    have p: "p \<in> set (l1_list c)" using False by (simp add: p_def)
    then obtain e where e: "l1_heap c p = Some e" using l1_invD(4) [OF inv] by blast
    have mp: "map_of (l1_map c) (le_key e) = Some p"
      using p e by (simp add: l1_invD(3) [OF inv])
    have "l1_evict_lru c = fst (l1_delete_unsafe c (le_key e))"
      using False e mp by (simp add: l1_evict_lru_def l1_delete_unsafe_def p_def Let_def)
    then have inv': "l1_inv (l1_evict_lru c)"
      and list: "l1_list (l1_evict_lru c) = remove1 p (l1_list c)"
      using l1_delete_unsafe_refines(1) [OF inv, of "le_key e"] mp
      by (simp_all add: l1_delete_unsafe_def list_remove_def)
    have split: "l1_list c = butlast (l1_list c) @ [p]" using False by (simp add: p_def)
    have "p \<notin> set (butlast (l1_list c))"
      using l1_invD(2) [OF inv] split by (metis distinct_append disjoint_insert(1) list.simps(15))
    then have "remove1 p (l1_list c) = butlast (l1_list c)"
      by (subst split) (simp add: remove1_append)
    then have "l1_view (l1_evict_lru c) = butlast (l1_view c)"
      using list \<open>l1_heap (l1_evict_lru c) = l1_heap c\<close> by (simp add: l1_view_def map_butlast)
    with inv' show ?thesis by simp
  qed
  then show "l1_inv (l1_evict_lru c)" "l1_view (l1_evict_lru c) = butlast (l1_view c)" by auto
qed

lemma l1_insert_refines:
  assumes inv: "l1_inv c" and new: "map_of (l1_map c) k = None" and e: "le_key e = k"
  defines "p \<equiv> l1_next c"
  defines "c' \<equiv> c\<lparr>l1_heap := (l1_heap c)(p \<mapsto> e), l1_next := Suc p,
      l1_list := p # l1_list c, l1_map := AList.update k p (l1_map c)\<rparr>"
  shows "l1_inv c' \<and> l1_view c' = e # l1_view c"
proof -
  have fresh: "p \<notin> set (l1_list c)" using l1_invD(5) [OF inv] by (auto simp: p_def)
  have nokey: "le_key f \<noteq> k" if "q \<in> set (l1_list c)" "l1_heap c q = Some f" for q f
    using that new l1_invD(3) [OF inv] by (metis option.distinct(1))
  have "l1_view c' = e # l1_view c"
    using fresh by (auto simp: c'_def l1_view_def)
  moreover have "map_of (l1_map c') j = Some q \<longleftrightarrow>
      q \<in> set (l1_list c') \<and> (\<exists>f. l1_heap c' q = Some f \<and> le_key f = j)" for j q
    using fresh e nokey by (auto simp: c'_def al_simps l1_invD(3) [OF inv])
  moreover have "distinct (map fst (l1_map c'))" "distinct (l1_list c')"
    using l1_invD(1,2) [OF inv] fresh by (auto simp: c'_def distinct_update)
  moreover have "\<forall>q \<in> set (l1_list c'). l1_heap c' q \<noteq> None \<and> q < l1_next c'"
    using l1_invD(4,5) [OF inv] by (auto simp: c'_def p_def less_Suc_eq)
  ultimately show ?thesis by (simp add: l1_inv_def)
qed

lemma l1_update_refines:
  assumes inv: "l1_inv c" and old: "map_of (l1_map c) k = Some p"
    and g: "\<And>e. le_key (g e) = le_key e"
  defines "c' \<equiv> c\<lparr>l1_heap := (l1_heap c)(p := map_option g (l1_heap c p)),
      l1_list := move_to_front p (l1_list c)\<rparr>"
  shows "l1_inv c' \<and> l1_view c' = g (the (l1_heap c p)) # lru_remove k (l1_view c)"
proof -
  obtain e where p: "p \<in> set (l1_list c)" and e: "l1_heap c p = Some e" "le_key e = k"
    using old by (auto simp: l1_invD(3) [OF inv])
  have "p \<notin> set (remove1 p (l1_list c))" using l1_invD(2) [OF inv] by simp
  then have "map (\<lambda>q. the (l1_heap c' q)) (remove1 p (l1_list c)) =
      map (\<lambda>q. the (l1_heap c q)) (remove1 p (l1_list c))"
    by (intro map_cong) (auto simp: c'_def)
  then have view: "l1_view c' = g e # lru_remove k (l1_view c)"
    using p e l1_view_remove [OF inv old] by (simp add: l1_view_def c'_def move_to_front_def)
  have "map_of (l1_map c') j = Some q \<longleftrightarrow>
      q \<in> set (l1_list c') \<and> (\<exists>f. l1_heap c' q = Some f \<and> le_key f = j)" for j q
    using e g by (auto simp: c'_def l1_invD(3) [OF inv])
  moreover have "\<forall>q \<in> set (l1_list c'). l1_heap c' q \<noteq> None \<and> q < l1_next c'"
    using l1_invD(4,5) [OF inv] e by (auto simp: c'_def)
  ultimately have "l1_inv c'"
    using l1_invD(1,2) [OF inv] by (simp add: l1_inv_def c'_def)
  with view e show ?thesis by simp
qed

lemma l1_set_refines:
  assumes inv: "l1_inv c"
  shows "l1_inv (l1_set now c k v ttl)"
    and "l1_view (l1_set now c k v ttl) = lru_set (l1_max c) now k v ttl (l1_view c)"
    and "l1_max (l1_set now c k v ttl) = l1_max c"
proof -
  define c1 where "c1 = (if int (length (l1_list c)) \<ge> l1_max c then l1_evict_lru c else c)"
  have c1: "l1_inv c1" "l1_max c1 = l1_max c"
    "l1_view c1 = (if int (length (l1_view c)) \<ge> l1_max c then butlast (l1_view c) else l1_view c)"
    using inv l1_evict_refines [OF inv] by (auto simp: c1_def l1_view_def)
  show "l1_max (l1_set now c k v ttl) = l1_max c"
    using l1_evict_refines(3) [OF inv] by (simp add: l1_set_def Let_def split: option.split)
  have both: "l1_inv (l1_set now c k v ttl) \<and>
      l1_view (l1_set now c k v ttl) = lru_set (l1_max c) now k v ttl (l1_view c)"
  proof (cases "map_of (l1_map c) k")
    case (Some p)
    then obtain e where e: "l1_heap c p = Some e" "le_key e = k"
      by (auto simp: l1_invD(3) [OF inv])
    let ?g = "\<lambda>e. e\<lparr>le_value := v, le_expires := time_add now ttl\<rparr>"
    have "?g e = \<lparr>le_key = k, le_value = v, le_expires = time_add now ttl\<rparr>"
      using e by simp
    moreover have "lru_find k (l1_view c) \<noteq> None" using inv Some e by (simp add: l1_find_view)
    ultimately show ?thesis
      using l1_update_refines [OF inv Some, of ?g] Some e
      by (simp add: l1_set_def lru_set_def)
  next
    case None
    then have "k \<notin> le_key ` set (l1_view c)" using inv by (simp add: l1_map_None_view)
    then have "k \<notin> le_key ` set (l1_view c1)" by (auto simp: c1(3) dest: in_set_butlastD)
    then have new: "map_of (l1_map c1) k = None" using c1(1) by (simp add: l1_map_None_view)
    have "lru_find k (l1_view c) = None" using inv None by (simp add: l1_find_view)
    then show ?thesis
      using l1_insert_refines [OF c1(1) new, of "\<lparr>le_key = k, le_value = v,
        le_expires = time_add now ttl\<rparr>"] None c1(3)
      by (simp add: l1_set_def lru_set_def c1_def [symmetric] Let_def)
  qed
  then show "l1_inv (l1_set now c k v ttl)"
    "l1_view (l1_set now c k v ttl) = lru_set (l1_max c) now k v ttl (l1_view c)" by auto
qed

lemma l1_clear_refines:
  assumes "l1_inv c"
  shows "l1_inv (l1_clear c)" "l1_view (l1_clear c) = []" "l1_max (l1_clear c) = l1_max c"
  by (simp_all add: l1_clear_def l1_inv_def l1_view_def)

lemma l1_new_refines: "l1_inv (l1_new n)" "l1_view (l1_new n) = []" "l1_max (l1_new n) = n"
  by (simp_all add: l1_new_def l1_inv_def l1_view_def)

lemmas l1_refines =
  l1_get_refines l1_set_refines l1_delete_unsafe_refines
  l1_delete_pattern_refines l1_cleanup_refines l1_clear_refines

section \<open>The cache as a store with deadlines\<close>

definition l1_content :: "l1_cache \<Rightarrow> string \<Rightarrow> (json \<times> time) option" where
  "l1_content c k = map_option (\<lambda>e. (le_value e, le_expires e)) (lru_find k (l1_view c))"

lemma lru_find_remove:
  "lru_find j (lru_remove k es) = (if j = k then None else lru_find j es)"
  by (induction es) (auto simp: lru_find_def lru_remove_def)

lemma lru_find_filter:
  "lru_find k (filter (\<lambda>e. \<not> P (le_key e)) es) = (if P k then None else lru_find k es)"
  by (induction es) (auto simp: lru_find_def)

lemma lru_find_key: "lru_find k es = Some e \<Longrightarrow> le_key e = k"
  by (auto simp: lru_find_def find_Some_iff)

lemma lru_find_Cons:
  "lru_find j (e # es) = (if le_key e = j then Some e else lru_find j es)"
  by (simp add: lru_find_def)

lemma lru_find_butlast:
  "lru_find j (butlast es) = lru_find j es \<or> lru_find j (butlast es) = None"
  by (induction es) (auto simp: lru_find_def)

lemma l1_content_get:
  assumes inv: "l1_inv c"
  shows "snd (l1_get now c k) =
      (case l1_content c k of None \<Rightarrow> None
       | Some (v, t) \<Rightarrow> if time_after now t then None
           else Some (entry_response \<lparr>le_key = k, le_value = v, le_expires = t\<rparr>))"
    and "l1_content (fst (l1_get now c k)) =
      (case l1_content c k of None \<Rightarrow> l1_content c
       | Some (v, t) \<Rightarrow> if time_after now t then (l1_content c)(k := None) else l1_content c)"
  using l1_get_refines [OF inv, of now k]
  by (auto simp: l1_content_def lru_get_def entry_response_def fun_eq_iff lru_find_remove
      lru_find_Cons dest!: lru_find_key split: option.splits)

lemma l1_content_set:
  assumes inv: "l1_inv c"
  shows "l1_content (l1_set now c k v ttl) k = Some (v, time_add now ttl)"
    and "j \<noteq> k \<Longrightarrow> l1_content (l1_set now c k v ttl) j = l1_content c j \<or>
      l1_content (l1_set now c k v ttl) j = None"
  using lru_find_butlast [of j "l1_view c"]
  by (auto simp: l1_content_def l1_set_refines [OF inv] lru_set_def Let_def lru_find_Cons
      lru_find_remove)

lemma card_view_keys:
  assumes "l1_inv c"
  shows "card {k. l1_content c k \<noteq> None \<and> P k} = length (filter (\<lambda>e. P (le_key e)) (l1_view c))"
proof -
  have "{k. l1_content c k \<noteq> None \<and> P k} = set (map le_key (filter (\<lambda>e. P (le_key e)) (l1_view c)))"
    by (auto simp: l1_content_def lru_find_None)
  then show ?thesis
    using l1_view_distinct [OF assms]
    by (metis (no_types, lifting) distinct_card distinct_map_filter length_map)
qed

interpretation l1: ttl_pattern_store l1_inv l1_content l1_get
  "\<lambda>v t. \<lparr>ce_value = v, ce_cached_at = time_add t (- 1 * hour), ce_expires_at = t,
          ce_source = ''l1''\<rparr>"
  l1_set l1_delete l1_delete_pattern lru_match
proof (unfold_locales, goal_cases)
  case (2 s now k)
  then show ?case
    by (auto simp: l1_content_get entry_response_def split: option.splits)
next
  case (5 s now k v ttl)
  then show ?case by (rule l1_content_set)
next
  case (6 s j k now v ttl)
  then show ?case by (rule l1_content_set)
next
  case (8 s k)
  then show ?case
    using l1_delete_unsafe_refines [OF 8, of k]
    by (auto simp: l1_delete_def l1_content_def lru_find_remove)
next
  case (12 s p)
  then show ?case
    using card_view_keys [OF 12, of "lru_match p"] by (simp add: l1_delete_pattern_refines)
qed (auto simp: l1_refines l1_content_get l1_delete_def l1_content_def
    lru_find_filter fun_eq_iff)

section \<open>Whole runs\<close>

text \<open>
  A run of the cache is a sequence of operations, each with the clock reading it makes.  The
  abstract cache runs the same sequence on the list of entries.
\<close>

datatype l1_op =
    OpGet string
  | OpSet string json duration
  | OpDelete string
  | OpDeletePattern string
  | OpCleanup
  | OpClear

datatype l1_out = OutEntry "cache_entry option" | OutBool bool | OutCount int | OutUnit

fun l1_apply :: "time \<Rightarrow> l1_op \<Rightarrow> l1_cache \<Rightarrow> l1_cache \<times> l1_out" where
  "l1_apply now (OpGet k) c = (let (c', r) = l1_get now c k in (c', OutEntry r))"
| "l1_apply now (OpSet k v ttl) c = (l1_set now c k v ttl, OutUnit)"
| "l1_apply now (OpDelete k) c = (let (c', ok) = l1_delete c k in (c', OutBool ok))"
| "l1_apply now (OpDeletePattern p) c = (let (c', n) = l1_delete_pattern c p in (c', OutCount n))"
| "l1_apply now OpCleanup c = (let (c', n) = l1_cleanup_expired now c in (c', OutCount n))"
| "l1_apply now OpClear c = (l1_clear c, OutUnit)"

fun lru_apply :: "int \<Rightarrow> time \<Rightarrow> l1_op \<Rightarrow> lru \<Rightarrow> lru \<times> l1_out" where
  "lru_apply cap now (OpGet k) es = (let (es', r) = lru_get now k es in (es', OutEntry r))"
| "lru_apply cap now (OpSet k v ttl) es = (lru_set cap now k v ttl es, OutUnit)"
| "lru_apply cap now (OpDelete k) es = (lru_remove k es, OutBool (lru_find k es \<noteq> None))"
| "lru_apply cap now (OpDeletePattern p) es =
     (filter (\<lambda>e. \<not> lru_match p (le_key e)) es,
      OutCount (int (length (filter (\<lambda>e. lru_match p (le_key e)) es))))"
| "lru_apply cap now OpCleanup es =
     (filter (\<lambda>e. \<not> time_after now (le_expires e)) es,
      OutCount (int (length (filter (\<lambda>e. time_after now (le_expires e)) es))))"
| "lru_apply cap now OpClear es = ([], OutUnit)"

fun l1_run :: "l1_cache \<Rightarrow> (time \<times> l1_op) list \<Rightarrow> l1_cache \<times> l1_out list" where
  "l1_run c [] = (c, [])"
| "l1_run c ((now, op) # ops) =
     (let (c1, out) = l1_apply now op c; (c2, outs) = l1_run c1 ops in (c2, out # outs))"

fun lru_run :: "int \<Rightarrow> lru \<Rightarrow> (time \<times> l1_op) list \<Rightarrow> lru \<times> l1_out list" where
  "lru_run cap es [] = (es, [])"
| "lru_run cap es ((now, op) # ops) =
     (let (es1, out) = lru_apply cap now op es; (es2, outs) = lru_run cap es1 ops
      in (es2, out # outs))"

lemma l1_apply_refines:
  assumes "l1_inv c"
  shows "l1_inv (fst (l1_apply now op c)) \<and> l1_max (fst (l1_apply now op c)) = l1_max c \<and>
    l1_view (fst (l1_apply now op c)) = fst (lru_apply (l1_max c) now op (l1_view c)) \<and>
    snd (l1_apply now op c) = snd (lru_apply (l1_max c) now op (l1_view c))"
  by (cases op) (simp_all add: l1_refines [OF assms] l1_delete_def case_prod_beta)

lemma l1_run_from:
  assumes "l1_inv c"
  shows "l1_inv (fst (l1_run c ops)) \<and> l1_max (fst (l1_run c ops)) = l1_max c \<and>
    l1_view (fst (l1_run c ops)) = fst (lru_run (l1_max c) (l1_view c) ops) \<and>
    snd (l1_run c ops) = snd (lru_run (l1_max c) (l1_view c) ops)"
  using assms
proof (induction ops arbitrary: c)
  case Nil
  then show ?case by simp
next
  case (Cons a ops)
  obtain now op where a: "a = (now, op)" by (cases a)
  from l1_apply_refines [OF Cons.prems, of now op] Cons.IH show ?case
    by (simp add: a case_prod_beta Let_def)
qed

text \<open>Recency: the keys touched by a run, the latest first, each listed once.\<close>

fun touched :: "l1_op \<Rightarrow> l1_out \<Rightarrow> string list" where
  "touched (OpSet k v ttl) out = [k]"
| "touched (OpGet k) (OutEntry (Some e)) = [k]"
| "touched op out = []"

fun touches :: "(time \<times> l1_op) list \<Rightarrow> l1_out list \<Rightarrow> string list" where
  "touches ((now, op) # ops) (out # outs) = touched op out @ touches ops outs"
| "touches ops outs = []"

definition bump :: "string \<Rightarrow> string list \<Rightarrow> string list" where
  "bump k ks = k # removeAll k ks"

definition recency :: "string list \<Rightarrow> string list" where
  "recency ts = fold bump ts []"

lemma subseq_removeAll: "subseq xs ys \<Longrightarrow> subseq (removeAll k xs) (removeAll k ys)"
  by (simp add: removeAll_filter_not_eq subseq_filter)

lemma subseq_filter_left: "subseq xs ys \<Longrightarrow> subseq (filter P xs) ys"
  by (meson subseq_filter_left subseq_order.order_trans)

lemma map_key_remove: "map le_key (lru_remove k es) = removeAll k (map le_key es)"
  by (induction es) (auto simp: lru_remove_def)

lemma subseq_butlast: "subseq xs ys \<Longrightarrow> subseq (butlast xs) ys"
  by (metis butlast_conv_take subseq_order.order_trans take_is_prefix prefix_imp_subseq)

lemma map_key_filter: "subseq (map le_key es) ks \<Longrightarrow> subseq (map le_key (filter P es)) ks"
  by (meson subseq_filter_left subseq_map subseq_order.order_trans
      subseq_order.dual_order.refl)

lemma lru_apply_recency:
  assumes "subseq (map le_key es) ks"
  shows "subseq (map le_key (fst (lru_apply cap now op es)))
    (fold bump (touched op (snd (lru_apply cap now op es))) ks)"
proof -
  have del: "subseq (map le_key (lru_remove k es)) ks" for k
    using assms by (simp add: lru_remove_def map_key_filter)
  have move: "subseq (k # map le_key (lru_remove k es)) (bump k ks)" for k
    using assms by (simp add: bump_def map_key_remove subseq_removeAll)
  have new: "subseq (k # map le_key (butlast es)) (bump k ks)"
    "subseq (k # map le_key es) (bump k ks)" if "lru_find k es = None" for k
  proof -
    have "removeAll k (map le_key es) = map le_key es"
      using that by (auto simp: lru_find_None intro!: removeAll_id)
    then have 1: "subseq (map le_key es) (removeAll k ks)"
      using subseq_removeAll [OF assms, of k] by simp
    then show "subseq (k # map le_key es) (bump k ks)" by (simp add: bump_def)
    from 1 show "subseq (k # map le_key (butlast es)) (bump k ks)"
      by (simp add: bump_def map_butlast subseq_butlast)
  qed
  show ?thesis
  proof (cases op)
    case (OpGet k)
    then show ?thesis
      using assms del move
      by (auto simp: lru_get_def dest!: lru_find_key split: option.split)
  next
    case (OpSet k v ttl)
    then show ?thesis using move new by (auto simp: lru_set_def Let_def)
  qed (use assms in \<open>simp_all add: del map_key_filter\<close>)
qed

lemma lru_run_recency:
  assumes "subseq (map le_key es) ks"
  shows "subseq (map le_key (fst (lru_run cap es ops)))
    (fold bump (touches ops (snd (lru_run cap es ops))) ks)"
  using assms
proof (induction ops arbitrary: es ks)
  case Nil
  then show ?case by simp
next
  case (Cons a ops)
  obtain now op where a: "a = (now, op)" by (cases a)
  from Cons.IH [OF lru_apply_recency [OF Cons.prems, of cap now op]] show ?case
    by (simp add: a case_prod_beta Let_def)
qed

lemma lru_apply_length:
  assumes "int (length es) \<le> max 1 cap"
  shows "int (length (fst (lru_apply cap now op es))) \<le> max 1 cap"
proof -
  have le: "int (length (filter P es)) \<le> max 1 cap" for P
    using assms length_filter_le [of P es] by linarith
  have move: "lru_find k es = Some e \<Longrightarrow> length (lru_remove k es) < length es" for k e
    unfolding lru_remove_def lru_find_def
    by (rule length_filter_less [of e]) (auto simp: find_Some_iff)
  show ?thesis
  proof (cases op)
    case (OpGet k)
    then show ?thesis
      using assms move [of k] le [of "\<lambda>e. le_key e \<noteq> k"]
      by (fastforce simp: lru_get_def lru_remove_def split: option.split)
  next
    case (OpSet k v ttl)
    then show ?thesis
      using assms move [of k] by (fastforce simp: lru_set_def Let_def)
  qed (use assms le in \<open>simp_all add: lru_remove_def\<close>)
qed

lemma lru_run_length:
  assumes "int (length es) \<le> max 1 cap"
  shows "int (length (fst (lru_run cap es ops))) \<le> max 1 cap"
  using assms
proof (induction ops arbitrary: es)
  case Nil
  then show ?case by simp
next
  case (Cons a ops)
  obtain now op where a: "a = (now, op)" by (cases a)
  from Cons.IH [OF lru_apply_length [OF Cons.prems, of now op]] show ?case
    by (simp add: a case_prod_beta Let_def)
qed

section \<open>Properties\<close>

text \<open>
  Property C1.  Every run of the level-1 cache from a fresh cache refines the abstract recency
  list: the entries it holds, in recency order, and every result it returned (entries, flags and
  counts) are those of the list, whatever the order of Go's map iteration in \<open>DeletePattern\<close> and
  \<open>CleanupExpired\<close>.
\<close>

theorem l1_run_refines:
  "l1_view (fst (l1_run (l1_new cap) ops)) = fst (lru_run cap [] ops) \<and>
   snd (l1_run (l1_new cap) ops) = snd (lru_run cap [] ops)"
  using l1_run_from [OF l1_new_refines(1), of cap ops] by (simp add: l1_new_refines)

text \<open>
  Property C2.  The cache never holds more entries than its capacity (one entry, when it was
  created with a capacity below one), and its map and its list always hold equally many.
\<close>

theorem l1_run_bounded:
  "l1_size (fst (l1_run (l1_new cap) ops)) \<le> max 1 cap \<and>
   l1_size (fst (l1_run (l1_new cap) ops)) = int (length (l1_list (fst (l1_run (l1_new cap) ops))))"
proof -
  note run = l1_run_from [OF l1_new_refines(1), of cap ops]
  have "int (length (fst (lru_run cap [] ops))) \<le> max 1 cap"
    by (rule lru_run_length) simp
  moreover have "length (l1_view c) = length (l1_list c)" for c by (simp add: l1_view_def)
  ultimately show ?thesis using run by (metis l1_new_refines(2,3) l1_size_view)
qed

text \<open>
  Further result.  Least-recently-used order: the list of a run is, from front to back, in the order
  of the latest touches (a \<open>Set\<close>, or a \<open>Get\<close> that returned an entry), so the back element, which
  \<open>evictLRUUnsafe\<close> removes, is the cached key whose last touch is oldest.
\<close>

theorem l1_run_recency:
  "subseq (map le_key (l1_view (fst (l1_run (l1_new cap) ops))))
     (recency (touches ops (snd (l1_run (l1_new cap) ops))))"
  using l1_run_from [OF l1_new_refines(1), of cap ops]
    lru_run_recency [of "[]" "[]" cap ops]
  by (simp add: l1_new_refines recency_def)

text \<open>
  Further result.  A \<open>Get\<close> of a key that was just stored returns the stored bytes with the deadline
  \<open>now + ttl\<close>, source \<open>"l1"\<close>, up to and including the deadline, and a miss after it; this holds
  after every run, also when the \<open>Set\<close> evicted another key.
\<close>

theorem l1_get_after_set:
  "snd (l1_get later (l1_set now (fst (l1_run (l1_new cap) ops)) k v ttl) k) =
    (if later > now + ttl then None
     else Some \<lparr>ce_value = v, ce_cached_at = now + ttl - hour, ce_expires_at = now + ttl,
                ce_source = ''l1''\<rparr>)"
  using l1.read_own_write [of "fst (l1_run (l1_new cap) ops)" later now k v ttl]
    l1_run_from [OF l1_new_refines(1), of cap ops]
  by (simp add: time_after_def time_add_def)

text \<open>
  Further result.  \<open>Get\<close> is not atomic: when it has found an expired entry and another goroutine
  stores a fresh value for the same key before the write lock is taken, \<open>Get\<close> deletes the fresh
  value, although it had not expired.
\<close>

theorem l1_get_race:
  assumes "l1_inv c" and "l1_content c k = Some (old, deadline)" and "now > deadline"
    and "0 \<le> ttl" and "s = l1_get_step now (l1_get_step now (c, GetStart k))"
    and "fresh = l1_set now2 (fst s) k v ttl"
  shows "snd (l1_get now2 fresh k) \<noteq> None \<and>
    l1_content (fst (l1_get_step now (fresh, snd s))) k = None"
proof -
  obtain p e where p: "map_of (l1_map c) k = Some p" "l1_heap c p = Some e"
    and e: "le_expires e = deadline"
    using assms(1,2) by (auto simp: l1_content_def l1_find_view split: option.splits)
  then have s: "s = (c, GetExpired k)"
    using assms(3,5) by (simp add: time_after_def)
  have inv: "l1_inv fresh" using assms(1,6) s by (simp add: l1_set_refines)
  have "snd (l1_get now2 fresh k) \<noteq> None"
    using assms(1,4,6) s by (simp add: l1.read_own_write time_after_def time_add_def)
  moreover have "l1_content (fst (l1_delete_unsafe fresh k)) k = None"
    using l1.delete_content [OF inv, of k] by (simp add: l1_delete_def)
  ultimately show ?thesis by (simp add: s)
qed

theorem l1_get_race_witness:
  "let c = l1_set 0 (l1_new 8) ''k'' ''1'' 5;
       s = l1_get_step 9 (l1_get_step 9 (c, GetStart ''k''));
       fresh = l1_set 10 (fst s) ''k'' ''2'' 5
   in snd (l1_get 10 fresh ''k'') \<noteq> None \<and>
      l1_content (fst (l1_get_step 9 (fresh, snd s))) ''k'' = None"
  unfolding Let_def
  by (rule l1_get_race [OF _ _ _ _ refl refl, where old = "''1''" and deadline = 5])
    (simp_all add: l1_set_refines l1_new_refines l1.set_same time_add_def)

end
