(* ===== verification/EvictionPolicy.thy ===== *)
theory EvictionPolicy
  imports L1Cache
begin

text \<open>
  The eviction policies of \<open>cache-manager/policies.go\<close>.  The interface \<open>EvictionPolicy\<close> has
  three implementations, here the constructors of a datatype; none of them keeps state, so
  \<open>OnAccess\<close> and \<open>OnSet\<close> return the policy they were called on.
\<close>

datatype ttl_policy = TTLPolicy
datatype lru_policy = LRUPolicy

record combined_policy =
  cp_ttl :: ttl_policy
  cp_lru :: lru_policy

datatype eviction_policy =
    PolTTL ttl_policy
  | PolLRU lru_policy
  | PolCombined combined_policy

definition ttl_should_evict :: "ttl_policy \<Rightarrow> cache_entry \<Rightarrow> time \<Rightarrow> bool" where
  "ttl_should_evict p entry now = time_after now (ce_expires_at entry)"

definition ttl_on_access :: "ttl_policy \<Rightarrow> string \<Rightarrow> ttl_policy" where
  "ttl_on_access p key = p"

definition ttl_on_set :: "ttl_policy \<Rightarrow> string \<Rightarrow> json \<Rightarrow> duration \<Rightarrow> ttl_policy" where
  "ttl_on_set p key v ttl = p"

definition lru_should_evict :: "lru_policy \<Rightarrow> cache_entry \<Rightarrow> time \<Rightarrow> bool" where
  "lru_should_evict p entry now = False"

definition lru_on_access :: "lru_policy \<Rightarrow> string \<Rightarrow> lru_policy" where
  "lru_on_access p key = p"

definition lru_on_set :: "lru_policy \<Rightarrow> string \<Rightarrow> json \<Rightarrow> duration \<Rightarrow> lru_policy" where
  "lru_on_set p key v ttl = p"

definition new_combined_policy :: combined_policy where
  "new_combined_policy = \<lparr>cp_ttl = TTLPolicy, cp_lru = LRUPolicy\<rparr>"

definition combined_should_evict :: "combined_policy \<Rightarrow> cache_entry \<Rightarrow> time \<Rightarrow> bool" where
  "combined_should_evict p entry now = ttl_should_evict (cp_ttl p) entry now"

definition combined_on_access :: "combined_policy \<Rightarrow> string \<Rightarrow> combined_policy" where
  "combined_on_access p key = p\<lparr>cp_lru := lru_on_access (cp_lru p) key\<rparr>"

definition combined_on_set :: "combined_policy \<Rightarrow> string \<Rightarrow> json \<Rightarrow> duration \<Rightarrow> combined_policy" where
  "combined_on_set p key v ttl =
     p\<lparr>cp_ttl := ttl_on_set (cp_ttl p) key v ttl, cp_lru := lru_on_set (cp_lru p) key v ttl\<rparr>"

text \<open>Interface dispatch.\<close>

fun should_evict :: "eviction_policy \<Rightarrow> cache_entry \<Rightarrow> time \<Rightarrow> bool" where
  "should_evict (PolTTL p) entry now = ttl_should_evict p entry now"
| "should_evict (PolLRU p) entry now = lru_should_evict p entry now"
| "should_evict (PolCombined p) entry now = combined_should_evict p entry now"

fun on_access :: "eviction_policy \<Rightarrow> string \<Rightarrow> eviction_policy" where
  "on_access (PolTTL p) key = PolTTL (ttl_on_access p key)"
| "on_access (PolLRU p) key = PolLRU (lru_on_access p key)"
| "on_access (PolCombined p) key = PolCombined (combined_on_access p key)"

fun on_set :: "eviction_policy \<Rightarrow> string \<Rightarrow> json \<Rightarrow> duration \<Rightarrow> eviction_policy" where
  "on_set (PolTTL p) key v ttl = PolTTL (ttl_on_set p key v ttl)"
| "on_set (PolLRU p) key v ttl = PolLRU (lru_on_set p key v ttl)"
| "on_set (PolCombined p) key v ttl = PolCombined (combined_on_set p key v ttl)"

record policy_engine =
  pe_policy :: eviction_policy

definition new_policy_engine :: "eviction_policy \<Rightarrow> policy_engine" where
  "new_policy_engine p = \<lparr>pe_policy = p\<rparr>"

definition default_policy_engine :: policy_engine where
  "default_policy_engine = \<lparr>pe_policy = PolCombined new_combined_policy\<rparr>"

definition engine_should_evict :: "time \<Rightarrow> policy_engine \<Rightarrow> cache_entry \<Rightarrow> bool" where
  "engine_should_evict now e entry = should_evict (pe_policy e) entry now"

definition record_access :: "policy_engine \<Rightarrow> string \<Rightarrow> policy_engine" where
  "record_access e key = e\<lparr>pe_policy := on_access (pe_policy e) key\<rparr>"

definition record_set :: "policy_engine \<Rightarrow> string \<Rightarrow> json \<Rightarrow> duration \<Rightarrow> policy_engine" where
  "record_set e key v ttl = e\<lparr>pe_policy := on_set (pe_policy e) key v ttl\<rparr>"

lemma on_access_id [simp]: "on_access p key = p"
  by (cases p) (simp_all add: ttl_on_access_def lru_on_access_def combined_on_access_def)

lemma on_set_id [simp]: "on_set p key v ttl = p"
  by (cases p) (simp_all add: ttl_on_set_def lru_on_set_def combined_on_set_def)

fun engine_events :: "policy_engine \<Rightarrow> (string \<times> (json \<times> duration) option) list \<Rightarrow> policy_engine" where
  "engine_events e [] = e"
| "engine_events e ((k, None) # evs) = engine_events (record_access e k) evs"
| "engine_events e ((k, Some (v, ttl)) # evs) = engine_events (record_set e k v ttl) evs"

lemma engine_events_id [simp]: "engine_events e evs = e"
  by (induction e evs rule: engine_events.induct) (simp_all add: record_access_def record_set_def)

section \<open>Properties\<close>

text \<open>
  Further result.  The default policy engine agrees with the cache: after any sequence of access and
  set notifications, it asks for the eviction of an entry that \<open>Get\<close> returned at a moment exactly
  when a later \<open>Get\<close> of the same key, with nothing in between, reports a miss.
\<close>

theorem default_engine_agrees_with_cache:
  assumes "l1_inv c" and "snd (l1_get now c k) = Some entry"
  shows "engine_should_evict later (engine_events default_policy_engine evs) entry \<longleftrightarrow>
    snd (l1_get later (fst (l1_get now c k)) k) = None"
proof -
  obtain v t where c: "l1_content c k = Some (v, t)" and "\<not> time_after now t"
    and entry: "ce_expires_at entry = t"
    using assms by (auto simp: l1.get_result split: option.splits if_splits)
  then have "l1_content (fst (l1_get now c k)) k = Some (v, t)"
    using assms(1) by (simp add: l1.get_content)
  then show ?thesis
    using assms(1) entry
    by (simp add: l1.get_result l1.get_invar engine_should_evict_def default_policy_engine_def
        combined_should_evict_def ttl_should_evict_def)
qed

theorem default_engine_agrees_with_cache_witness:
  "let c = l1_set 0 (l1_new 4) ''k'' ''7'' 10 in
   engine_should_evict 11 (engine_events default_policy_engine [(''k'', None)])
     (the (snd (l1_get 1 c ''k''))) \<longleftrightarrow>
   snd (l1_get 11 (fst (l1_get 1 c ''k'')) ''k'') = None"
  unfolding Let_def
  by (rule default_engine_agrees_with_cache)
    (simp_all add: l1_set_refines l1_new_refines l1.read_own_write time_after_def time_add_def)

end
