(* ===== verification/Coalescer.thy ===== *)
theory Coalescer
  imports Prelude
begin

text \<open>
  Request coalescing, \<open>cache-manager/singleflight.go\<close>, as a transition system.  Goroutines
  call \<open>Do\<close> for a key; a rule is one atomic section of \<open>Do\<close> (each critical section of the mutex,
  the call of \<open>fn\<close>, \<open>wg.Done\<close>, the return of \<open>wg.Wait\<close>), or one of the operations \<open>Forget\<close> and
  \<open>Clear\<close>.  Calls are heap objects: a waiter keeps a pointer to the call it joined.
\<close>

section \<open>State\<close>

datatype 'r do_pc =
    DoIdle
  | DoWaiting string nat        \<comment> \<open>found an in-flight call, in \<open>call.wg.Wait()\<close>\<close>
  | DoLeading string nat        \<comment> \<open>registered the call, running \<open>fn\<close>\<close>
  | DoRan string nat            \<comment> \<open>\<open>fn\<close> returned, the call is still registered\<close>
  | DoUnlinked string nat       \<comment> \<open>deleted the key, before \<open>wg.Done\<close>\<close>
  | DoReturned string nat 'r

record 'r coalescer =
  co_calls :: "(string \<times> nat) list"      \<comment> \<open>\<open>calls\<close>\<close>
  co_result :: "nat \<Rightarrow> 'r option"         \<comment> \<open>\<open>call.val\<close> and \<open>call.err\<close>\<close>
  co_done :: "nat \<Rightarrow> bool"                \<comment> \<open>the wait group of the call is at zero\<close>
  co_next :: nat
  co_pc :: "nat \<Rightarrow> 'r do_pc"

definition new_coalescer :: "'r coalescer" where
  "new_coalescer = \<lparr>co_calls = [], co_result = (\<lambda>_. None), co_done = (\<lambda>_. False), co_next = 0,
     co_pc = (\<lambda>_. DoIdle)\<rparr>"

section \<open>Steps\<close>

datatype co_label = LDo | LForget | LClear

definition co_forget :: "string \<Rightarrow> 'r coalescer \<Rightarrow> 'r coalescer" where
  "co_forget k s = s\<lparr>co_calls := AList.delete k (co_calls s)\<rparr>"

definition co_clear :: "'r coalescer \<Rightarrow> 'r coalescer" where
  "co_clear s = s\<lparr>co_calls := []\<rparr>"

definition co_in_flight :: "'r coalescer \<Rightarrow> int" where
  "co_in_flight s = int (length (co_calls s))"

inductive co_step :: "'r coalescer \<Rightarrow> co_label \<Rightarrow> 'r coalescer \<Rightarrow> bool" where
  join: "co_pc s t = DoIdle \<Longrightarrow> map_of (co_calls s) k = Some c \<Longrightarrow>
    co_step s LDo (s\<lparr>co_pc := (co_pc s)(t := DoWaiting k c)\<rparr>)"
| lead: "co_pc s t = DoIdle \<Longrightarrow> map_of (co_calls s) k = None \<Longrightarrow> c = co_next s \<Longrightarrow>
    co_step s LDo (s\<lparr>co_calls := AList.update k c (co_calls s), co_next := Suc c,
      co_pc := (co_pc s)(t := DoLeading k c)\<rparr>)"
| run_fn: "co_pc s t = DoLeading k c \<Longrightarrow>
    co_step s LDo (s\<lparr>co_result := (co_result s)(c \<mapsto> r), co_pc := (co_pc s)(t := DoRan k c)\<rparr>)"
| unlink: "co_pc s t = DoRan k c \<Longrightarrow>
    co_step s LDo (s\<lparr>co_calls := AList.delete k (co_calls s),
      co_pc := (co_pc s)(t := DoUnlinked k c)\<rparr>)"
| release: "co_pc s t = DoUnlinked k c \<Longrightarrow> co_result s c = Some r \<Longrightarrow>
    co_step s LDo (s\<lparr>co_done := (co_done s)(c := True),
      co_pc := (co_pc s)(t := DoReturned k c r)\<rparr>)"
| wake: "co_pc s t = DoWaiting k c \<Longrightarrow> co_done s c \<Longrightarrow> co_result s c = Some r \<Longrightarrow>
    co_step s LDo (s\<lparr>co_pc := (co_pc s)(t := DoReturned k c r)\<rparr>)"
| forget: "co_step s LForget (co_forget k s)"
| clear: "co_step s LClear (co_clear s)"

inductive co_reach :: "'r coalescer \<Rightarrow> bool" where
  co_start: "co_reach new_coalescer"
| co_next_step: "co_reach s \<Longrightarrow> co_step s l s' \<Longrightarrow> co_reach s'"

text \<open>Runs in which nobody calls \<open>Forget\<close> or \<open>Clear\<close>, as in the cache manager.\<close>

inductive co_reach_do :: "'r coalescer \<Rightarrow> bool" where
  co_do_start: "co_reach_do new_coalescer"
| co_do_step: "co_reach_do s \<Longrightarrow> co_step s LDo s' \<Longrightarrow> co_reach_do s'"

inductive_cases co_step_doE: "co_step s LDo s'"

section \<open>Invariants\<close>

fun leads :: "'r do_pc \<Rightarrow> nat \<Rightarrow> bool" where
  "leads (DoLeading k c) d \<longleftrightarrow> c = d"
| "leads (DoRan k c) d \<longleftrightarrow> c = d"
| "leads (DoUnlinked k c) d \<longleftrightarrow> c = d"
| "leads _ d \<longleftrightarrow> False"

fun executing :: "'r do_pc \<Rightarrow> string \<Rightarrow> bool" where
  "executing (DoLeading k c) j \<longleftrightarrow> k = j"
| "executing (DoRan k c) j \<longleftrightarrow> k = j"
| "executing _ j \<longleftrightarrow> False"

fun pc_call :: "'r do_pc \<Rightarrow> nat option" where
  "pc_call DoIdle = None"
| "pc_call (DoWaiting k c) = Some c"
| "pc_call (DoLeading k c) = Some c"
| "pc_call (DoRan k c) = Some c"
| "pc_call (DoUnlinked k c) = Some c"
| "pc_call (DoReturned k c r) = Some c"

text \<open>What holds in every reachable state, also when keys are forgotten.\<close>

definition co_inv :: "'r coalescer \<Rightarrow> bool" where
  "co_inv s \<longleftrightarrow>
     (\<forall>t c. pc_call (co_pc s t) = Some c \<longrightarrow> c < co_next s) \<and>
     (\<forall>k c. map_of (co_calls s) k = Some c \<longrightarrow> c < co_next s) \<and>
     (\<forall>t u c. leads (co_pc s t) c \<longrightarrow> leads (co_pc s u) c \<longrightarrow> t = u) \<and>
     (\<forall>c. c < co_next s \<longrightarrow> co_done s c \<or> (\<exists>t. leads (co_pc s t) c)) \<and>
     (\<forall>t c. leads (co_pc s t) c \<longrightarrow> \<not> co_done s c) \<and>
     (\<forall>t k c. co_pc s t = DoRan k c \<or> co_pc s t = DoUnlinked k c \<longrightarrow> co_result s c \<noteq> None) \<and>
     (\<forall>c. co_done s c \<longrightarrow> co_result s c \<noteq> None \<and> c < co_next s) \<and>
     (\<forall>t k c r. co_pc s t = DoReturned k c r \<longrightarrow> co_done s c \<and> co_result s c = Some r)"

lemma co_invI:
  assumes "\<And>t c. pc_call (co_pc s t) = Some c \<Longrightarrow> c < co_next s"
    and "\<And>k c. map_of (co_calls s) k = Some c \<Longrightarrow> c < co_next s"
    and "\<And>t u c. leads (co_pc s t) c \<Longrightarrow> leads (co_pc s u) c \<Longrightarrow> t = u"
    and "\<And>c. c < co_next s \<Longrightarrow> \<not> co_done s c \<Longrightarrow> \<exists>t. leads (co_pc s t) c"
    and "\<And>t c. leads (co_pc s t) c \<Longrightarrow> \<not> co_done s c"
    and "\<And>t k c. co_pc s t = DoRan k c \<or> co_pc s t = DoUnlinked k c \<Longrightarrow> co_result s c \<noteq> None"
    and "\<And>c. co_done s c \<Longrightarrow> co_result s c \<noteq> None \<and> c < co_next s"
    and "\<And>t k c r. co_pc s t = DoReturned k c r \<Longrightarrow> co_done s c \<and> co_result s c = Some r"
  shows "co_inv s"
  unfolding co_inv_def
proof (intro conjI allI impI, goal_cases)
  case (4 c)
  then show ?case using assms(4) by blast
qed (use assms in \<open>simp_all\<close>)

lemma co_invD:
  assumes "co_inv s"
  shows "pc_call (co_pc s t) = Some c \<Longrightarrow> c < co_next s"
    and "map_of (co_calls s) k = Some c \<Longrightarrow> c < co_next s"
    and "leads (co_pc s t) c \<Longrightarrow> leads (co_pc s u) c \<Longrightarrow> t = u"
    and "c < co_next s \<Longrightarrow> \<not> co_done s c \<Longrightarrow> \<exists>t. leads (co_pc s t) c"
    and "leads (co_pc s t) c \<Longrightarrow> \<not> co_done s c"
    and "co_pc s t = DoRan k c \<or> co_pc s t = DoUnlinked k c \<Longrightarrow> co_result s c \<noteq> None"
    and "co_done s c \<Longrightarrow> co_result s c \<noteq> None \<and> c < co_next s"
    and "co_pc s t = DoReturned k c r \<Longrightarrow> co_done s c \<and> co_result s c = Some r"
  using assms unfolding co_inv_def by blast+

lemma leads_pc_call: "leads p c \<Longrightarrow> pc_call p = Some c"
  by (cases p) auto

text \<open>
  The frame of a step: goroutine \<open>t\<close> moves, the calls table may shrink or gain the new call, and
  every other goroutine stays where it is.
\<close>

lemma co_inv_move:
  assumes inv: "co_inv s"
    and s': "s' = s\<lparr>co_calls := m, co_pc := (co_pc s)(t := p')\<rparr>"
    and m: "\<And>k c. map_of m k = Some c \<Longrightarrow> map_of (co_calls s) k = Some c"
    and same: "\<And>c. leads p' c \<longleftrightarrow> leads (co_pc s t) c"
    and call: "\<And>c. pc_call p' = Some c \<Longrightarrow> c < co_next s"
    and ran: "\<And>k c. p' = DoRan k c \<or> p' = DoUnlinked k c \<Longrightarrow> co_result s c \<noteq> None"
    and ret: "\<And>k c r. p' = DoReturned k c r \<Longrightarrow> co_done s c \<and> co_result s c = Some r"
  shows "co_inv s'"
proof -
  have leads: "leads (co_pc s' u) c \<longleftrightarrow> leads (co_pc s u) c" for u c
    by (simp add: s' same)
  show ?thesis
  proof (rule co_invI)
    show "c < co_next s'" if "pc_call (co_pc s' u) = Some c" for u c
      using that call co_invD(1) [OF inv] by (auto simp: s' split: if_splits)
    show "c < co_next s'" if "map_of (co_calls s') k = Some c" for k c
      using that m co_invD(2) [OF inv] by (auto simp: s')
    show "u = v" if "leads (co_pc s' u) c" "leads (co_pc s' v) c" for u v c
      using that co_invD(3) [OF inv] unfolding leads by blast
    show "\<exists>u. leads (co_pc s' u) c" if "c < co_next s'" "\<not> co_done s' c" for c
      using that co_invD(4) [OF inv] unfolding leads by (simp add: s')
    show "\<not> co_done s' c" if "leads (co_pc s' u) c" for u c
      using that co_invD(5) [OF inv] unfolding leads by (simp add: s')
    show "co_result s' c \<noteq> None" if "co_pc s' u = DoRan k c \<or> co_pc s' u = DoUnlinked k c" for u k c
      using that ran co_invD(6) [OF inv] by (auto simp: s' split: if_splits)
    show "co_result s' c \<noteq> None \<and> c < co_next s'" if "co_done s' c" for c
      using that co_invD(7) [OF inv] by (simp add: s')
    show "co_done s' c \<and> co_result s' c = Some r" if "co_pc s' u = DoReturned k c r" for u k c r
      using that ret co_invD(8) [OF inv] by (auto simp: s' split: if_splits)
  qed
qed

lemma co_inv_shrink:
  assumes "co_inv s" "\<And>k c. map_of m k = Some c \<Longrightarrow> map_of (co_calls s) k = Some c"
  shows "co_inv (s\<lparr>co_calls := m\<rparr>)"
  using assms unfolding co_inv_def by simp blast

lemma co_inv_new: "co_inv new_coalescer"
  unfolding new_coalescer_def by (rule co_invI) auto

lemma co_inv_lead:
  assumes inv: "co_inv s" and pc: "co_pc s t = DoIdle"
  shows "co_inv (s\<lparr>co_calls := AList.update k (co_next s) (co_calls s),
      co_next := Suc (co_next s), co_pc := (co_pc s)(t := DoLeading k (co_next s))\<rparr>)"
    (is "co_inv ?s")
proof -
  have old: "c < co_next s" if "leads (co_pc s u) c" for u c
    using that leads_pc_call co_invD(1) [OF inv] by blast
  have undone: "\<not> co_done s (co_next s)" using co_invD(7) [OF inv] by blast
  show ?thesis
  proof (rule co_invI)
    show "c < co_next ?s" if "pc_call (co_pc ?s u) = Some c" for u c
      using that co_invD(1) [OF inv, of u c] by (auto split: if_splits)
    show "c < co_next ?s" if "map_of (co_calls ?s) j = Some c" for j c
      using that co_invD(2) [OF inv, of j c] by (auto simp: al_simps split: if_splits)
    show "u = v" if "leads (co_pc ?s u) c" "leads (co_pc ?s v) c" for u v c
      using that co_invD(3) [OF inv, of u c v] old [of u c] old [of v c] by (auto split: if_splits)
    show "\<exists>u. leads (co_pc ?s u) c" if c: "c < co_next ?s" "\<not> co_done ?s c" for c
    proof (cases "c = co_next s")
      case True
      then have "leads (co_pc ?s t) c" by simp
      then show ?thesis by blast
    next
      case False
      with c obtain u where "leads (co_pc s u) c" using co_invD(4) [OF inv, of c] by auto
      with pc have "leads (co_pc ?s u) c" by auto
      then show ?thesis by blast
    qed
    show "\<not> co_done ?s c" if "leads (co_pc ?s u) c" for u c
      using that undone co_invD(5) [OF inv, of u c] by (auto split: if_splits)
    show "co_result ?s c \<noteq> None" if "co_pc ?s u = DoRan j c \<or> co_pc ?s u = DoUnlinked j c" for u j c
      using that co_invD(6) [OF inv, of u j c] by (auto split: if_splits)
    show "co_result ?s c \<noteq> None \<and> c < co_next ?s" if "co_done ?s c" for c
      using that co_invD(7) [OF inv, of c] by simp
    show "co_done ?s c \<and> co_result ?s c = Some r" if "co_pc ?s u = DoReturned j c r" for u j c r
      using that co_invD(8) [OF inv, of u j c r] by (auto split: if_splits)
  qed
qed

lemma co_inv_result:
  assumes inv: "co_inv s" and c: "\<not> co_done s c"
  shows "co_inv (s\<lparr>co_result := (co_result s)(c \<mapsto> r)\<rparr>)"
  using inv c unfolding co_inv_def by (simp split: if_splits) blast

lemma co_inv_release:
  assumes inv: "co_inv s" and pc: "co_pc s t = DoUnlinked k c" and res: "co_result s c = Some r"
  shows "co_inv (s\<lparr>co_done := (co_done s)(c := True), co_pc := (co_pc s)(t := DoReturned k c r)\<rparr>)"
    (is "co_inv ?s")
proof -
  have ld: "leads (co_pc s t) c" using pc by simp
  have bound: "c < co_next s" using pc co_invD(1) [OF inv, of t c] by simp
  have only: "u = t" if "leads (co_pc s u) c" for u
    using that ld co_invD(3) [OF inv] by blast
  have lead': "leads (co_pc ?s u) d \<longleftrightarrow> leads (co_pc s u) d \<and> d \<noteq> c" for u d
    using pc only by auto
  show ?thesis
  proof (rule co_invI)
    show "d < co_next ?s" if "pc_call (co_pc ?s u) = Some d" for u d
      using that bound co_invD(1) [OF inv, of u d] by (auto split: if_splits)
    show "d < co_next ?s" if "map_of (co_calls ?s) j = Some d" for j d
      using that co_invD(2) [OF inv, of j d] by simp
    show "u = v" if "leads (co_pc ?s u) d" "leads (co_pc ?s v) d" for u v d
      using that co_invD(3) [OF inv, of u d v] unfolding lead' by blast
    show "\<exists>u. leads (co_pc ?s u) d" if "d < co_next ?s" "\<not> co_done ?s d" for d
      using that co_invD(4) [OF inv, of d] unfolding lead' by (auto split: if_splits)
    show "\<not> co_done ?s d" if "leads (co_pc ?s u) d" for u d
      using that co_invD(5) [OF inv, of u d] unfolding lead' by simp
    show "co_result ?s d \<noteq> None" if "co_pc ?s u = DoRan j d \<or> co_pc ?s u = DoUnlinked j d" for u j d
      using that co_invD(6) [OF inv, of u j d] by (auto split: if_splits)
    show "co_result ?s d \<noteq> None \<and> d < co_next ?s" if "co_done ?s d" for d
      using that bound res co_invD(7) [OF inv, of d] by (auto split: if_splits)
    show "co_done ?s d \<and> co_result ?s d = Some q" if "co_pc ?s u = DoReturned j d q" for u j d q
      using that res co_invD(8) [OF inv, of u j d q] by (auto split: if_splits)
  qed
qed

lemma co_inv_step: "co_step s l s' \<Longrightarrow> co_inv s \<Longrightarrow> co_inv s'"
proof (induction rule: co_step.induct)
  case (join s t k c)
  then show ?case
    by (intro co_inv_move [OF join.prems, where m = "co_calls s" and t = t])
      (auto dest: co_invD(2))
next
  case (lead s t k c)
  then show ?case using co_inv_lead by simp
next
  case (run_fn s t k c r)
  let ?r = "s\<lparr>co_result := (co_result s)(c \<mapsto> r)\<rparr>"
  have "\<not> co_done s c" using run_fn co_invD(5) [of s t c] by simp
  then have inv: "co_inv ?r" using run_fn.prems by (simp add: co_inv_result)
  have "c < co_next s" using run_fn co_invD(1) [of s t c] by simp
  with run_fn.hyps show ?case
    by (intro co_inv_move [OF inv, where m = "co_calls s" and t = t]) auto
next
  case (unlink s t k c)
  have "c < co_next s" "co_result s c \<noteq> None"
    using unlink co_invD(1) [of s t c] co_invD(6) [of s t k c] by auto
  with unlink show ?case
    by (intro co_inv_move [OF unlink.prems, where m = "AList.delete k (co_calls s)" and t = t])
      (auto simp: al_simps split: if_splits)
next
  case (release s t k c r)
  then show ?case by (intro co_inv_release)
next
  case (wake s t k c r)
  have "c < co_next s" using wake co_invD(1) [of s t c] by simp
  with wake show ?case
    by (intro co_inv_move [OF wake.prems, where m = "co_calls s" and t = t]) auto
next
  case (forget s k)
  then show ?case
    unfolding co_forget_def
    by (intro co_inv_shrink) (auto simp: al_delete_map_of split: if_splits)
next
  case (clear s)
  then show ?case unfolding co_clear_def by (intro co_inv_shrink) auto
qed

lemma co_reach_inv: "co_reach s \<Longrightarrow> co_inv s"
  by (induction rule: co_reach.induct) (auto intro: co_inv_new co_inv_step)

text \<open>Without \<open>Forget\<close> and \<open>Clear\<close> an executing goroutine's call stays registered.\<close>

definition co_registered :: "'r coalescer \<Rightarrow> bool" where
  "co_registered s \<longleftrightarrow> (\<forall>t k c. co_pc s t = DoLeading k c \<or> co_pc s t = DoRan k c \<longrightarrow>
     map_of (co_calls s) k = Some c)"

lemma co_registered_step:
  assumes "co_step s LDo s'" "co_inv s" "co_registered s"
  shows "co_registered s'"
  using assms(1)
proof (cases rule: co_step.cases)
  case (lead t k c)
  then show ?thesis using assms(3) by (fastforce simp: co_registered_def al_simps)
next
  case (unlink t k c)
  have ld: "leads (co_pc s t) c" using unlink by simp
  have "map_of (co_calls s) k = Some c" using unlink assms(3) by (auto simp: co_registered_def)
  moreover have "u = t" if "leads (co_pc s u) c" for u
    using that ld co_invD(3) [OF assms(2)] by blast
  ultimately show ?thesis
    using unlink assms(3) unfolding co_registered_def
    by (simp add: al_simps) (metis leads.simps(1,2) option.inject)
qed (use assms(3) in \<open>auto simp: co_registered_def split: if_splits\<close>)

lemma co_reach_do_inv: "co_reach_do s \<Longrightarrow> co_inv s \<and> co_registered s"
proof (induction rule: co_reach_do.induct)
  case co_do_start
  show ?case by (simp add: co_inv_new) (simp add: co_registered_def new_coalescer_def)
next
  case (co_do_step s s')
  then show ?case by (blast intro: co_inv_step co_registered_step)
qed

lemma executing_leads: "executing p k \<Longrightarrow> \<exists>c. leads p c \<and> (p = DoLeading k c \<or> p = DoRan k c)"
  by (cases p) auto

section \<open>Runs of several steps\<close>

abbreviation do_steps :: "'r coalescer \<Rightarrow> 'r coalescer \<Rightarrow> bool" where
  "do_steps \<equiv> (\<lambda>a b. co_step a LDo b)\<^sup>*\<^sup>*"

lemma do_steps_reach: "do_steps s s' \<Longrightarrow> co_reach s \<Longrightarrow> co_reach s'"
  by (induction rule: rtranclp_induct) (auto intro: co_next_step)

lemma do_reach_reach: "co_reach_do s \<Longrightarrow> co_reach s"
  by (induction rule: co_reach_do.induct) (auto intro: co_start co_next_step)

lemmas one_step = r_into_rtranclp [where r = "\<lambda>a b. co_step a LDo b"]
lemmas then_step = rtranclp.rtrancl_into_rtrancl [where r = "\<lambda>a b. co_step a LDo b"]
lemmas first_step = converse_rtranclp_into_rtranclp [where r = "\<lambda>a b. co_step a LDo b"]

text \<open>The leader of a call can always finish it, and nobody else moves meanwhile.\<close>

lemma leader_finishes:
  assumes "co_inv s" "leads (co_pc s t) c"
  shows "\<exists>s' r. do_steps s s' \<and> co_done s' c \<and> co_result s' c = Some r \<and>
    (\<forall>u. u \<noteq> t \<longrightarrow> co_pc s' u = co_pc s u)"
proof -
  have fin: "\<exists>s'. do_steps s s' \<and> co_done s' c \<and> co_result s' c = Some r \<and>
      (\<forall>u. u \<noteq> t \<longrightarrow> co_pc s' u = co_pc s u)"
    if "co_pc s t = DoUnlinked k c" "co_result s c = Some r" for s :: "'a coalescer" and k r
  proof -
    define s1 where "s1 = s\<lparr>co_done := (co_done s)(c := True),
        co_pc := (co_pc s)(t := DoReturned k c r)\<rparr>"
    have "do_steps s s1" unfolding s1_def by (rule one_step [OF co_step.release [OF that]])
    then show ?thesis by (intro exI [of _ s1]) (simp add: s1_def that(2))
  qed
  have ran: "\<exists>s'. do_steps s s' \<and> co_done s' c \<and> co_result s' c = Some r \<and>
      (\<forall>u. u \<noteq> t \<longrightarrow> co_pc s' u = co_pc s u)"
    if "co_pc s t = DoRan k c" "co_result s c = Some r" for s :: "'a coalescer" and k r
  proof -
    define s1 where
      "s1 = s\<lparr>co_calls := AList.delete k (co_calls s), co_pc := (co_pc s)(t := DoUnlinked k c)\<rparr>"
    have pc: "co_pc s1 t = DoUnlinked k c" "co_result s1 c = Some r"
      "\<forall>u. u \<noteq> t \<longrightarrow> co_pc s1 u = co_pc s u" by (simp_all add: s1_def that)
    have "co_step s LDo s1" unfolding s1_def using that(1) by (rule co_step.unlink)
    with fin [OF pc(1,2)] pc(3) show ?thesis by (metis first_step)
  qed
  have leading: "\<exists>s' r. do_steps s s' \<and> co_done s' c \<and> co_result s' c = Some r \<and>
      (\<forall>u. u \<noteq> t \<longrightarrow> co_pc s' u = co_pc s u)" if "co_pc s t = DoLeading k c" for k
  proof -
    fix r
    define s1 where
      "s1 = s\<lparr>co_result := (co_result s)(c \<mapsto> r), co_pc := (co_pc s)(t := DoRan k c)\<rparr>"
    have pc: "co_pc s1 t = DoRan k c" "co_result s1 c = Some r"
      "\<forall>u. u \<noteq> t \<longrightarrow> co_pc s1 u = co_pc s u" by (simp_all add: s1_def)
    have "co_step s LDo s1" unfolding s1_def using that by (rule co_step.run_fn)
    with ran [OF pc(1,2)] pc(3) show ?thesis by (metis first_step)
  qed
  show ?thesis
  proof (cases "co_pc s t")
    case (DoLeading k d)
    with assms(2) leading show ?thesis by auto
  next
    case (DoRan k d)
    with assms obtain r where "co_result s c = Some r" using co_invD(6) [of s t k c] by auto
    with DoRan assms(2) show ?thesis using ran [of s k r] by auto
  next
    case (DoUnlinked k d)
    with assms obtain r where "co_result s c = Some r" using co_invD(6) [of s t k c] by auto
    with DoUnlinked assms(2) show ?thesis using fin [of s k r] by auto
  qed (use assms(2) in auto)
qed

text \<open>A call of \<open>Do\<close> for a key that nobody registered runs \<open>fn\<close> and returns its result.\<close>

lemma do_alone:
  assumes "co_pc s t = DoIdle" "map_of (co_calls s) k = None"
  shows "\<exists>s'. do_steps s s' \<and> co_pc s' t = DoReturned k (co_next s) r \<and>
    map_of (co_calls s') = map_of (co_calls s) \<and> (\<forall>u. u \<noteq> t \<longrightarrow> co_pc s' u = co_pc s u)"
proof -
  define c where "c = co_next s"
  define s1 where "s1 = s\<lparr>co_calls := AList.update k c (co_calls s), co_next := Suc c,
      co_pc := (co_pc s)(t := DoLeading k c)\<rparr>"
  define s2 where "s2 = s1\<lparr>co_result := (co_result s1)(c \<mapsto> r), co_pc := (co_pc s1)(t := DoRan k c)\<rparr>"
  define s3 where "s3 = s2\<lparr>co_calls := AList.delete k (co_calls s2),
      co_pc := (co_pc s2)(t := DoUnlinked k c)\<rparr>"
  define s4 where "s4 = s3\<lparr>co_done := (co_done s3)(c := True),
      co_pc := (co_pc s3)(t := DoReturned k c r)\<rparr>"
  have 1: "co_step s LDo s1" unfolding s1_def by (rule co_step.lead [OF assms c_def])
  have 2: "co_step s1 LDo s2" unfolding s2_def by (rule co_step.run_fn) (simp add: s1_def)
  have 3: "co_step s2 LDo s3" unfolding s3_def by (rule co_step.unlink) (simp add: s2_def)
  have 4: "co_step s3 LDo s4"
    unfolding s4_def by (rule co_step.release) (simp_all add: s3_def s2_def)
  have "do_steps s s4" by (rule then_step [OF then_step [OF then_step [OF one_step [OF 1] 2] 3] 4])
  moreover have "map_of (co_calls s4) = map_of (co_calls s)"
    using assms(2) by (auto simp: al_simps s4_def s3_def s2_def s1_def)
  moreover have "co_pc s4 t = DoReturned k c r" by (simp add: s4_def)
  moreover have "\<forall>u. u \<noteq> t \<longrightarrow> co_pc s4 u = co_pc s u"
    by (simp add: s4_def s3_def s2_def s1_def)
  ultimately show ?thesis unfolding c_def by blast
qed

section \<open>Properties\<close>

text \<open>
  Property C3.  Stampede protection: as long as nobody calls \<open>Forget\<close> or \<open>Clear\<close>, at most one
  goroutine at a time executes \<open>fn\<close> for a key, in every interleaving.
\<close>

theorem single_flight:
  assumes "co_reach_do s" and "executing (co_pc s t) k" and "executing (co_pc s u) k"
  shows "t = u"
proof -
  obtain c d where "leads (co_pc s t) c" "co_pc s t = DoLeading k c \<or> co_pc s t = DoRan k c"
    and "leads (co_pc s u) d" "co_pc s u = DoLeading k d \<or> co_pc s u = DoRan k d"
    using executing_leads [OF assms(2)] executing_leads [OF assms(3)] assms(2,3) by fastforce
  moreover have inv: "co_inv s" "co_registered s" using co_reach_do_inv [OF assms(1)] by auto
  ultimately have "c = d" unfolding co_registered_def by (metis option.inject)
  with \<open>leads (co_pc s t) c\<close> \<open>leads (co_pc s u) d\<close> show ?thesis
    using co_invD(3) [OF inv(1)] by blast
qed

theorem single_flight_witness:
  "\<exists>s :: nat coalescer. co_reach_do s \<and> executing (co_pc s 3) ''k'' \<and> (3::nat) = 3"
proof -
  let ?s = "new_coalescer\<lparr>co_calls := [(''k'', 0)], co_next := 1,
      co_pc := (\<lambda>_. DoIdle)(3 := DoLeading ''k'' 0)\<rparr> :: nat coalescer"
  have "co_step new_coalescer LDo ?s"
    using co_step.lead [of "new_coalescer :: nat coalescer" 3 "''k''" 0]
    by (simp add: new_coalescer_def)
  then have r: "co_reach_do ?s" by (rule co_do_step [OF co_do_start])
  moreover have e: "executing (co_pc ?s 3) ''k''" by simp
  moreover have "(3::nat) = 3" by (rule single_flight [OF r e e])
  ultimately show ?thesis by blast
qed

text \<open>
  Property C4.  Everyone who joined a call receives the leader's outcome: two goroutines that
  returned from the same call, the leader or waiters, hold the same value, and it is the result
  recorded by the one execution of \<open>fn\<close>; this holds in every interleaving, with \<open>Forget\<close> and
  \<open>Clear\<close>.
\<close>

theorem coalesced_callers_agree:
  assumes "co_reach s" and "co_pc s t = DoReturned k c r" and "co_pc s u = DoReturned k' c r'"
  shows "r = r' \<and> co_result s c = Some r"
  using co_invD(8) [OF co_reach_inv [OF assms(1)] assms(2)]
    co_invD(8) [OF co_reach_inv [OF assms(1)] assms(3)] by simp

theorem coalesced_callers_agree_witness:
  "\<exists>(s :: nat coalescer) c. co_pc s 1 = DoReturned ''k'' c 7 \<and> (7::nat) = 7 \<and> co_result s c = Some 7"
proof -
  obtain s :: "nat coalescer" where s: "do_steps new_coalescer s"
    "co_pc s 1 = DoReturned ''k'' (co_next (new_coalescer :: nat coalescer)) 7"
    using do_alone [of new_coalescer 1 "''k''" "7::nat"] by (auto simp: new_coalescer_def)
  have "co_reach s" using do_steps_reach [OF s(1) co_start] .
  from coalesced_callers_agree [OF this s(2) s(2)] s(2) show ?thesis by blast
qed

text \<open>
  Property C5.  No waiter is lost: from every reachable state in which a goroutine waits for a
  call, also when the key was forgotten or the table cleared meanwhile, a run of the call's leader
  followed by the waiter's wake-up lets it return.
\<close>

theorem waiter_can_return:
  assumes "co_reach s" and "co_pc s t = DoWaiting k c"
  shows "\<exists>s' r. do_steps s s' \<and> co_pc s' t = DoReturned k c r"
proof -
  have inv: "co_inv s" using assms(1) by (rule co_reach_inv)
  have "\<exists>s' r. do_steps s s' \<and> co_done s' c \<and> co_result s' c = Some r \<and>
      co_pc s' t = DoWaiting k c"
  proof (cases "co_done s c")
    case True
    then show ?thesis using co_invD(7) [OF inv, of c] assms(2) by blast
  next
    case False
    have "c < co_next s" using assms(2) co_invD(1) [OF inv, of t c] by simp
    then obtain u where u: "leads (co_pc s u) c" using False co_invD(4) [OF inv] by blast
    then have "t \<noteq> u" using assms(2) by auto
    with leader_finishes [OF inv u] assms(2) show ?thesis by metis
  qed
  then obtain s' r where s': "do_steps s s'" "co_pc s' t = DoWaiting k c"
    "co_done s' c" "co_result s' c = Some r" by blast
  let ?s = "s'\<lparr>co_pc := (co_pc s')(t := DoReturned k c r)\<rparr>"
  have "co_step s' LDo ?s" using s'(2-4) by (rule co_step.wake)
  then have "do_steps s ?s" using s'(1) by (rule then_step [rotated])
  then show ?thesis by (intro exI [of _ ?s] exI [of _ r]) simp
qed

text \<open>A schedule with one leader and one waiter, for the witness.\<close>

definition waiting_state :: "nat coalescer" where
  "waiting_state = \<lparr>co_calls = [(''k'', 0)], co_result = (\<lambda>_. None), co_done = (\<lambda>_. False),
     co_next = 1, co_pc = (\<lambda>_. DoIdle)(0 := DoLeading ''k'' 0, 1 := DoWaiting ''k'' 0)\<rparr>"

lemma waiting_state_reach: "co_reach waiting_state"
proof -
  let ?s1 = "\<lparr>co_calls = [(''k'', 0)], co_result = (\<lambda>_. None), co_done = (\<lambda>_. False),
     co_next = 1, co_pc = (\<lambda>_. DoIdle)(0 := DoLeading ''k'' 0)\<rparr> :: nat coalescer"
  have "co_step new_coalescer LDo ?s1"
    using co_step.lead [of "new_coalescer :: nat coalescer" 0 "''k''" 0]
    by (simp add: new_coalescer_def)
  then have "co_reach ?s1" by (rule co_next_step [OF co_start])
  moreover have "co_step ?s1 LDo waiting_state"
    using co_step.join [of ?s1 1 "''k''" 0] by (simp add: waiting_state_def)
  ultimately show ?thesis by (rule co_next_step)
qed

theorem waiter_can_return_witness:
  "\<exists>s' r. do_steps waiting_state s' \<and> co_pc s' 1 = DoReturned ''k'' 0 r"
  by (rule waiter_can_return [OF waiting_state_reach]) (simp add: waiting_state_def)

text \<open>
  Further result.  \<open>Forget\<close> breaks the guarantee beyond the forgotten call: \<open>Do\<close> unregisters by key,
  not by call, so when the forgotten leader finishes it removes the registration of the newer
  leader, and a third goroutine starts \<open>fn\<close> while the newer leader is still executing it.
\<close>

theorem forgotten_leader_unlinks_newer:
  "\<exists>s s' :: nat coalescer. co_reach s \<and> do_steps s s' \<and>
     executing (co_pc s 1) k \<and> map_of (co_calls s) k \<noteq> None \<and>
     executing (co_pc s' 1) k \<and> executing (co_pc s' 2) k \<and> \<not> executing (co_pc s' 0) k"
proof -
  define S where "S calls res n pc = \<lparr>co_calls = calls, co_result = res, co_done = (\<lambda>_. False),
     co_next = n, co_pc = pc\<rparr>" for calls res n and pc :: "nat \<Rightarrow> nat do_pc"
  let ?p0 = "(\<lambda>_. DoIdle)(0 := DoLeading k 0) :: nat \<Rightarrow> nat do_pc"
  let ?p1 = "?p0(1 := DoLeading k 1)"
  let ?p2 = "?p1(0 := DoRan k 0)"
  let ?p3 = "?p2(0 := DoUnlinked k 0)"
  let ?p4 = "?p3(2 := DoLeading k 2)"
  let ?r = "(\<lambda>_. None)(0 \<mapsto> 5) :: nat \<Rightarrow> nat option"
  have s0: "co_step new_coalescer LDo (S [(k, 0)] (\<lambda>_. None) 1 ?p0)"
    using co_step.lead [of "new_coalescer :: nat coalescer" 0 k 0]
    by (simp add: new_coalescer_def S_def)
  have s1: "co_step (S [(k, 0)] (\<lambda>_. None) 1 ?p0) LForget (S [] (\<lambda>_. None) 1 ?p0)"
    using co_step.forget [of "S [(k, 0)] (\<lambda>_. None) 1 ?p0" k] by (simp add: S_def co_forget_def)
  have s2: "co_step (S [] (\<lambda>_. None) 1 ?p0) LDo (S [(k, 1)] (\<lambda>_. None) 2 ?p1)"
    using co_step.lead [of "S [] (\<lambda>_. None) 1 ?p0" 1 k 1] by (simp add: S_def numeral_2_eq_2)
  have s3: "co_step (S [(k, 1)] (\<lambda>_. None) 2 ?p1) LDo (S [(k, 1)] ?r 2 ?p2)"
    using co_step.run_fn [of "S [(k, 1)] (\<lambda>_. None) 2 ?p1" 0 k 0 5] by (simp add: S_def)
  have s4: "co_step (S [(k, 1)] ?r 2 ?p2) LDo (S [] ?r 2 ?p3)"
    using co_step.unlink [of "S [(k, 1)] ?r 2 ?p2" 0 k 0] by (simp add: S_def)
  have s5: "co_step (S [] ?r 2 ?p3) LDo (S [(k, 2)] ?r 3 ?p4)"
    using co_step.lead [of "S [] ?r 2 ?p3" 2 k 2] by (simp add: S_def eval_nat_numeral)
  have "co_reach (S [(k, 1)] (\<lambda>_. None) 2 ?p1)"
    by (rule co_next_step [OF co_next_step [OF co_next_step [OF co_start s0] s1] s2])
  moreover have "do_steps (S [(k, 1)] (\<lambda>_. None) 2 ?p1) (S [(k, 2)] ?r 3 ?p4)"
    by (rule then_step [OF then_step [OF one_step [OF s3] s4] s5])
  ultimately show ?thesis
    by (intro exI [of _ "S [(k, 1)] (\<lambda>_. None) 2 ?p1"] exI [of _ "S [(k, 2)] ?r 3 ?p4"])
      (simp add: S_def)
qed

end
