(* ===== verification/Float64.thy ===== *)
theory Float64
  imports Complex_Main Prelude
begin

text \<open>
  IEEE 754 double precision numbers, Go's \<open>float64\<close>, as executable definitions: a finite value is
  the rational number it denotes, an operation computes the exact rational result and rounds it to
  the nearest double, ties to even.  The sign of zero is not represented, as no operation of the
  code depends on it (\<open>x / 0\<close> occurs only behind a test that the divisor is positive).
\<close>

section \<open>Rounding\<close>

fun ilog2 :: "nat \<Rightarrow> nat" where
  "ilog2 n = (if n < 2 then 0 else Suc (ilog2 (n div 2)))"

declare ilog2.simps [simp del]

definition pow2 :: "int \<Rightarrow> rat" where
  "pow2 e = (if 0 \<le> e then 2 ^ nat e else 1 / 2 ^ nat (- e))"

text \<open>The exponent of a positive number: \<open>2 ^ e \<le> x < 2 ^ (e + 1)\<close>.\<close>

definition binade :: "rat \<Rightarrow> int" where
  "binade x = (if 1 \<le> x then int (ilog2 (nat \<lfloor>x\<rfloor>))
     else - int (Suc (ilog2 (nat (\<lceil>1 / x\<rceil> - 1)))))"

definition round_half_even :: "rat \<Rightarrow> int" where
  "round_half_even q = (let f = \<lfloor>q\<rfloor>; r = q - of_int f in
     if r < 1 / 2 then f else if 1 / 2 < r then f + 1 else if even f then f else f + 1)"

text \<open>53 significant bits, gradual underflow below \<open>2 ^ -1022\<close>.\<close>

definition ulp :: "rat \<Rightarrow> rat" where
  "ulp x = pow2 (max (binade x) (- 1022) - 52)"

definition rnd_abs :: "rat \<Rightarrow> rat" where
  "rnd_abs x = of_int (round_half_even (x / ulp x)) * ulp x"

definition rnd :: "rat \<Rightarrow> rat" where
  "rnd x = (if 0 < x then rnd_abs x else if x < 0 then - rnd_abs (- x) else 0)"

datatype f64 = Fin rat | PInf | NInf | NaN

definition fl :: "rat \<Rightarrow> f64" where
  "fl x = (if pow2 1024 \<le> rnd x then PInf else if rnd x \<le> - pow2 1024 then NInf
     else Fin (rnd x))"

section \<open>Operations\<close>

fun f_add :: "f64 \<Rightarrow> f64 \<Rightarrow> f64" where
  "f_add (Fin x) (Fin y) = fl (x + y)"
| "f_add NaN _ = NaN"
| "f_add _ NaN = NaN"
| "f_add PInf NInf = NaN"
| "f_add NInf PInf = NaN"
| "f_add PInf _ = PInf"
| "f_add NInf _ = NInf"
| "f_add (Fin _) y = y"

fun f_neg :: "f64 \<Rightarrow> f64" where
  "f_neg (Fin x) = Fin (- x)"
| "f_neg PInf = NInf"
| "f_neg NInf = PInf"
| "f_neg NaN = NaN"

definition f_sub :: "f64 \<Rightarrow> f64 \<Rightarrow> f64" where
  "f_sub x y = f_add x (f_neg y)"

definition f_inf :: "rat \<Rightarrow> f64" where
  "f_inf s = (if 0 < s then PInf else if s < 0 then NInf else NaN)"

fun f_sign :: "f64 \<Rightarrow> rat" where
  "f_sign (Fin x) = sgn x"
| "f_sign PInf = 1"
| "f_sign NInf = - 1"
| "f_sign NaN = 0"

fun f_mul :: "f64 \<Rightarrow> f64 \<Rightarrow> f64" where
  "f_mul (Fin x) (Fin y) = fl (x * y)"
| "f_mul NaN _ = NaN"
| "f_mul _ NaN = NaN"
| "f_mul x y = f_inf (f_sign x * f_sign y)"

fun f_div :: "f64 \<Rightarrow> f64 \<Rightarrow> f64" where
  "f_div (Fin x) (Fin y) = (if y = 0 then f_inf (sgn x) else fl (x / y))"
| "f_div NaN _ = NaN"
| "f_div _ NaN = NaN"
| "f_div (Fin x) _ = Fin 0"
| "f_div x (Fin y) = f_inf (f_sign x * (if y < 0 then - 1 else 1))"
| "f_div _ _ = NaN"

fun f_lt :: "f64 \<Rightarrow> f64 \<Rightarrow> bool" where
  "f_lt (Fin x) (Fin y) \<longleftrightarrow> x < y"
| "f_lt NaN _ \<longleftrightarrow> False"
| "f_lt _ NaN \<longleftrightarrow> False"
| "f_lt NInf y \<longleftrightarrow> y \<noteq> NInf"
| "f_lt x PInf \<longleftrightarrow> x \<noteq> PInf"
| "f_lt _ _ \<longleftrightarrow> False"

fun f_eq :: "f64 \<Rightarrow> f64 \<Rightarrow> bool" where
  "f_eq NaN _ \<longleftrightarrow> False"
| "f_eq x y \<longleftrightarrow> x = y"

definition f_le :: "f64 \<Rightarrow> f64 \<Rightarrow> bool" where
  "f_le x y \<longleftrightarrow> f_lt x y \<or> f_eq x y"

definition f_of_int :: "int \<Rightarrow> f64" where
  "f_of_int n = fl (of_int n)"

definition rat_trunc :: "rat \<Rightarrow> int" where
  "rat_trunc x = (if 0 \<le> x then \<lfloor>x\<rfloor> else \<lceil>x\<rceil>)"

text \<open>
  Conversion to \<open>int64\<close> truncates; Go leaves values out of range to the platform, and this is the
  value of the amd64 instruction.
\<close>

fun f_to_int :: "f64 \<Rightarrow> int" where
  "f_to_int (Fin x) = (if in_i64 (rat_trunc x) then rat_trunc x else - (2 ^ 63))"
| "f_to_int _ = - (2 ^ 63)"

text \<open>A decimal constant of the source, rounded by the compiler.\<close>

definition f_const :: "rat \<Rightarrow> f64" where
  "f_const x = fl x"

section \<open>Facts about rounding\<close>

named_theorems f64_simps \<open>evaluation of doubles\<close>

lemma ilog2_bounds: "0 < n \<Longrightarrow> 2 ^ ilog2 n \<le> n \<and> n < 2 ^ Suc (ilog2 n)"
proof (induction n rule: ilog2.induct)
  case (1 n)
  show ?case
  proof (cases "n < 2")
    case True
    with "1.prems" show ?thesis by (subst (1 2) ilog2.simps) simp
  next
    case False
    with "1.IH" have "2 ^ ilog2 (n div 2) \<le> n div 2" "n div 2 < 2 ^ Suc (ilog2 (n div 2))" by auto
    then have "2 * 2 ^ ilog2 (n div 2) \<le> n" "n < 2 * 2 ^ Suc (ilog2 (n div 2))" by linarith+
    with False show ?thesis by (subst (1 2) ilog2.simps) simp
  qed
qed

lemma pow2_pos [simp]: "0 < pow2 e"
  by (simp add: pow2_def)

lemma pow2_nonneg [simp]: "0 \<le> pow2 e"
  by (simp add: pow2_def)

lemma pow2_nonzero [simp]: "pow2 e \<noteq> 0"
  using pow2_pos [of e] by linarith

lemma pow2_powi: "pow2 e = power_int 2 e"
  by (simp add: pow2_def power_int_def inverse_eq_divide power_divide)

lemma pow2_add: "pow2 (a + b) = pow2 a * pow2 b"
  by (simp add: pow2_powi power_int_add)

lemma pow2_mono: "a \<le> b \<Longrightarrow> pow2 a \<le> pow2 b"
  by (simp add: pow2_powi power_int_increasing)

lemma pow2_nat: "pow2 (int n) = 2 ^ n"
  by (simp add: pow2_def)

lemma pow2_neg: "pow2 (- int n) = 1 / 2 ^ n"
  by (cases "n = 0") (simp_all add: pow2_def)

lemma binade_bounds:
  assumes "0 < x"
  shows "pow2 (binade x) \<le> x \<and> x < pow2 (binade x + 1)"
proof (cases "1 \<le> x")
  case True
  define n where "n = nat \<lfloor>x\<rfloor>"
  have n: "0 < n" "int n = \<lfloor>x\<rfloor>" using True by (auto simp: n_def)
  have "2 ^ ilog2 n \<le> (of_nat n :: rat)" "(of_nat n :: rat) + 1 \<le> 2 ^ Suc (ilog2 n)"
    using ilog2_bounds [OF n(1)] by (metis of_nat_le_iff of_nat_power of_nat_numeral)
      (metis (no_types) Suc_leI ilog2_bounds n(1) of_nat_Suc of_nat_le_iff of_nat_power
        of_nat_numeral add.commute)
  moreover have "of_nat n \<le> x" "x < of_nat n + 1"
    using n(2) by (metis of_int_floor_le of_int_of_nat_eq) (metis floor_correct n(2) of_int_of_nat_eq of_int_add of_int_1)
  ultimately have "2 ^ ilog2 n \<le> x" "x < 2 ^ Suc (ilog2 n)" by linarith+
  moreover have "binade x = int (ilog2 n)" using True by (simp add: binade_def n_def)
  moreover have "pow2 (int (ilog2 n) + 1) = 2 ^ Suc (ilog2 n)"
    using pow2_nat [of "Suc (ilog2 n)"] by (simp add: add.commute)
  ultimately show ?thesis by (simp add: pow2_nat)
next
  case False
  define m where "m = nat (\<lceil>1 / x\<rceil> - 1)"
  have gt: "of_int 1 < 1 / x" using False assms by (simp add: field_simps)
  then have c: "1 < \<lceil>1 / x\<rceil>" unfolding less_ceiling_iff .
  then have m: "0 < m" unfolding m_def by linarith
  have m2: "int m + 1 = \<lceil>1 / x\<rceil>" using c unfolding m_def by linarith
  have "2 ^ ilog2 m \<le> (of_nat m :: rat)" "(of_nat m :: rat) + 1 \<le> 2 ^ Suc (ilog2 m)"
    using ilog2_bounds [OF m] by (metis of_nat_le_iff of_nat_power of_nat_numeral)
      (metis (no_types) Suc_leI ilog2_bounds m of_nat_Suc of_nat_le_iff of_nat_power
        of_nat_numeral add.commute)
  moreover have "of_nat m < 1 / x" "1 / x \<le> of_nat m + 1"
    using m2 by linarith+
  ultimately have b: "2 ^ ilog2 m < 1 / x" "1 / x \<le> 2 ^ Suc (ilog2 m)" by linarith+
  have "x < 1 / 2 ^ ilog2 m" "1 / 2 ^ Suc (ilog2 m) \<le> x"
    using b assms by (simp_all add: field_simps)
  moreover have "binade x = - int (Suc (ilog2 m))" using False by (simp add: binade_def m_def)
  moreover have "- int (Suc (ilog2 m)) + 1 = - int (ilog2 m)" by simp
  ultimately show ?thesis by (simp only: pow2_neg)
qed

lemma binade_mono:
  assumes "0 < x" "x \<le> y"
  shows "binade x \<le> binade y"
proof (rule ccontr)
  assume "\<not> binade x \<le> binade y"
  then have "pow2 (binade y + 1) \<le> pow2 (binade x)" by (intro pow2_mono) simp
  with assms binade_bounds [of x] binade_bounds [of y] show False by simp
qed

lemma round_half_even_int [simp]: "round_half_even (of_int n) = n"
  by (simp add: round_half_even_def)

lemma round_half_even_mono:
  assumes "x \<le> y"
  shows "round_half_even x \<le> round_half_even y"
proof (cases "\<lfloor>x\<rfloor> = \<lfloor>y\<rfloor>")
  case True
  with assms show ?thesis by (simp add: round_half_even_def Let_def)
next
  case False
  with assms have "\<lfloor>x\<rfloor> + 1 \<le> \<lfloor>y\<rfloor>" using floor_mono [OF assms] by linarith
  moreover have "round_half_even x \<le> \<lfloor>x\<rfloor> + 1" by (simp add: round_half_even_def Let_def)
  moreover have "\<lfloor>y\<rfloor> \<le> round_half_even y" by (simp add: round_half_even_def Let_def)
  ultimately show ?thesis by linarith
qed

lemma ulp_pos [simp]: "0 < ulp x"
  by (simp add: ulp_def)

lemma ulp_nonneg [simp]: "0 \<le> ulp x"
  by (rule less_imp_le) (rule ulp_pos)

lemma rnd_abs_nonneg: "0 \<le> x \<Longrightarrow> 0 \<le> rnd_abs x"
proof -
  assume "0 \<le> x"
  then have "0 \<le> x / ulp x" using ulp_pos [of x] by (intro divide_nonneg_pos) auto
  from round_half_even_mono [OF this] have "0 \<le> round_half_even (x / ulp x)"
    using round_half_even_int [of 0] by simp
  then show ?thesis unfolding rnd_abs_def using ulp_pos [of x] by (intro mult_nonneg_nonneg) auto
qed

text \<open>Multiples of the unit in the last place that bound a number bound its rounding.\<close>

lemma rnd_abs_le:
  assumes "x \<le> of_int n * ulp x"
  shows "rnd_abs x \<le> of_int n * ulp x"
proof -
  have "x / ulp x \<le> of_int n" using assms by (simp add: pos_divide_le_eq)
  from round_half_even_mono [OF this] have "round_half_even (x / ulp x) \<le> n" by simp
  then show ?thesis unfolding rnd_abs_def by (intro mult_right_mono) (auto simp: less_imp_le)
qed

lemma rnd_abs_ge:
  assumes "of_int n * ulp x \<le> x"
  shows "of_int n * ulp x \<le> rnd_abs x"
proof -
  have "of_int n \<le> x / ulp x" using assms by (simp add: pos_le_divide_eq)
  from round_half_even_mono [OF this] have "n \<le> round_half_even (x / ulp x)" by simp
  then show ?thesis unfolding rnd_abs_def by (intro mult_right_mono) (auto simp: less_imp_le)
qed

lemma pow2_ulp:
  assumes "max (binade x) (- 1022) - 52 \<le> e"
  shows "\<exists>n. pow2 e = of_int n * ulp x"
proof -
  define d where "d = e - (max (binade x) (- 1022) - 52)"
  have d: "0 \<le> d" using assms by (simp add: d_def)
  have "pow2 e = pow2 d * ulp x"
    unfolding ulp_def by (simp add: d_def flip: pow2_add)
  moreover have "pow2 d = of_int (2 ^ nat d)" using d by (simp add: pow2_def)
  ultimately show ?thesis by metis
qed

lemma rnd_abs_mono:
  assumes "0 < x" "x \<le> y"
  shows "rnd_abs x \<le> rnd_abs y"
proof (cases "ulp x = ulp y")
  case True
  have "x / ulp x \<le> y / ulp x" using assms by (simp add: divide_right_mono less_imp_le)
  from round_half_even_mono [OF this] True show ?thesis
    unfolding rnd_abs_def by (simp add: mult_right_mono)
next
  case False
  then have "max (binade x) (- 1022) \<noteq> max (binade y) (- 1022)" by (auto simp: ulp_def)
  then have b: "- 1022 < binade y" "max (binade x) (- 1022) + 1 \<le> binade y"
    using binade_mono [OF assms] by auto
  obtain n where n: "pow2 (binade y) = of_int n * ulp x"
    using pow2_ulp [of x "binade y"] b by auto
  have "x < pow2 (binade x + 1)" using binade_bounds [OF assms(1)] by simp
  also have "\<dots> \<le> pow2 (binade y)" using b by (intro pow2_mono) auto
  finally have "rnd_abs x \<le> pow2 (binade y)" using rnd_abs_le [of x n] n by simp
  also obtain m where m: "pow2 (binade y) = of_int m * ulp y"
    using pow2_ulp [of y "binade y"] b by auto
  have "pow2 (binade y) \<le> rnd_abs y"
    using rnd_abs_ge [of m y] m binade_bounds [of y] assms by simp
  finally show ?thesis .
qed

lemma rnd_mono: "x \<le> y \<Longrightarrow> rnd x \<le> rnd y"
proof -
  assume le: "x \<le> y"
  consider "0 < x" | "y < 0" | "x \<le> 0" "0 \<le> y" by linarith
  then show ?thesis
  proof cases
    case 1
    with le show ?thesis by (simp add: rnd_def rnd_abs_mono)
  next
    case 2
    with le rnd_abs_mono [of "- y" "- x"] show ?thesis by (simp add: rnd_def)
  next
    case 3
    then have "rnd x \<le> 0" "0 \<le> rnd y" by (auto simp: rnd_def rnd_abs_nonneg)
    then show ?thesis by linarith
  qed
qed

text \<open>Integers up to \<open>2 ^ 53\<close> are exact.\<close>

lemma rnd_int:
  assumes "\<bar>n\<bar> < 2 ^ 53"
  shows "rnd (of_int n) = of_int n"
proof -
  have pos: "rnd_abs (of_int n) = of_int n" if n: "0 < n" "n < 2 ^ 53" for n
  proof -
    have "pow2 (binade (of_int n)) \<le> of_int n" using binade_bounds [of "of_int n"] n by simp
    also have "(of_int n :: rat) < of_int (2 ^ 53)" using n by (simp only: of_int_less_iff)
    also have "of_int (2 ^ 53) = pow2 53" by (simp add: pow2_def)
    finally have "binade (of_int n) < 53" using pow2_mono [of 53 "binade (of_int n)"] by force
    then obtain m where m: "pow2 0 = of_int m * ulp (of_int n)"
      using pow2_ulp [of "of_int n" 0] by auto
    then have "of_int n = of_int (n * m) * ulp (of_int n)" by (simp add: pow2_def mult.assoc)
    then have "of_int n / ulp (of_int n) = of_int (n * m)"
      by (metis nonzero_mult_div_cancel_right ulp_pos less_irrefl)
    then show ?thesis unfolding rnd_abs_def
      by (metis \<open>of_int n = of_int (n * m) * ulp (of_int n)\<close> round_half_even_int)
  qed
  show ?thesis using pos [of n] pos [of "- n"] assms by (auto simp: rnd_def)
qed

lemma fl_int: "\<bar>n\<bar> < 2 ^ 53 \<Longrightarrow> fl (of_int n) = Fin (of_int n)"
proof -
  assume n: "\<bar>n\<bar> < 2 ^ 53"
  have "\<bar>of_int n\<bar> < (2 ^ 53 :: rat)" using n by (metis of_int_abs of_int_less_iff of_int_numeral of_int_power)
  moreover have "(2 ^ 53 :: rat) \<le> pow2 1024" using pow2_mono [of 53 1024] by (simp add: pow2_def)
  ultimately have "of_int n < pow2 1024" "- pow2 1024 < (of_int n :: rat)" by linarith+
  with rnd_int [OF n] show ?thesis by (simp add: fl_def)
qed

lemma fl_0 [f64_simps, simp]: "fl 0 = Fin 0"
  using fl_int [of 0] by simp

lemma fl_1 [f64_simps, simp]: "fl 1 = Fin 1"
  using fl_int [of 1] by simp

lemma f_of_int_small [f64_simps]: "\<bar>n\<bar> < 2 ^ 53 \<Longrightarrow> f_of_int n = Fin (of_int n)"
  unfolding f_of_int_def by (rule fl_int)

lemma rnd_between: "of_int a \<le> x \<Longrightarrow> x \<le> of_int b \<Longrightarrow> \<bar>a\<bar> < 2 ^ 53 \<Longrightarrow> \<bar>b\<bar> < 2 ^ 53 \<Longrightarrow>
    of_int a \<le> rnd x \<and> rnd x \<le> of_int b"
  using rnd_mono [of "of_int a" x] rnd_mono [of x "of_int b"] by (simp add: rnd_int)

lemma fl_between:
  assumes "of_int a \<le> x" "x \<le> of_int b" "\<bar>a\<bar> < 2 ^ 53" "\<bar>b\<bar> < 2 ^ 53"
  shows "\<exists>y. fl x = Fin y \<and> of_int a \<le> y \<and> y \<le> of_int b"
proof -
  have b: "of_int a \<le> rnd x" "rnd x \<le> of_int b" using rnd_between [OF assms] by auto
  have "\<bar>of_int a\<bar> < (2 ^ 53 :: rat)" "\<bar>of_int b\<bar> < (2 ^ 53 :: rat)"
    using assms(3,4) by (metis of_int_abs of_int_less_iff of_int_numeral of_int_power)+
  moreover have "(2 ^ 53 :: rat) \<le> pow2 1024" using pow2_mono [of 53 1024] by (simp add: pow2_def)
  ultimately have "rnd x < pow2 1024" "- pow2 1024 < rnd x" using b by linarith+
  with b show ?thesis by (simp add: fl_def)
qed

text \<open>The conversion of a 64-bit integer is finite, monotone and keeps the sign.\<close>

lemma rnd_nonneg: "0 \<le> x \<Longrightarrow> 0 \<le> rnd x"
  using rnd_mono [of 0 x] by (simp add: rnd_def)

lemma rnd_pow2:
  assumes "- 1074 \<le> e"
  shows "rnd (pow2 e) = pow2 e"
proof -
  have "pow2 (binade (pow2 e)) \<le> pow2 e" "pow2 e < pow2 (binade (pow2 e) + 1)"
    using binade_bounds [of "pow2 e"] by auto
  then have "e < binade (pow2 e) + 1" "binade (pow2 e) < e + 1"
    using pow2_mono [of "binade (pow2 e) + 1" e] pow2_mono [of "e + 1" "binade (pow2 e)"]
    by (force, force simp: pow2_add pow2_def [of 1])
  then have "max (binade (pow2 e)) (- 1022) - 52 \<le> e" using assms by simp
  then obtain n where n: "pow2 e = of_int n * ulp (pow2 e)" using pow2_ulp by blast
  then have "rnd_abs (pow2 e) = pow2 e"
    using rnd_abs_le [of "pow2 e" n] rnd_abs_ge [of n "pow2 e"] by linarith
  then show ?thesis by (simp add: rnd_def)
qed

text \<open>Rounding is idempotent: a rounded number is a multiple of its unit in the last place.\<close>

lemma rnd_multiple:
  assumes "0 < y" "y = of_int n * pow2 k" "- 1074 \<le> k" "y < pow2 (k + 53)"
  shows "rnd y = y"
proof -
  have "pow2 (binade y) < pow2 (k + 53)" using binade_bounds [OF assms(1)] assms(4) by linarith
  then have "binade y < k + 53" using pow2_mono [of "k + 53" "binade y"] by force
  with assms(3) have "max (binade y) (- 1022) - 52 \<le> k" by simp
  then obtain m where "pow2 k = of_int m * ulp y" using pow2_ulp by blast
  then have y: "y = of_int (n * m) * ulp y" using assms(2) by simp
  then have "rnd_abs y = y" using rnd_abs_le [of y "n * m"] rnd_abs_ge [of "n * m" y] by linarith
  then show ?thesis using assms(1) by (simp add: rnd_def)
qed

lemma rnd_abs_idem: "0 < x \<Longrightarrow> rnd (rnd_abs x) = rnd_abs x"
proof -
  assume x: "0 < x"
  define k where "k = max (binade x) (- 1022) - 52"
  have ulp: "ulp x = pow2 k" by (simp add: ulp_def k_def)
  have "x < pow2 (binade x + 1)" using binade_bounds [OF x] by simp
  also have "\<dots> \<le> pow2 (k + 53)" by (intro pow2_mono) (simp add: k_def)
  finally have "x \<le> pow2 (k + 53)" by simp
  moreover have "pow2 (k + 53) = of_int (2 ^ 53) * ulp x" by (simp add: ulp pow2_add pow2_def [of 53])
  ultimately have le: "rnd_abs x \<le> pow2 (k + 53)" using rnd_abs_le [of x "2 ^ 53"] by simp
  have "0 \<le> rnd_abs x" using x by (simp add: rnd_abs_nonneg)
  then consider "rnd_abs x = 0" | "rnd_abs x = pow2 (k + 53)" | "0 < rnd_abs x" "rnd_abs x < pow2 (k + 53)"
    using le by linarith
  then show ?thesis
  proof cases
    case 1
    then show ?thesis by (simp add: rnd_def)
  next
    case 2
    then show ?thesis using rnd_pow2 [of "k + 53"] by (simp add: k_def)
  next
    case 3
    then show ?thesis
      by (intro rnd_multiple [where n = "round_half_even (x / ulp x)" and k = k])
        (simp_all add: rnd_abs_def ulp k_def)
  qed
qed

lemma rnd_minus: "rnd (- x) = - rnd x"
  by (simp add: rnd_def)

lemma rnd_idem: "rnd (rnd x) = rnd x"
proof -
  consider "x = 0" | "0 < x" | "0 < - x" by linarith
  then show ?thesis
  proof cases
    case 3
    then have "rnd (rnd (- x)) = rnd (- x)" by (simp add: rnd_def [of "- x"] rnd_abs_idem)
    then show ?thesis by (simp add: rnd_minus)
  next
    case 1
    then show ?thesis by (simp add: rnd_def)
  next
    case 2
    then show ?thesis by (simp add: rnd_def [of x] rnd_abs_idem)
  qed
qed

lemma fl_Fin_idem:
  assumes "fl x = Fin y"
  shows "fl y = Fin y" and "fl (- y) = Fin (- y)"
proof -
  have y: "y = rnd x" "rnd x < pow2 1024" "- pow2 1024 < rnd x"
    using assms by (auto simp: fl_def split: if_splits)
  then show "fl y = Fin y" by (simp add: fl_def rnd_idem)
  show "fl (- y) = Fin (- y)" using y by (simp add: fl_def rnd_minus rnd_idem)
qed

text \<open>A number up to a power of two rounds to one up to it.\<close>

lemma fl_le_pow2:
  assumes "0 \<le> x" "x \<le> pow2 e" "- 1074 \<le> e" "e \<le> 0"
  shows "\<exists>y. fl x = Fin y \<and> 0 \<le> y \<and> y \<le> pow2 e"
proof -
  have "pow2 e \<le> 1" using pow2_mono [of e 0] assms(4) by (simp add: pow2_def [of 0])
  then have "\<exists>y. fl x = Fin y" using fl_between [of 0 x 1] assms by auto
  then have "fl x = Fin (rnd x)" by (auto simp: fl_def split: if_splits)
  moreover have "0 \<le> rnd x" "rnd x \<le> pow2 e"
    using rnd_mono [of 0 x] rnd_mono [OF assms(2)] rnd_pow2 [OF assms(3)] assms(1)
    by (simp_all add: rnd_def [of 0])
  ultimately show ?thesis by simp
qed

lemma f_of_int_Fin:
  assumes "in_i64 n"
  shows "f_of_int n = Fin (rnd (of_int n))"
proof -
  have "of_int n \<le> pow2 63" "- pow2 63 \<le> of_int n"
  proof -
    have "(of_int n :: rat) \<le> of_int (2 ^ 63)" "(of_int (- (2 ^ 63)) :: rat) \<le> of_int n"
      using assms unfolding in_i64_def of_int_le_iff by auto
    then show "of_int n \<le> pow2 63" "- pow2 63 \<le> of_int n" by (simp_all add: pow2_def)
  qed
  moreover have "rnd (- pow2 63) = - pow2 63"
    using rnd_pow2 [of 63] by (simp add: rnd_def split: if_splits) (metis less_asym pow2_pos)
  ultimately have "rnd (of_int n) \<le> pow2 63" "- pow2 63 \<le> rnd (of_int n)"
    using rnd_mono [of "of_int n" "pow2 63"] rnd_mono [of "- pow2 63" "of_int n"] rnd_pow2 [of 63]
    by auto
  moreover have "pow2 63 < pow2 1024" by (simp add: pow2_def)
  ultimately show ?thesis unfolding f_of_int_def fl_def by auto
qed

section \<open>Ratios\<close>

text \<open>\<open>float64(a) / float64(b)\<close> of two counters.\<close>

definition f_ratio :: "int \<Rightarrow> int \<Rightarrow> f64" where
  "f_ratio a b = f_div (f_of_int a) (f_of_int b)"

lemma f_ratio_unit:
  assumes "0 \<le> a" "a \<le> b" "0 < b" "in_i64 b"
  shows "\<exists>y. f_ratio a b = Fin y \<and> 0 \<le> y \<and> y \<le> 1"
proof -
  have a: "in_i64 a" using assms by (simp add: in_i64_def)
  have b1: "1 \<le> rnd (of_int b)" using rnd_mono [of 1 "of_int b"] rnd_int [of 1] assms(3) by simp
  have "rnd (of_int a) \<le> rnd (of_int b)" using assms by (intro rnd_mono) simp
  then have "of_int 0 \<le> rnd (of_int a) / rnd (of_int b)" "rnd (of_int a) / rnd (of_int b) \<le> of_int 1"
    using b1 rnd_nonneg [of "of_int a"] assms(1) by (simp_all add: field_simps)
  from fl_between [OF this] b1 show ?thesis
    by (simp add: f_ratio_def f_of_int_Fin a assms(4))
qed

lemma f_ratio_small:
  assumes "\<bar>a\<bar> < 2 ^ 53" "\<bar>b\<bar> < 2 ^ 53" "b \<noteq> 0"
  shows "f_ratio a b = fl (of_int a / of_int b)"
  using assms by (simp add: f_ratio_def f_of_int_small)

end
