(* ===== verification/CacheManager.thy ===== *)
theory CacheManager
  imports L1Cache Float64
begin

text \<open>
  The cache-manager service, \<open>cache-manager/service.go\<close> and \<open>subscriptions.go\<close>: read-through from
  the level-1 cache to the remote cache and the origin, write-through, invalidation with its
  broadcast, the handlers of the two topics, counters and the cleanup tick.

  The remote cache, the origin and the message bus are code the service only calls through
  interfaces: they are the fields of an environment, functions on an abstract world \<open>'w\<close> that is
  threaded through every call.  The JSON encoding of entries is a field as well.  A clock is a
  function from the number of the reading within the operation to the time read.
\<close>

section \<open>State\<close>

record cm_metrics =
  cm_hits :: int
  cm_misses :: int
  cm_sets :: int
  cm_deletes :: int
  cm_evictions :: int
  cm_l2_hits :: int
  cm_l2_misses :: int
  cm_l2_errors :: int

definition cm_metrics_zero :: cm_metrics where
  "cm_metrics_zero = \<lparr>cm_hits = 0, cm_misses = 0, cm_sets = 0, cm_deletes = 0, cm_evictions = 0,
     cm_l2_hits = 0, cm_l2_misses = 0, cm_l2_errors = 0\<rparr>"

record cm_config =
  cfg_l1_max :: int
  cfg_default_ttl :: duration
  cfg_cleanup :: duration
  cfg_l2_enabled :: bool

record refresh_event =
  re_key :: string
  re_value :: json
  re_ttl :: int
  re_at :: time
  re_priority :: string

record ('w, 'v) cm_env =
  l2_get :: "'w \<Rightarrow> string \<Rightarrow> 'w \<times> (json \<times> bool) go_result"
  l2_set :: "'w \<Rightarrow> string \<Rightarrow> json \<Rightarrow> duration \<Rightarrow> 'w \<times> go_error option"
  l2_delete :: "'w \<Rightarrow> string \<Rightarrow> 'w \<times> go_error option"
  l2_delete_pattern :: "'w \<Rightarrow> string \<Rightarrow> 'w \<times> go_error option"
  origin_fetch :: "'w \<Rightarrow> string \<Rightarrow> 'w \<times> 'v go_result"
  publish_inval :: "'w \<Rightarrow> inval_event \<Rightarrow> 'w \<times> go_error option"
  publish_refresh :: "'w \<Rightarrow> refresh_event \<Rightarrow> 'w \<times> go_error option"
  marshal_value :: "'v \<Rightarrow> json go_result"
  marshal_entry :: "cache_entry \<Rightarrow> json go_result"
  unmarshal_entry :: "json \<Rightarrow> cache_entry go_result"

text \<open>\<open>cm_pending\<close> are the goroutines that were started to fill the remote cache and did not run yet;
  \<open>cm_has_l2\<close> and \<open>cm_has_origin\<close> say that the interface value is not nil.\<close>

record 'w cm_service =
  cm_l1 :: l1_cache
  cm_has_l2 :: bool
  cm_has_origin :: bool
  cm_counters :: cm_metrics
  cm_cfg :: cm_config
  cm_pending :: "(string \<times> cache_entry \<times> duration) list"
  cm_stopped :: bool
  cm_world :: 'w

definition cm_default_config :: cm_config where
  "cm_default_config = \<lparr>cfg_l1_max = 10000, cfg_default_ttl = 1 * hour, cfg_cleanup = 1 * minute,
     cfg_l2_enabled = False\<rparr>"

definition cm_init :: "'w \<Rightarrow> 'w cm_service" where
  "cm_init w = \<lparr>cm_l1 = l1_new (cfg_l1_max cm_default_config), cm_has_l2 = False,
     cm_has_origin = False, cm_counters = cm_metrics_zero, cm_cfg = cm_default_config,
     cm_pending = [], cm_stopped = False, cm_world = w\<rparr>"

definition cm_set_l2_cache :: "bool \<Rightarrow> 'w cm_service \<Rightarrow> 'w cm_service" where
  "cm_set_l2_cache present s =
     s\<lparr>cm_has_l2 := present, cm_cfg := (cm_cfg s)\<lparr>cfg_l2_enabled := present\<rparr>\<rparr>"

definition cm_set_origin :: "bool \<Rightarrow> 'w cm_service \<Rightarrow> 'w cm_service" where
  "cm_set_origin present s = s\<lparr>cm_has_origin := present\<rparr>"

definition cm_uses_l2 :: "'w cm_service \<Rightarrow> bool" where
  "cm_uses_l2 s \<longleftrightarrow> cfg_l2_enabled (cm_cfg s) \<and> cm_has_l2 s"

text \<open>One counter of the metrics record is increased atomically.\<close>

abbreviation cm_count :: "(cm_metrics \<Rightarrow> cm_metrics) \<Rightarrow> 'w cm_service \<Rightarrow> 'w cm_service" where
  "cm_count f s \<equiv> s\<lparr>cm_counters := f (cm_counters s)\<rparr>"

definition inc_hits :: "cm_metrics \<Rightarrow> cm_metrics" where
  "inc_hits m = m\<lparr>cm_hits := add64 (cm_hits m) 1\<rparr>"
definition inc_misses :: "cm_metrics \<Rightarrow> cm_metrics" where
  "inc_misses m = m\<lparr>cm_misses := add64 (cm_misses m) 1\<rparr>"
definition inc_sets :: "cm_metrics \<Rightarrow> cm_metrics" where
  "inc_sets m = m\<lparr>cm_sets := add64 (cm_sets m) 1\<rparr>"
definition add_deletes :: "int \<Rightarrow> cm_metrics \<Rightarrow> cm_metrics" where
  "add_deletes n m = m\<lparr>cm_deletes := add64 (cm_deletes m) n\<rparr>"
definition add_evictions :: "int \<Rightarrow> cm_metrics \<Rightarrow> cm_metrics" where
  "add_evictions n m = m\<lparr>cm_evictions := add64 (cm_evictions m) n\<rparr>"
definition inc_l2_hits :: "cm_metrics \<Rightarrow> cm_metrics" where
  "inc_l2_hits m = m\<lparr>cm_l2_hits := add64 (cm_l2_hits m) 1\<rparr>"
definition inc_l2_misses :: "cm_metrics \<Rightarrow> cm_metrics" where
  "inc_l2_misses m = m\<lparr>cm_l2_misses := add64 (cm_l2_misses m) 1\<rparr>"
definition inc_l2_errors :: "cm_metrics \<Rightarrow> cm_metrics" where
  "inc_l2_errors m = m\<lparr>cm_l2_errors := add64 (cm_l2_errors m) 1\<rparr>"

lemmas cm_incs = inc_hits_def inc_misses_def inc_sets_def add_deletes_def add_evictions_def
  inc_l2_hits_def inc_l2_misses_def inc_l2_errors_def

section \<open>Get\<close>

record get_response =
  gr_value :: json
  gr_hit :: bool
  gr_source :: string
  gr_cached_at :: "time option"
  gr_expires_at :: "time option"

definition entry_to_response :: "cache_entry \<Rightarrow> string \<Rightarrow> get_response" where
  "entry_to_response e src = \<lparr>gr_value = ce_value e, gr_hit = True, gr_source = src,
     gr_cached_at = Some (ce_cached_at e), gr_expires_at = Some (ce_expires_at e)\<rparr>"

definition miss_response :: get_response where
  "miss_response = \<lparr>gr_value = [], gr_hit = False, gr_source = [], gr_cached_at = None,
     gr_expires_at = None\<rparr>"

text \<open>The second half of \<open>fetchWithFallback\<close>; the asynchronous write is queued.\<close>

definition cm_fetch_origin ::
    "('w, 'v) cm_env \<Rightarrow> (nat \<Rightarrow> time) \<Rightarrow> 'w cm_service \<Rightarrow> string \<Rightarrow>
     'w cm_service \<times> cache_entry go_result" where
  "cm_fetch_origin env clk s key =
     (if \<not> cm_has_origin s
      then (s, Inl (ErrMsg ''cache miss and no origin fetcher configured''))
      else
        (let (w, r) = origin_fetch env (cm_world s) key; s = s\<lparr>cm_world := w\<rparr> in
         case r of
           Inl err \<Rightarrow> (s, Inl (ErrWrap ''origin fetch failed: '' err))
         | Inr v \<Rightarrow>
             (case marshal_value env v of
                Inl err \<Rightarrow> (s, Inl (ErrWrap ''failed to marshal origin value: '' err))
              | Inr value_json \<Rightarrow>
                  (let ttl = cfg_default_ttl (cm_cfg s);
                       expires_at = time_add (clk 2) ttl;
                       s = s\<lparr>cm_l1 := l1_set (clk 3) (cm_l1 s) key value_json ttl\<rparr>;
                       entry = \<lparr>ce_value = value_json, ce_cached_at = clk 4,
                         ce_expires_at = expires_at, ce_source = ''origin''\<rparr>;
                       s = (if cm_uses_l2 s
                            then s\<lparr>cm_pending := cm_pending s @ [(key, entry, ttl)]\<rparr> else s)
                   in (s, Inr entry)))))"

definition cm_fetch_with_fallback ::
    "('w, 'v) cm_env \<Rightarrow> (nat \<Rightarrow> time) \<Rightarrow> 'w cm_service \<Rightarrow> string \<Rightarrow>
     'w cm_service \<times> cache_entry go_result" where
  "cm_fetch_with_fallback env clk s key =
     (if cm_uses_l2 s then
        (let (w, r) = l2_get env (cm_world s) key; s = s\<lparr>cm_world := w\<rparr> in
         case r of
           Inl err \<Rightarrow> cm_fetch_origin env clk (cm_count inc_l2_errors s) key
         | Inr (data, ok) \<Rightarrow>
             (if ok then
                (case unmarshal_entry env data of
                   Inr entry \<Rightarrow>
                     (let s = s\<lparr>cm_l1 := l1_set (clk 1) (cm_l1 s) key (ce_value entry)
                            (time_sub (ce_expires_at entry) (clk 0))\<rparr>
                      in (cm_count inc_l2_hits s, Inr (entry\<lparr>ce_source := ''l2''\<rparr>)))
                 | Inl err \<Rightarrow> cm_fetch_origin env clk s key)
              else cm_fetch_origin env clk (cm_count inc_l2_misses s) key))
      else cm_fetch_origin env clk s key)"

text \<open>
  \<open>Get\<close>.  \<open>joined\<close> is the outcome of an execution already in flight for this key, if the call of
  \<open>coalescer.Do\<close> joins one (theory Coalescer); otherwise the fetch runs here.  The clock reading
  for the level-1 lookup is separate from those of the fetch.
\<close>

definition cm_get ::
    "('w, 'v) cm_env \<Rightarrow> time \<Rightarrow> (nat \<Rightarrow> time) \<Rightarrow> cache_entry go_result option \<Rightarrow>
     'w cm_service \<Rightarrow> string \<Rightarrow> 'w cm_service \<times> get_response option \<times> go_error option" where
  "cm_get env now clk joined s key =
     (if key = [] then (s, None, Some (ErrMsg ''key cannot be empty''))
      else
        (let (l1, hit) = l1_get now (cm_l1 s) key; s = s\<lparr>cm_l1 := l1\<rparr> in
         case hit of
           Some entry \<Rightarrow>
             (cm_count inc_hits s, Some (entry_to_response entry ''l1''), None)
         | None \<Rightarrow>
             (let (s, result) = (case joined of
                    Some r \<Rightarrow> (s, r)
                  | None \<Rightarrow> cm_fetch_with_fallback env clk s key) in
              case result of
                Inl err \<Rightarrow> (cm_count inc_misses s, Some miss_response, Some err)
              | Inr entry \<Rightarrow> (s, Some (entry_to_response entry (ce_source entry)), None))))"

text \<open>A queued goroutine runs: the marshalling error and the error of the store are dropped.\<close>

definition cm_run_pending :: "('w, 'v) cm_env \<Rightarrow> 'w cm_service \<Rightarrow> 'w cm_service" where
  "cm_run_pending env s =
     (case cm_pending s of
        [] \<Rightarrow> s
      | (key, entry, ttl) # rest \<Rightarrow>
          (let data = (case marshal_entry env entry of Inl _ \<Rightarrow> [] | Inr d \<Rightarrow> d)
           in s\<lparr>cm_pending := rest, cm_world := fst (l2_set env (cm_world s) key data ttl)\<rparr>))"

section \<open>Set\<close>

record set_request =
  sr_value :: json
  sr_ttl :: int

definition cm_set ::
    "('w, 'v) cm_env \<Rightarrow> (nat \<Rightarrow> time) \<Rightarrow> 'w cm_service \<Rightarrow> string \<Rightarrow> set_request \<Rightarrow>
     'w cm_service \<times> time go_result" where
  "cm_set env clk s key req =
     (if key = [] then (s, Inl (ErrMsg ''key cannot be empty''))
      else if sr_value req = [] then (s, Inl (ErrMsg ''value cannot be empty''))
      else
        (let ttl = (if sr_ttl req > 0 then dur_mul (sr_ttl req) second
                    else cfg_default_ttl (cm_cfg s));
             expires_at = time_add (clk 0) ttl;
             s = s\<lparr>cm_l1 := l1_set (clk 1) (cm_l1 s) key (sr_value req) ttl\<rparr>;
             s = cm_count inc_sets s
         in if cm_uses_l2 s then
              (let entry = \<lparr>ce_value = sr_value req, ce_cached_at = clk 2,
                     ce_expires_at = expires_at, ce_source = []\<rparr> in
               case marshal_entry env entry of
                 Inl err \<Rightarrow> (s, Inl (ErrWrap ''failed to marshal entry: '' err))
               | Inr data \<Rightarrow>
                   (let (w, e) = l2_set env (cm_world s) key data ttl;
                        s = s\<lparr>cm_world := w\<rparr>;
                        s = (if e \<noteq> None then cm_count inc_l2_errors s else s)
                    in (s, Inr expires_at)))
            else (s, Inr expires_at)))"

section \<open>Invalidation\<close>

fun cm_invalidate_keys ::
    "('w, 'v) cm_env \<Rightarrow> 'w cm_service \<Rightarrow> string list \<Rightarrow> 'w cm_service \<times> int" where
  "cm_invalidate_keys env s [] = (s, 0)"
| "cm_invalidate_keys env s (k # ks) =
     (let (l1, ok) = l1_delete (cm_l1 s) k;
          s = s\<lparr>cm_l1 := l1\<rparr>;
          s = (if cm_uses_l2 s then s\<lparr>cm_world := fst (l2_delete env (cm_world s) k)\<rparr> else s);
          s = cm_count (add_deletes 1) s;
          (s, n) = cm_invalidate_keys env s ks
      in (s, (if ok then 1 else 0) + n))"

definition cm_invalidate ::
    "('w, 'v) cm_env \<Rightarrow> time \<Rightarrow> 'w cm_service \<Rightarrow> string list \<Rightarrow> string \<Rightarrow> 'w cm_service \<times> int" where
  "cm_invalidate env now s keys pat =
     (let (s, count) = cm_invalidate_keys env s keys;
          (s, count) =
            (if pat \<noteq> [] then
               (let (l1, deleted) = l1_delete_pattern (cm_l1 s) pat;
                    s = s\<lparr>cm_l1 := l1\<rparr>;
                    s = (if cm_uses_l2 s
                         then s\<lparr>cm_world := fst (l2_delete_pattern env (cm_world s) pat)\<rparr> else s)
                in (cm_count (add_deletes deleted) s, count + deleted))
             else (s, count));
          s = (if count > 0
               then s\<lparr>cm_world := fst (publish_inval env (cm_world s)
                      \<lparr>ie_pattern = pat, ie_keys = keys, ie_by = ''cache_manager'', ie_at = now,
                       ie_request = []\<rparr>)\<rparr>
               else s)
      in (s, count))"

fun cm_handle_keys :: "'w cm_service \<Rightarrow> string list \<Rightarrow> 'w cm_service" where
  "cm_handle_keys s [] = s"
| "cm_handle_keys s (k # ks) =
     cm_handle_keys (cm_count (add_deletes 1) (s\<lparr>cm_l1 := fst (l1_delete (cm_l1 s) k)\<rparr>)) ks"

definition cm_handle_invalidate :: "'w cm_service \<Rightarrow> inval_event \<Rightarrow> 'w cm_service" where
  "cm_handle_invalidate s ev =
     (let s = cm_handle_keys s (ie_keys ev)
      in if ie_pattern ev \<noteq> [] then
           (let (l1, deleted) = l1_delete_pattern (cm_l1 s) (ie_pattern ev)
            in cm_count (add_deletes deleted) (s\<lparr>cm_l1 := l1\<rparr>))
         else s)"

section \<open>Refresh, cleanup, metrics\<close>

text \<open>The goroutine for the remote cache builds an entry and drops it, so it has no effect.\<close>

definition cm_handle_refresh :: "time \<Rightarrow> 'w cm_service \<Rightarrow> refresh_event \<Rightarrow> 'w cm_service" where
  "cm_handle_refresh now s ev =
     (let ttl = dur_mul (re_ttl ev) second;
          ttl = (if ttl = 0 then cfg_default_ttl (cm_cfg s) else ttl)
      in s\<lparr>cm_l1 := l1_set now (cm_l1 s) (re_key ev) (re_value ev) ttl\<rparr>)"

definition cm_publish_invalidation ::
    "('w, 'v) cm_env \<Rightarrow> time \<Rightarrow> 'w cm_service \<Rightarrow> string list \<Rightarrow> string \<Rightarrow>
     'w cm_service \<times> go_error option" where
  "cm_publish_invalidation env now s keys pat =
     (let (w, e) = publish_inval env (cm_world s)
        \<lparr>ie_pattern = pat, ie_keys = keys, ie_by = ''cache_manager'', ie_at = now, ie_request = []\<rparr>
      in (s\<lparr>cm_world := w\<rparr>, e))"

definition cm_publish_refresh ::
    "('w, 'v) cm_env \<Rightarrow> time \<Rightarrow> 'w cm_service \<Rightarrow> string \<Rightarrow> json \<Rightarrow> int \<Rightarrow>
     'w cm_service \<times> go_error option" where
  "cm_publish_refresh env now s key value ttl =
     (let (w, e) = publish_refresh env (cm_world s)
        \<lparr>re_key = key, re_value = value, re_ttl = ttl, re_at = now, re_priority = ''normal''\<rparr>
      in (s\<lparr>cm_world := w\<rparr>, e))"

definition cm_cleanup_tick :: "time \<Rightarrow> 'w cm_service \<Rightarrow> 'w cm_service" where
  "cm_cleanup_tick now s =
     (let (l1, evicted) = l1_cleanup_expired now (cm_l1 s)
      in cm_count (add_evictions evicted) (s\<lparr>cm_l1 := l1\<rparr>))"

definition cm_shutdown :: "'w cm_service \<Rightarrow> 'w cm_service" where
  "cm_shutdown s = s\<lparr>cm_stopped := True\<rparr>"

record metrics_response =
  mr_counters :: cm_metrics
  mr_hit_rate :: f64
  mr_l1_size :: int

definition cm_get_metrics :: "'w cm_service \<Rightarrow> metrics_response" where
  "cm_get_metrics s =
     (let hits = cm_hits (cm_counters s); misses = cm_misses (cm_counters s);
          total = add64 hits misses
      in \<lparr>mr_counters = cm_counters s,
          mr_hit_rate = (if total > 0 then f_ratio hits total else Fin 0),
          mr_l1_size = l1_size (cm_l1 s)\<rparr>)"

section \<open>The service touches the level-1 cache only through its operations\<close>

definition l1_steps :: "l1_cache \<Rightarrow> l1_cache \<Rightarrow> bool" where
  "l1_steps c c' \<longleftrightarrow> (\<exists>ops. c' = fst (l1_run c ops))"

named_theorems l1_stepsI \<open>operations of the level-1 cache as steps\<close>

lemma l1_steps_refl [l1_stepsI]: "l1_steps c c"
  unfolding l1_steps_def by (rule exI [of _ "[]"]) simp

lemma l1_run_append: "fst (l1_run c (xs @ ys)) = fst (l1_run (fst (l1_run c xs)) ys)"
  by (induction xs arbitrary: c) (auto simp: case_prod_beta Let_def)

lemma l1_steps_trans: "l1_steps a b \<Longrightarrow> l1_steps b c \<Longrightarrow> l1_steps a c"
  unfolding l1_steps_def using l1_run_append by metis

lemma l1_steps_one: "l1_steps c (fst (l1_apply now op c))"
  unfolding l1_steps_def by (rule exI [of _ "[(now, op)]"]) (simp add: case_prod_beta Let_def)

lemma l1_steps_get [l1_stepsI]: "l1_steps c (fst (l1_get now c k))"
  using l1_steps_one [of c now "OpGet k"] by (simp add: case_prod_beta)

lemma l1_steps_set [l1_stepsI]: "l1_steps c (l1_set now c k v ttl)"
  using l1_steps_one [of c now "OpSet k v ttl"] by simp

lemma l1_steps_delete [l1_stepsI]: "l1_steps c (fst (l1_delete c k))"
  using l1_steps_one [of c _ "OpDelete k"] by (simp add: case_prod_beta)

lemma l1_steps_pattern [l1_stepsI]: "l1_steps c (fst (l1_delete_pattern c p))"
  using l1_steps_one [of c _ "OpDeletePattern p"] by (simp add: case_prod_beta)

lemma l1_steps_cleanup [l1_stepsI]: "l1_steps c (fst (l1_cleanup_expired now c))"
  using l1_steps_one [of c now OpCleanup] by (simp add: case_prod_beta)

lemma l1_steps_inv: "l1_steps c c' \<Longrightarrow> l1_inv c \<Longrightarrow> l1_inv c' \<and> l1_max c' = l1_max c"
  unfolding l1_steps_def using l1_run_from by blast

lemma cm_fetch_origin_l1: "l1_steps (cm_l1 s) (cm_l1 (fst (cm_fetch_origin env clk s key)))"
  unfolding cm_fetch_origin_def Let_def
  by (auto simp: case_prod_beta split: sum.split intro!: l1_stepsI)

lemma cm_fetch_l1: "l1_steps (cm_l1 s) (cm_l1 (fst (cm_fetch_with_fallback env clk s key)))"
proof -
  have o: "l1_steps (cm_l1 s) (cm_l1 (fst (cm_fetch_origin env clk (s\<lparr>cm_world := w, cm_counters := m\<rparr>) key)))"
    for w m using cm_fetch_origin_l1 [of "s\<lparr>cm_world := w, cm_counters := m\<rparr>" env clk key] by simp
  have o1: "l1_steps (cm_l1 s) (cm_l1 (fst (cm_fetch_origin env clk (s\<lparr>cm_world := w\<rparr>) key)))"
    for w using cm_fetch_origin_l1 [of "s\<lparr>cm_world := w\<rparr>" env clk key] by simp
  show ?thesis
    unfolding cm_fetch_with_fallback_def Let_def
    by (auto simp: case_prod_beta cm_fetch_origin_l1 o o1 split: sum.split intro!: l1_stepsI)
qed

lemma cm_get_l1: "l1_steps (cm_l1 s) (cm_l1 (fst (cm_get env now clk joined s key)))"
proof -
  let ?s = "s\<lparr>cm_l1 := fst (l1_get now (cm_l1 s) key)\<rparr>"
  have "l1_steps (cm_l1 s) (cm_l1 (fst (cm_fetch_with_fallback env clk ?s key)))"
    using l1_steps_trans [OF l1_steps_get cm_fetch_l1 [of ?s env clk key, simplified]] .
  then show ?thesis
    unfolding cm_get_def Let_def
    by (auto simp: case_prod_beta split: option.split sum.split intro!: l1_stepsI)
qed

lemma cm_set_l1: "l1_steps (cm_l1 s) (cm_l1 (fst (cm_set env clk s key req)))"
  unfolding cm_set_def Let_def
  by (auto simp: case_prod_beta split: sum.split intro!: l1_stepsI)

text \<open>The key loops do to the level-1 cache what the generic loop does.\<close>

lemma cm_invalidate_keys_l1:
  "cm_l1 (fst (cm_invalidate_keys env s ks)) = fst (delete_each l1_delete (cm_l1 s) ks) \<and>
   snd (cm_invalidate_keys env s ks) = snd (delete_each l1_delete (cm_l1 s) ks)"
proof (induction ks arbitrary: s)
  case Nil
  then show ?case by simp
next
  case (Cons k ks)
  then show ?case by (simp add: Let_def case_prod_beta)
qed

lemma cm_handle_keys_l1:
  "cm_l1 (cm_handle_keys s ks) = fst (delete_each l1_delete (cm_l1 s) ks)"
  by (induction ks arbitrary: s) (simp_all add: Let_def case_prod_beta)

lemma l1_steps_delete_each: "l1_steps c (fst (delete_each l1_delete c ks))"
proof (induction ks arbitrary: c)
  case Nil
  then show ?case by (simp add: l1_steps_refl)
next
  case (Cons k ks)
  then show ?case
    using l1_steps_trans [OF l1_steps_delete Cons] by (simp add: Let_def case_prod_beta)
qed

definition inval_l1 :: "l1_cache \<Rightarrow> string list \<Rightarrow> string \<Rightarrow> l1_cache" where
  "inval_l1 c ks pat = (let c1 = fst (delete_each l1_delete c ks)
     in if pat \<noteq> [] then fst (l1_delete_pattern c1 pat) else c1)"

lemma l1_steps_inval: "l1_steps c (inval_l1 c ks pat)"
  unfolding inval_l1_def Let_def
  by (auto intro: l1_steps_delete_each l1_steps_trans [OF l1_steps_delete_each l1_steps_pattern])

lemma cm_invalidate_l1: "cm_l1 (fst (cm_invalidate env now s ks pat)) = inval_l1 (cm_l1 s) ks pat"
  unfolding cm_invalidate_def inval_l1_def Let_def
  by (auto simp: case_prod_beta cm_invalidate_keys_l1)

lemma cm_handle_l1: "cm_l1 (cm_handle_invalidate s ev) = inval_l1 (cm_l1 s) (ie_keys ev) (ie_pattern ev)"
  unfolding cm_handle_invalidate_def inval_l1_def Let_def
  by (auto simp: case_prod_beta cm_handle_keys_l1)

lemma inval_content:
  assumes "l1_inv c"
  shows "l1_content (inval_l1 c ks pat) =
    (\<lambda>k. if k \<in> set ks \<or> pat \<noteq> [] \<and> lru_match pat k then None else l1_content c k)"
  using l1.invalidate_content [OF assms, of ks pat] l1.delete_each_content [OF assms, of ks]
  by (auto simp: inval_l1_def Let_def fun_eq_iff)

section \<open>Runs of the service\<close>

datatype cm_op =
    CmGet time "nat \<Rightarrow> time" "cache_entry go_result option" string
  | CmSet "nat \<Rightarrow> time" string set_request
  | CmInvalidate time "string list" string
  | CmOnInvalidate inval_event
  | CmOnRefresh time refresh_event
  | CmPublishInval time "string list" string
  | CmPublishRefresh time string json int
  | CmCleanup time
  | CmPending
  | CmSetL2 bool
  | CmSetOrigin bool
  | CmShutdown

fun cm_apply :: "('w, 'v) cm_env \<Rightarrow> cm_op \<Rightarrow> 'w cm_service \<Rightarrow> 'w cm_service" where
  "cm_apply env (CmGet now clk joined k) s = fst (cm_get env now clk joined s k)"
| "cm_apply env (CmSet clk k req) s = fst (cm_set env clk s k req)"
| "cm_apply env (CmInvalidate now ks p) s = fst (cm_invalidate env now s ks p)"
| "cm_apply env (CmOnInvalidate ev) s = cm_handle_invalidate s ev"
| "cm_apply env (CmOnRefresh now ev) s = cm_handle_refresh now s ev"
| "cm_apply env (CmPublishInval now ks p) s = fst (cm_publish_invalidation env now s ks p)"
| "cm_apply env (CmPublishRefresh now k v ttl) s = fst (cm_publish_refresh env now s k v ttl)"
| "cm_apply env (CmCleanup now) s = cm_cleanup_tick now s"
| "cm_apply env CmPending s = cm_run_pending env s"
| "cm_apply env (CmSetL2 b) s = cm_set_l2_cache b s"
| "cm_apply env (CmSetOrigin b) s = cm_set_origin b s"
| "cm_apply env CmShutdown s = cm_shutdown s"

definition cm_run :: "('w, 'v) cm_env \<Rightarrow> cm_op list \<Rightarrow> 'w cm_service \<Rightarrow> 'w cm_service" where
  "cm_run env ops s = fold (cm_apply env) ops s"

lemma cm_apply_l1: "l1_steps (cm_l1 s) (cm_l1 (cm_apply env op s))"
proof (cases op)
  case (CmOnRefresh now ev)
  then show ?thesis by (simp add: cm_handle_refresh_def Let_def l1_stepsI)
next
  case (CmCleanup now)
  then show ?thesis by (simp add: cm_cleanup_tick_def case_prod_beta l1_stepsI)
next
  case CmPending
  then show ?thesis
    by (auto simp: cm_run_pending_def Let_def l1_stepsI split: list.split)
qed (simp_all add: cm_get_l1 cm_set_l1 cm_invalidate_l1 cm_handle_l1 l1_steps_inval
    cm_publish_invalidation_def cm_publish_refresh_def cm_set_l2_cache_def cm_set_origin_def
    cm_shutdown_def case_prod_beta l1_steps_refl)

lemma cm_run_l1: "l1_steps (cm_l1 s) (cm_l1 (cm_run env ops s))"
proof (induction ops arbitrary: s)
  case Nil
  then show ?case by (simp add: cm_run_def l1_steps_refl)
next
  case (Cons op ops)
  then show ?case
    using l1_steps_trans [OF cm_apply_l1 Cons] by (simp add: cm_run_def)
qed

lemma cm_run_inv: "l1_inv (cm_l1 (cm_run env ops (cm_init w)))"
  using l1_steps_inv [OF cm_run_l1 [of "cm_init w" env ops]]
  by (simp add: cm_init_def l1_new_refines)

section \<open>Lookups and stores\<close>

lemma cm_get_hit:
  assumes "l1_inv (cm_l1 s)" "key \<noteq> []" "l1_content (cm_l1 s) key = Some (v, t)" "now \<le> t"
  shows "cm_get env now clk joined s key =
    (cm_count inc_hits (s\<lparr>cm_l1 := fst (l1_get now (cm_l1 s) key)\<rparr>),
     Some \<lparr>gr_value = v, gr_hit = True, gr_source = ''l1'',
       gr_cached_at = Some (t - hour), gr_expires_at = Some t\<rparr>, None)"
  using l1.get_result [OF assms(1), of now key] assms(2-4)
  by (simp add: cm_get_def case_prod_beta Let_def entry_to_response_def time_after_def
      time_add_def)

lemma cm_get_not_fresh:
  assumes "l1_inv (cm_l1 s)" "snd (l1_get now (cm_l1 s) key) = None" "key \<noteq> []"
  shows "cm_get env now clk None s key =
    (case cm_fetch_with_fallback env clk (s\<lparr>cm_l1 := fst (l1_get now (cm_l1 s) key)\<rparr>) key of
       (s, Inl err) \<Rightarrow> (cm_count inc_misses s, Some miss_response, Some err)
     | (s, Inr e) \<Rightarrow> (s, Some (entry_to_response e (ce_source e)), None))"
  using assms by (simp add: cm_get_def case_prod_beta Let_def)

text \<open>The fetch stores what it returns, with a deadline no earlier than the one it reports.\<close>

lemma cm_fetch_origin_stores:
  assumes "l1_inv (cm_l1 s)" "cm_fetch_origin env clk s key = (s', Inr e)" "clk 2 \<le> clk 3"
  shows "\<exists>t. l1_content (cm_l1 s') key = Some (ce_value e, t) \<and> ce_expires_at e \<le> t"
proof -
  obtain w v where f: "origin_fetch env (cm_world s) key = (w, v)" by fastforce
  from assms(2) obtain x j where v: "v = Inr x" "marshal_value env x = Inr j" "cm_has_origin s"
    by (auto simp: cm_fetch_origin_def f Let_def split: if_splits sum.splits)
  with assms(2) have "cm_l1 s' = l1_set (clk 3) (cm_l1 s) key j (cfg_default_ttl (cm_cfg s))"
    and "ce_value e = j" "ce_expires_at e = clk 2 + cfg_default_ttl (cm_cfg s)"
    by (auto simp: cm_fetch_origin_def f Let_def time_add_def split: if_splits)
  with assms(3) show ?thesis by (simp add: l1.set_same [OF assms(1)] time_add_def)
qed

lemma cm_fetch_stores:
  assumes inv: "l1_inv (cm_l1 s)" and fetch: "cm_fetch_with_fallback env clk s key = (s', Inr e)"
    and clk: "clk 0 \<le> clk 1" "clk 2 \<le> clk 3" and "ce_expires_at e - clk 0 \<le> max_duration"
  shows "\<exists>t. l1_content (cm_l1 s') key = Some (ce_value e, t) \<and> ce_expires_at e \<le> t"
proof (cases "cm_uses_l2 s")
  case False
  with fetch show ?thesis
    using cm_fetch_origin_stores [OF inv _ clk(2)] by (simp add: cm_fetch_with_fallback_def)
next
  case True
  obtain w r where g: "l2_get env (cm_world s) key = (w, r)" by fastforce
  have o: ?thesis if "cm_fetch_origin env clk u key = (s', Inr e)" "cm_l1 u = cm_l1 s" for u
    using cm_fetch_origin_stores [OF _ that(1) clk(2)] inv that(2) by simp
  show ?thesis
  proof (cases "\<exists>data x. r = Inr (data, True) \<and> unmarshal_entry env data = Inr x")
    case True
    then obtain data x where r: "r = Inr (data, True)" "unmarshal_entry env data = Inr x" by blast
    with fetch \<open>cm_uses_l2 s\<close> g
    have e: "e = x\<lparr>ce_source := ''l2''\<rparr>" and "cm_l1 s' = l1_set (clk 1) (cm_l1 s) key (ce_value x)
        (time_sub (ce_expires_at x) (clk 0))"
      by (auto simp: cm_fetch_with_fallback_def Let_def)
    moreover have "ce_expires_at x \<le> clk 1 + time_sub (ce_expires_at x) (clk 0)"
      using assms(5) clk(1) e by (simp add: time_sub_def)
    ultimately show ?thesis by (simp add: l1.set_same [OF inv] time_add_def)
  next
    case False
    have "\<exists>u. cm_fetch_origin env clk u key = (s', Inr e) \<and> cm_l1 u = cm_l1 s"
    proof (cases r)
      case (Inl err)
      with fetch \<open>cm_uses_l2 s\<close> g show ?thesis
        by (intro exI [of _ "cm_count inc_l2_errors (s\<lparr>cm_world := w\<rparr>)"])
          (simp add: cm_fetch_with_fallback_def Let_def)
    next
      case (Inr p)
      obtain data ok where p: "p = (data, ok)" by fastforce
      show ?thesis
      proof (cases ok)
        case True
        with False Inr p obtain err where "unmarshal_entry env data = Inl err"
          by (cases "unmarshal_entry env data") auto
        with fetch \<open>cm_uses_l2 s\<close> g Inr p True show ?thesis
          by (intro exI [of _ "s\<lparr>cm_world := w\<rparr>"]) (simp add: cm_fetch_with_fallback_def Let_def)
      next
        case False
        with fetch \<open>cm_uses_l2 s\<close> g Inr p show ?thesis
          by (intro exI [of _ "cm_count inc_l2_misses (s\<lparr>cm_world := w\<rparr>)"])
            (simp add: cm_fetch_with_fallback_def Let_def)
      qed
    qed
    with o show ?thesis by blast
  qed
qed


section \<open>Counters\<close>

definition m_rates :: "cm_metrics \<Rightarrow> int \<times> int" where
  "m_rates m = (cm_hits m, cm_misses m)"

abbreviation cm_rates :: "'w cm_service \<Rightarrow> int \<times> int" where
  "cm_rates s \<equiv> m_rates (cm_counters s)"

lemma m_rates_simps [simp]:
  "m_rates (inc_sets m) = m_rates m"
  "m_rates (add_deletes n m) = m_rates m"
  "m_rates (add_evictions n m) = m_rates m"
  "m_rates (inc_l2_hits m) = m_rates m"
  "m_rates (inc_l2_misses m) = m_rates m"
  "m_rates (inc_l2_errors m) = m_rates m"
  "m_rates (inc_hits m) = (add64 (fst (m_rates m)) 1, snd (m_rates m))"
  "m_rates (inc_misses m) = (fst (m_rates m), add64 (snd (m_rates m)) 1)"
  by (simp_all add: m_rates_def cm_incs)

lemma cm_fetch_origin_rates: "cm_rates (fst (cm_fetch_origin env clk s key)) = cm_rates s"
  unfolding cm_fetch_origin_def Let_def
  by (auto simp: case_prod_beta split: sum.split)

lemma cm_fetch_rates: "cm_rates (fst (cm_fetch_with_fallback env clk s key)) = cm_rates s"
  unfolding cm_fetch_with_fallback_def Let_def
  by (auto simp: case_prod_beta cm_fetch_origin_rates split: sum.split)

lemma cm_get_rates:
  "cm_rates (fst (cm_get env now clk joined s key)) \<in>
     {cm_rates s, (add64 (fst (cm_rates s)) 1, snd (cm_rates s)),
      (fst (cm_rates s), add64 (snd (cm_rates s)) 1)}"
  unfolding cm_get_def Let_def
  by (auto simp: case_prod_beta cm_fetch_rates split: option.split sum.split)

lemma cm_set_rates: "cm_rates (fst (cm_set env clk s key req)) = cm_rates s"
  unfolding cm_set_def Let_def by (auto simp: case_prod_beta split: sum.split)

lemma cm_invalidate_keys_rates: "cm_rates (fst (cm_invalidate_keys env s ks)) = cm_rates s"
  by (induction ks arbitrary: s) (simp_all add: Let_def case_prod_beta)

lemma cm_invalidate_rates: "cm_rates (fst (cm_invalidate env now s ks p)) = cm_rates s"
  unfolding cm_invalidate_def Let_def
  by (auto simp: case_prod_beta cm_invalidate_keys_rates)

lemma cm_handle_keys_rates: "cm_rates (cm_handle_keys s ks) = cm_rates s"
  by (induction ks arbitrary: s) simp_all

lemma cm_apply_rates:
  "cm_rates (cm_apply env op s) \<in>
     {cm_rates s, (add64 (fst (cm_rates s)) 1, snd (cm_rates s)),
      (fst (cm_rates s), add64 (snd (cm_rates s)) 1)}"
proof (cases op)
  case (CmGet now clk joined k)
  then show ?thesis using cm_get_rates [of env now clk joined s k] by simp
next
  case CmPending
  then show ?thesis by (auto simp: cm_run_pending_def Let_def split: list.split)
qed (simp_all add: cm_set_rates cm_invalidate_rates cm_handle_invalidate_def cm_handle_keys_rates
    cm_handle_refresh_def cm_publish_invalidation_def cm_publish_refresh_def cm_cleanup_tick_def
    cm_set_l2_cache_def cm_set_origin_def cm_shutdown_def Let_def case_prod_beta)

lemma cm_run_rates:
  assumes "cm_rates s = (h, m)" "0 \<le> h" "0 \<le> m" "h + m + int (length ops) < 2 ^ 63"
  shows "\<exists>h' m'. cm_rates (cm_run env ops s) = (h', m') \<and> 0 \<le> h' \<and> 0 \<le> m' \<and> h' + m' < 2 ^ 63"
  using assms
proof (induction ops arbitrary: s h m)
  case Nil
  then show ?case by (simp add: cm_run_def)
next
  case (Cons op ops)
  have run: "cm_run env (op # ops) s = cm_run env ops (cm_apply env op s)" by (simp add: cm_run_def)
  have "add64 h 1 = h + 1" "add64 m 1 = m + 1"
    using Cons.prems by (auto intro!: add64_small simp: in_i64_def)
  with cm_apply_rates [of env op s] Cons.prems(1)
  consider "cm_rates (cm_apply env op s) = (h, m)" | "cm_rates (cm_apply env op s) = (h + 1, m)"
    | "cm_rates (cm_apply env op s) = (h, m + 1)" by auto
  then show ?case
  proof cases
    case 1
    show ?thesis unfolding run by (rule Cons.IH [OF 1]) (use Cons.prems in simp_all)
  next
    case 2
    show ?thesis unfolding run by (rule Cons.IH [OF 2]) (use Cons.prems in simp_all)
  next
    case 3
    show ?thesis unfolding run by (rule Cons.IH [OF 3]) (use Cons.prems in simp_all)
  qed
qed

section \<open>Invalidation counts and publications\<close>

lemma l1_content_finite: "finite {k. l1_content c k \<noteq> None}"
  by (rule finite_subset [of _ "le_key ` set (l1_view c)"])
    (auto simp: l1_content_def lru_find_def find_Some_iff)

definition inval_count :: "l1_cache \<Rightarrow> string list \<Rightarrow> string \<Rightarrow> int" where
  "inval_count c ks pat = (let (c1, n) = delete_each l1_delete c ks
     in if pat \<noteq> [] then n + snd (l1_delete_pattern c1 pat) else n)"

lemma inval_count_card:
  assumes inv: "l1_inv c"
  shows "inval_count c ks pat =
    int (card {k. l1_content c k \<noteq> None \<and> (k \<in> set ks \<or> pat \<noteq> [] \<and> lru_match pat k)})"
proof -
  let ?c1 = "fst (delete_each l1_delete c ks)"
  let ?A = "{k. k \<in> set ks \<and> l1_content c k \<noteq> None}"
  let ?B = "{k. l1_content ?c1 k \<noteq> None \<and> lru_match pat k}"
  have c1: "l1_inv ?c1" "l1_content ?c1 = (\<lambda>k. if k \<in> set ks then None else l1_content c k)"
    using l1.delete_each_content [OF inv, of ks] by auto
  have A: "snd (delete_each l1_delete c ks) = int (card ?A)"
    using l1.delete_each_count [OF inv, of ks]
      distinct_card [OF distinct_filter [OF distinct_remdups],
        of "\<lambda>k. l1_content c k \<noteq> None" ks]
    by simp
  have B: "snd (l1_delete_pattern ?c1 pat) = int (card ?B)" by (rule l1.pattern_count [OF c1(1)])
  have "finite ?A" "finite ?B" by (auto intro: finite_subset [OF _ l1_content_finite])
  moreover have "?A \<inter> ?B = {}" by (auto simp: c1(2))
  ultimately have "card (?A \<union> ?B) = card ?A + card ?B" by (rule card_Un_disjoint)
  moreover have "?A \<union> ?B = {k. l1_content c k \<noteq> None \<and> (k \<in> set ks \<or> lru_match pat k)}"
    by (auto simp: c1(2))
  ultimately show ?thesis
    using A B by (auto simp: inval_count_def case_prod_beta conj_commute)
qed

lemma cm_invalidate_count:
  assumes "l1_inv (cm_l1 s)"
  shows "snd (cm_invalidate env now s ks pat) =
    int (card {k. l1_content (cm_l1 s) k \<noteq> None \<and> (k \<in> set ks \<or> pat \<noteq> [] \<and> lru_match pat k)})"
proof -
  have "snd (cm_invalidate env now s ks pat) = inval_count (cm_l1 s) ks pat"
    unfolding cm_invalidate_def inval_count_def Let_def
    by (simp add: case_prod_beta cm_invalidate_keys_l1)
  then show ?thesis by (simp add: inval_count_card [OF assms])
qed

lemma cm_invalidate_keys_world:
  "\<not> cm_uses_l2 s \<Longrightarrow> cm_world (fst (cm_invalidate_keys env s ks)) = cm_world s \<and>
    \<not> cm_uses_l2 (fst (cm_invalidate_keys env s ks))"
proof (induction ks arbitrary: s)
  case Nil
  then show ?case by simp
next
  case (Cons k ks)
  have same: "cm_uses_l2 (s\<lparr>cm_l1 := c, cm_counters := m\<rparr>) = cm_uses_l2 s"
    "cm_uses_l2 (s\<lparr>cm_l1 := c\<rparr>) = cm_uses_l2 s" for c m
    by (simp_all add: cm_uses_l2_def)
  show ?case
    using Cons.IH [of "cm_count (add_deletes 1) (s\<lparr>cm_l1 := fst (l1_delete (cm_l1 s) k)\<rparr>)"] Cons.prems
    by (simp add: Let_def case_prod_beta same)
qed

lemma cm_invalidate_world:
  "cm_uses_l2 s \<or> cm_world (fst (cm_invalidate env now s ks pat)) =
     (if snd (cm_invalidate env now s ks pat) > 0
      then fst (publish_inval env (cm_world s) \<lparr>ie_pattern = pat, ie_keys = ks,
        ie_by = ''cache_manager'', ie_at = now, ie_request = []\<rparr>)
      else cm_world s)"
proof (cases "cm_uses_l2 s")
  case False
  obtain s1 n where s1: "cm_invalidate_keys env s ks = (s1, n)" by fastforce
  with cm_invalidate_keys_world [OF False, of env ks]
  have w: "cm_world s1 = cm_world s" and "\<not> cm_uses_l2 s1" by simp_all
  then have "\<not> cm_uses_l2 (s1\<lparr>cm_l1 := c\<rparr>)" for c by (simp add: cm_uses_l2_def)
  with w show ?thesis by (simp add: cm_invalidate_def s1 case_prod_beta Let_def)
qed simp

text \<open>Any sequence of delivered events.\<close>

lemma handle_events_content:
  assumes "l1_inv (cm_l1 s)"
  shows "l1_content (cm_l1 (fold (\<lambda>ev s. cm_handle_invalidate s ev) evs s)) =
    (\<lambda>k. if \<exists>ev. ev \<in> set evs \<and> (k \<in> set (ie_keys ev) \<or>
           ie_pattern ev \<noteq> [] \<and> lru_match (ie_pattern ev) k)
         then None else l1_content (cm_l1 s) k)"
  using assms
proof (induction evs arbitrary: s)
  case Nil
  then show ?case by simp
next
  case (Cons ev evs)
  have "l1_inv (cm_l1 (cm_handle_invalidate s ev))"
    using l1_steps_inv [OF l1_steps_inval Cons.prems] by (simp add: cm_handle_l1)
  from Cons.IH [OF this] show ?case
    by (auto simp: cm_handle_l1 inval_content [OF Cons.prems] fun_eq_iff)
qed

section \<open>Properties\<close>

text \<open>
  Property C6.  Read-through: a \<open>Get\<close> that succeeds, from whichever level, leaves the value in the
  level-1 cache, so that a \<open>Get\<close> of the same key by anybody, up to the reported expiry, returns
  the same value from \<open>"l1"\<close> without asking the remote cache or the origin again.
\<close>

theorem read_through_fills_l1:
  assumes "l1_inv (cm_l1 s)" and "cm_get env now clk None s key = (s1, Some r, None)"
    and "clk 0 \<le> clk 1" "clk 2 \<le> clk 3"
    and "gr_expires_at r = Some deadline" "deadline - clk 0 \<le> max_duration" "later \<le> deadline"
  shows "\<exists>s2 r2. cm_get env later clk2 joined s1 key = (s2, Some r2, None) \<and>
    gr_value r2 = gr_value r \<and> gr_hit r2 \<and> gr_source r2 = ''l1'' \<and> cm_world s2 = cm_world s1"
proof -
  have key: "key \<noteq> []" using assms(2) by (auto simp: cm_get_def)
  have "\<exists>t. l1_content (cm_l1 s1) key = Some (gr_value r, t) \<and> deadline \<le> t"
  proof (cases "snd (l1_get now (cm_l1 s) key)")
    case (Some e)
    with assms(1) obtain v t where c: "l1_content (cm_l1 s) key = Some (v, t)" "now \<le> t"
      by (auto simp: l1.get_result time_after_def split: option.splits if_splits)
    have "r = \<lparr>gr_value = v, gr_hit = True, gr_source = ''l1'', gr_cached_at = Some (t - hour),
        gr_expires_at = Some t\<rparr>" "cm_l1 s1 = fst (l1_get now (cm_l1 s) key)"
      using assms(2) unfolding cm_get_hit [OF assms(1) key c] by auto
    with c assms(1,5) show ?thesis by (simp add: l1.get_content time_after_def)
  next
    case None
    let ?s = "s\<lparr>cm_l1 := fst (l1_get now (cm_l1 s) key)\<rparr>"
    obtain e where e: "cm_fetch_with_fallback env clk ?s key = (s1, Inr e)"
      and r: "r = entry_to_response e (ce_source e)"
      using assms(2) unfolding cm_get_not_fresh [OF assms(1) None key]
      by (auto split: prod.splits sum.splits)
    have "l1_inv (cm_l1 ?s)" using assms(1) by (simp add: l1.get_invar)
    from cm_fetch_stores [OF this e assms(3,4)] assms(5,6) r show ?thesis
      by (simp add: entry_to_response_def)
  qed
  then obtain t where t: "l1_content (cm_l1 s1) key = Some (gr_value r, t)" "later \<le> t"
    using assms(7) by auto
  moreover have "l1_inv (cm_l1 s1)"
    using l1_steps_inv [OF cm_get_l1 assms(1), of env now clk None key] assms(2) by simp
  ultimately show ?thesis by (simp add: cm_get_hit [OF _ key])
qed

text \<open>An environment whose origin always answers, for the witnesses.\<close>

definition demo_env :: "(nat, json) cm_env" where
  "demo_env = \<lparr>l2_get = (\<lambda>w k. (w, Inr ([], False))), l2_set = (\<lambda>w k v t. (w + 1, None)),
     l2_delete = (\<lambda>w k. (w, None)), l2_delete_pattern = (\<lambda>w k. (w, None)),
     origin_fetch = (\<lambda>w k. (w + 1, Inr ''7'')),
     publish_inval = (\<lambda>w ev. (w + 1, None)), publish_refresh = (\<lambda>w ev. (w + 1, None)),
     marshal_value = Inr, marshal_entry = (\<lambda>e. Inr (ce_value e)),
     unmarshal_entry = (\<lambda>d. Inl (ErrMsg ''bad''))\<rparr>"

lemmas cm_evals = cm_get_def cm_fetch_with_fallback_def cm_fetch_origin_def cm_uses_l2_def
  cm_set_origin_def cm_init_def cm_default_config_def demo_env_def entry_to_response_def
  l1_get_def l1_set_def l1_new_def move_to_front_def entry_response_def cm_set_def

theorem read_through_fills_l1_witness:
  "let s = cm_set_origin True (cm_init (0::nat));
       s1 = fst (cm_get demo_env 0 (\<lambda>i. int i) None s ''k'')
   in \<exists>s2 r2. cm_get demo_env 9 (\<lambda>_. 0) None s1 ''k'' = (s2, Some r2, None) \<and>
    gr_value r2 = ''7'' \<and> gr_hit r2 \<and> gr_source r2 = ''l1'' \<and> cm_world s2 = cm_world s1"
proof -
  let ?s = "cm_set_origin True (cm_init (0::nat))"
  let ?r = "\<lparr>gr_value = ''7'', gr_hit = True, gr_source = ''origin'', gr_cached_at = Some 4,
      gr_expires_at = Some (2 + hour)\<rparr>"
  have "l1_inv (cm_l1 ?s)" by (simp add: cm_init_def cm_set_origin_def l1_new_refines)
  moreover have "cm_get demo_env 0 (\<lambda>i. int i) None ?s ''k'' =
      (fst (cm_get demo_env 0 (\<lambda>i. int i) None ?s ''k''), Some ?r, None)"
    by (simp add: cm_evals time_add_def)
  ultimately show ?thesis
    using read_through_fills_l1 [of ?s demo_env 0 "\<lambda>i. int i" "''k''" _ ?r "2 + hour" 9 "\<lambda>_. 0" None]
    by (simp add: time_units max_duration_def)
qed

text \<open>
  Property C7.  Write then read: after a \<open>Set\<close> that succeeds, a \<open>Get\<close> of the key up to the expiry
  that \<open>Set\<close> reported returns the written bytes from \<open>"l1"\<close>, whatever the remote cache did.
\<close>

theorem set_then_get:
  assumes "l1_inv (cm_l1 s)" and "cm_set env clk s key req = (s1, Inr expires)"
    and "clk 0 \<le> clk 1" "later \<le> expires"
  shows "\<exists>s2 r. cm_get env2 later clk2 joined s1 key = (s2, Some r, None) \<and>
    gr_value r = sr_value req \<and> gr_hit r \<and> gr_source r = ''l1'' \<and> cm_world s2 = cm_world s1"
proof -
  have key: "key \<noteq> []" using assms(2) by (auto simp: cm_set_def)
  have "\<exists>ttl. cm_l1 s1 = l1_set (clk 1) (cm_l1 s) key (sr_value req) ttl \<and> expires = clk 0 + ttl"
    using assms(2) unfolding cm_set_def Let_def time_add_def
    by (auto simp: case_prod_beta split: if_splits sum.splits)
  then obtain ttl where l1: "cm_l1 s1 = l1_set (clk 1) (cm_l1 s) key (sr_value req) ttl"
    and "expires = clk 0 + ttl" by blast
  with assms(3,4) have "later \<le> clk 1 + ttl" by simp
  moreover have "l1_content (cm_l1 s1) key = Some (sr_value req, clk 1 + ttl)"
    by (simp add: l1 l1.set_same [OF assms(1)] time_add_def)
  moreover have "l1_inv (cm_l1 s1)" by (simp add: l1 l1.set_invar [OF assms(1)])
  ultimately show ?thesis by (simp add: cm_get_hit [OF _ key])
qed

theorem set_then_get_witness:
  "let s1 = fst (cm_set demo_env (\<lambda>_. 100) (cm_init 0) ''k'' \<lparr>sr_value = ''5'', sr_ttl = 60\<rparr>)
   in \<exists>s2 r. cm_get demo_env 200 (\<lambda>_. 0) None s1 ''k'' = (s2, Some r, None) \<and>
    gr_value r = ''5'' \<and> gr_hit r \<and> gr_source r = ''l1'' \<and> cm_world s2 = cm_world s1"
proof -
  have "cm_set demo_env (\<lambda>_. 100) (cm_init 0) ''k'' \<lparr>sr_value = ''5'', sr_ttl = 60\<rparr> =
      (fst (cm_set demo_env (\<lambda>_. 100) (cm_init 0) ''k'' \<lparr>sr_value = ''5'', sr_ttl = 60\<rparr>),
       Inr (100 + dur_mul 60 second))"
    by (simp add: cm_evals time_add_def Let_def)
  from set_then_get [OF _ this, of 200 demo_env "\<lambda>_. 0" None] show ?thesis
    by (simp add: cm_init_def l1_new_refines dur_mul_def second_def in_i64_def)
qed

text \<open>
  Further result.  Invalidation on the instance that receives the request: exactly the listed keys and
  the keys that match the pattern leave the level-1 cache, the answer is the number of cached
  entries that were removed, and the event is published exactly when that number is positive.
\<close>

theorem invalidate_removes:
  assumes "l1_inv (cm_l1 s)"
  shows "let (s', count) = cm_invalidate env now s ks pat;
             hit = (\<lambda>k. k \<in> set ks \<or> pat \<noteq> [] \<and> lru_match pat k)
    in l1_content (cm_l1 s') = (\<lambda>k. if hit k then None else l1_content (cm_l1 s) k) \<and>
       count = int (card {k. l1_content (cm_l1 s) k \<noteq> None \<and> hit k}) \<and>
       (cm_uses_l2 s \<or> cm_world s' =
         (if count > 0
          then fst (publish_inval env (cm_world s) \<lparr>ie_pattern = pat, ie_keys = ks,
            ie_by = ''cache_manager'', ie_at = now, ie_request = []\<rparr>)
          else cm_world s))"
  using inval_content [OF assms, of ks pat] cm_invalidate_count [OF assms, of env now ks pat]
    cm_invalidate_world [of s env now ks pat]
  by (simp add: case_prod_beta cm_invalidate_l1)

definition demo_cached :: "nat cm_service" where
  "demo_cached = fst (cm_set demo_env (\<lambda>_. 100) (cm_init 0) ''k'' \<lparr>sr_value = ''5'', sr_ttl = 60\<rparr>)"

lemma demo_cached_inv: "l1_inv (cm_l1 demo_cached)"
  using l1_steps_inv [OF cm_set_l1, of "cm_init (0::nat)"] l1_new_refines(1)
  unfolding demo_cached_def cm_init_def by auto

theorem invalidate_removes_witness:
  "let (s', count) = cm_invalidate demo_env 0 demo_cached [''k'', ''j''] [];
       hit = (\<lambda>k. k \<in> set [''k'', ''j''] \<or> [] \<noteq> ([]::string) \<and> lru_match [] k)
    in l1_content (cm_l1 s') = (\<lambda>k. if hit k then None else l1_content (cm_l1 demo_cached) k) \<and>
       count = int (card {k. l1_content (cm_l1 demo_cached) k \<noteq> None \<and> hit k}) \<and>
       (cm_uses_l2 demo_cached \<or> cm_world s' =
         (if count > 0
          then fst (publish_inval demo_env (cm_world demo_cached) \<lparr>ie_pattern = [],
            ie_keys = [''k'', ''j''], ie_by = ''cache_manager'', ie_at = 0, ie_request = []\<rparr>)
          else cm_world demo_cached))"
  by (rule invalidate_removes [OF demo_cached_inv])

text \<open>
  Further result.  Delivery of invalidation events may be repeated and reordered: after any sequence of
  events an instance caches exactly the entries it cached before whose key no event names or
  matches, so two instances that received the same set of events agree on what was invalidated.
\<close>

theorem invalidation_events_converge:
  assumes "l1_inv (cm_l1 s)"
  shows "l1_content (cm_l1 (fold (\<lambda>ev s. cm_handle_invalidate s ev) evs s)) =
    (\<lambda>k. if \<exists>ev. ev \<in> set evs \<and> (k \<in> set (ie_keys ev) \<or>
           ie_pattern ev \<noteq> [] \<and> lru_match (ie_pattern ev) k)
         then None else l1_content (cm_l1 s) k)"
  by (rule handle_events_content [OF assms])

theorem invalidation_events_converge_witness:
  "l1_content (cm_l1 (fold (\<lambda>ev s. cm_handle_invalidate s ev)
      [\<lparr>ie_pattern = ''k*'', ie_keys = [], ie_by = [], ie_at = 0, ie_request = []\<rparr>] demo_cached)) ''k'' = None"
  using invalidation_events_converge [OF demo_cached_inv, of
      "[\<lparr>ie_pattern = ''k*'', ie_keys = [], ie_by = [], ie_at = 0, ie_request = []\<rparr>]"]
  by (simp add: lru_match_def has_suffix_def matches_pattern_def trim_suffix_def has_prefix_def)

text \<open>
  Further result.  An invalidation whose keys are not cached on the instance that receives the request
  is not broadcast: the bus is not called and another instance that does cache the key keeps
  serving it.
\<close>

theorem invalidate_unknown_key_is_local:
  assumes "l1_inv (cm_l1 a)" and "\<not> cm_uses_l2 a" and "l1_content (cm_l1 a) k = None"
    and "l1_inv (cm_l1 b)" and "l1_content (cm_l1 b) k = Some (v, t)" and "now \<le> t" and "k \<noteq> []"
  shows "cm_world (fst (cm_invalidate env now a [k] [])) = cm_world a \<and>
    snd (cm_invalidate env now a [k] []) = 0 \<and>
    (\<exists>r. snd (cm_get env now clk joined b k) = (Some r, None) \<and> gr_value r = v)"
proof -
  have "snd (cm_invalidate env now a [k] []) = 0"
    using cm_invalidate_count [OF assms(1), of env now "[k]" "[]"] assms(3) by (simp add: conj_commute)
  with cm_invalidate_world [of a env now "[k]" "[]"] assms(2)
  have "cm_world (fst (cm_invalidate env now a [k] [])) = cm_world a" by simp
  with \<open>snd (cm_invalidate env now a [k] []) = 0\<close> show ?thesis
    by (simp add: cm_get_hit [OF assms(4,7,5,6)])
qed

theorem invalidate_unknown_key_is_local_witness:
  "cm_world (fst (cm_invalidate demo_env 0 (cm_init 3) [''k''] [])) = cm_world (cm_init 3) \<and>
   snd (cm_invalidate demo_env 0 (cm_init 3) [''k''] []) = 0 \<and>
   (\<exists>r. snd (cm_get demo_env 0 (\<lambda>_. 0) None demo_cached ''k'') = (Some r, None) \<and> gr_value r = ''5'')"
proof (rule invalidate_unknown_key_is_local [OF _ _ _ demo_cached_inv, where t = "100 + 60 * second"])
  show "l1_content (cm_l1 demo_cached) ''k'' = Some (''5'', 100 + 60 * second)"
    using l1.set_same [OF l1_new_refines(1) [of 10000], of 100 "''k''" "''5''" "60 * second"]
    by (simp add: demo_cached_def cm_set_def cm_init_def cm_default_config_def cm_uses_l2_def
        time_add_def dur_mul_def second_def in_i64_def)
qed (simp_all add: cm_init_def l1_new_refines cm_uses_l2_def cm_default_config_def l1_content_def
    lru_find_def second_def)

text \<open>
  Further result.  The level-1 cache under the whole service: whatever sequence of requests, events and
  ticks the service handles, with any remote cache, origin, bus and clock, its structure stays
  sound, it never holds more than the 10000 configured entries, and the reported size is the number
  of entries.
\<close>

theorem service_l1_bounded:
  "let s = cm_run env ops (cm_init w)
   in l1_inv (cm_l1 s) \<and> mr_l1_size (cm_get_metrics s) \<le> 10000 \<and>
      mr_l1_size (cm_get_metrics s) = int (length (l1_view (cm_l1 s)))"
proof -
  let ?s = "cm_run env ops (cm_init w)"
  obtain l1ops where ops: "cm_l1 ?s = fst (l1_run (l1_new 10000) l1ops)"
    using cm_run_l1 [of "cm_init w" env ops]
    by (auto simp: l1_steps_def cm_init_def cm_default_config_def)
  have "int (length (fst (lru_run 10000 [] l1ops))) \<le> max 1 10000"
    by (rule lru_run_length) simp
  with l1_run_from [OF l1_new_refines(1), of 10000 l1ops]
  have "length (l1_view (cm_l1 ?s)) \<le> 10000" by (simp add: ops l1_new_refines)
  then show ?thesis
    using cm_run_inv [of env ops w]
    by (simp add: cm_get_metrics_def Let_def l1_size_view)
qed

text \<open>
  Further result.  The reported hit rate is a number between 0 and 1 in every state a run of fewer than
  \<open>2 ^ 63\<close> operations reaches.
\<close>

theorem service_hit_rate_unit:
  assumes "int (length ops) < 2 ^ 63"
  shows "\<exists>x. mr_hit_rate (cm_get_metrics (cm_run env ops (cm_init w))) = Fin x \<and> 0 \<le> x \<and> x \<le> 1"
proof -
  let ?s = "cm_run env ops (cm_init w)"
  obtain h m where hm: "cm_rates ?s = (h, m)" "0 \<le> h" "0 \<le> m" "h + m < 2 ^ 63"
    using cm_run_rates [of "cm_init w" 0 0 ops env] assms
    by (auto simp: cm_init_def cm_metrics_zero_def m_rates_def)
  then have "add64 h m = h + m" by (intro add64_small) (simp add: in_i64_def)
  moreover have "in_i64 (h + m)" using hm by (simp add: in_i64_def)
  ultimately show ?thesis
    using hm f_ratio_unit [of h "h + m"] by (auto simp: cm_get_metrics_def Let_def m_rates_def)
qed

theorem service_hit_rate_unit_witness:
  "\<exists>x. mr_hit_rate (cm_get_metrics (cm_run demo_env [CmGet 0 (\<lambda>_. 0) None ''k''] (cm_init 0))) = Fin x \<and>
    0 \<le> x \<and> x \<le> 1"
  by (rule service_hit_rate_unit) simp

text \<open>
  Further result.  A lookup that the remote cache or the origin answers counts neither as a hit nor as
  a miss: the hit and miss counters only see level-1 hits and failed lookups, so the reported hit
  rate does not move.
\<close>

theorem fallback_not_counted:
  assumes "snd (l1_get now (cm_l1 s) key) = None" and "cm_get env now clk joined s key = (s1, Some r, None)"
  shows "cm_hits (cm_counters s1) = cm_hits (cm_counters s) \<and>
    cm_misses (cm_counters s1) = cm_misses (cm_counters s) \<and> gr_hit r \<and>
    mr_hit_rate (cm_get_metrics s1) = mr_hit_rate (cm_get_metrics s)"
proof -
  have "cm_rates s1 = cm_rates s \<and> gr_hit r"
    using assms cm_fetch_rates [of env clk "s\<lparr>cm_l1 := fst (l1_get now (cm_l1 s) key)\<rparr>" key]
    by (auto simp: cm_get_def Let_def case_prod_beta entry_to_response_def
        split: if_splits option.splits sum.splits)
  then show ?thesis by (simp add: m_rates_def cm_get_metrics_def Let_def)
qed

theorem fallback_not_counted_witness:
  "let s = cm_set_origin True (cm_init (0::nat)); s1 = fst (cm_get demo_env 0 (\<lambda>i. int i) None s ''k'')
   in cm_hits (cm_counters s1) = cm_hits (cm_counters s) \<and>
    cm_misses (cm_counters s1) = cm_misses (cm_counters s) \<and>
    mr_hit_rate (cm_get_metrics s1) = mr_hit_rate (cm_get_metrics s)"
proof -
  let ?s = "cm_set_origin True (cm_init (0::nat))"
  have get: "cm_get demo_env 0 (\<lambda>i. int i) None ?s ''k'' =
      (fst (cm_get demo_env 0 (\<lambda>i. int i) None ?s ''k''),
       Some (entry_to_response \<lparr>ce_value = ''7'', ce_cached_at = 4, ce_expires_at = 2 + hour,
         ce_source = ''origin''\<rparr> ''origin''), None)"
    by (simp add: cm_evals time_add_def Let_def)
  have "snd (l1_get 0 (cm_l1 ?s) ''k'') = None" by (simp add: cm_evals)
  from fallback_not_counted [OF this get] show ?thesis by (simp add: Let_def)
qed

text \<open>
  Further result.  A time to live beyond about 292 years wraps: \<open>Set\<close> reports success, but the deadline
  lies in the past and the entry is gone at the next lookup.
\<close>

theorem set_ttl_wraps:
  assumes "l1_inv (cm_l1 s)" and "key \<noteq> []" "sr_value req \<noteq> []" and "\<not> cm_uses_l2 s"
    and "9223372037 \<le> sr_ttl req" "sr_ttl req \<le> 18446744073" and "clk 1 \<le> later"
  shows "\<exists>s1 expires. cm_set env clk s key req = (s1, Inr expires) \<and> expires < clk 0 \<and>
    snd (l1_get later (cm_l1 s1) key) = None"
proof -
  define ttl where "ttl = dur_mul (sr_ttl req) second"
  have "(sr_ttl req * 1000000000 + 2 ^ 63) mod 2 ^ 64 =
      (sr_ttl req * 1000000000 - 2 ^ 63 + 2 ^ 64) mod 2 ^ 64" by (simp add: add.commute)
  also have "\<dots> = (sr_ttl req * 1000000000 - 2 ^ 63) mod 2 ^ 64" by (rule mod_add_self2)
  also have "\<dots> = sr_ttl req * 1000000000 - 2 ^ 63"
    using assms(5,6) by (intro mod_pos_pos_trivial) simp_all
  finally have "ttl = sr_ttl req * 1000000000 - 2 ^ 64"
    unfolding ttl_def dur_mul_def second_def i64_def by simp
  then have neg: "ttl < 0" using assms(6) by simp
  have "sr_ttl req > 0" using assms(5) by simp
  with assms(2-4) have "cm_set env clk s key req = (cm_count inc_sets
      (s\<lparr>cm_l1 := l1_set (clk 1) (cm_l1 s) key (sr_value req) ttl\<rparr>), Inr (clk 0 + ttl))"
    unfolding cm_set_def Let_def ttl_def time_add_def cm_uses_l2_def by auto
  with neg assms(7) show ?thesis
    by (simp add: l1.read_own_write [OF assms(1)] time_after_def time_add_def)
qed

theorem set_ttl_wraps_witness:
  "\<exists>s1 expires. cm_set demo_env (\<lambda>_. 5) (cm_init 0) ''k'' \<lparr>sr_value = ''1'', sr_ttl = 9300000000\<rparr> =
     (s1, Inr expires) \<and> expires < 5 \<and> snd (l1_get 5 (cm_l1 s1) ''k'') = None"
  by (rule set_ttl_wraps [where clk = "\<lambda>_. 5"])
    (simp_all add: cm_init_def l1_new_refines cm_uses_l2_def cm_default_config_def)

end
