(* ===== verification/HashRing.thy ===== *)
theory HashRing
  imports Prelude
begin

text \<open>
  The consistent hash ring with virtual nodes, \<open>pkg/utils/hash.go\<close>: FNV-1a on 64-bit words, the
  sorted slice of ring positions, the map from positions to nodes and the map from nodes to weights.
  The lookup is the binary search of the code; the specification is the successor of the key's hash
  on the circle of positions.
\<close>

unbundle bit_operations_syntax

section \<open>State and hash function\<close>

record hash_ring =
  hr_replicas :: int
  hr_keys :: "64 word list"
  hr_ring :: "(64 word \<times> string) list"
  hr_nodes :: "(string \<times> int) list"

definition default_replicas :: int where
  "default_replicas = 150"

definition new_hash_ring :: "int \<Rightarrow> hash_ring" where
  "new_hash_ring replicas =
     \<lparr>hr_replicas = (if replicas \<le> 0 then default_replicas else replicas),
      hr_keys = [], hr_ring = [], hr_nodes = []\<rparr>"

text \<open>The FNV-1a constants of package \<open>hash/fnv\<close>.\<close>

definition fnv_offset :: "64 word" where "fnv_offset = 14695981039346656037"
definition fnv_prime :: "64 word" where "fnv_prime = 1099511628211"

definition hash_key :: "string \<Rightarrow> 64 word" where
  "hash_key key = fold (\<lambda>c h. (h XOR of_nat (of_char c)) * fnv_prime) key fnv_offset"

definition virtual_node :: "string \<Rightarrow> nat \<Rightarrow> string" where
  "virtual_node node i = node @ '':'' @ int_dec (int i)"

definition virtual_hashes :: "int \<Rightarrow> string \<Rightarrow> int \<Rightarrow> 64 word list" where
  "virtual_hashes replicas node weight =
     map (\<lambda>i. hash_key (virtual_node node i)) [0..<nat (i64 (replicas * weight))]"

section \<open>Operations\<close>

definition hr_add_node :: "hash_ring \<Rightarrow> string \<Rightarrow> int \<Rightarrow> hash_ring go_result" where
  "hr_add_node h node weight =
     (if node = [] then Inl (ErrMsg ''nodeID cannot be empty'')
      else
        (let weight = (if weight \<le> 0 then 1 else weight);
             nodes = AList.update node weight (hr_nodes h);
             (ring, keys) = fold (\<lambda>hash (ring, keys). (AList.update hash node ring, keys @ [hash]))
               (virtual_hashes (hr_replicas h) node weight) (hr_ring h, hr_keys h)
         in Inr (h\<lparr>hr_nodes := nodes, hr_ring := ring, hr_keys := sort keys\<rparr>)))"

definition hr_remove_node :: "hash_ring \<Rightarrow> string \<Rightarrow> hash_ring go_result" where
  "hr_remove_node h node =
     (case map_of (hr_nodes h) node of
        None \<Rightarrow> Inl (ErrMsg (''node '' @ node @ '' not found''))
      | Some weight \<Rightarrow>
          (let ring = fold AList.delete (virtual_hashes (hr_replicas h) node weight) (hr_ring h)
           in Inr (h\<lparr>hr_ring := ring, hr_keys := sort (map fst ring),
                hr_nodes := AList.delete node (hr_nodes h)\<rparr>)))"

text \<open>The index where the lookups start: the search, wrapped around.\<close>

definition ring_start :: "64 word list \<Rightarrow> 64 word \<Rightarrow> nat" where
  "ring_start keys hash =
     (let idx = sort_search (length keys) (\<lambda>i. keys ! i \<ge> hash)
      in if idx = length keys then 0 else idx)"

text \<open>A missing key of a Go map reads as the empty string.\<close>

definition ring_at :: "(64 word \<times> string) list \<Rightarrow> 64 word \<Rightarrow> string" where
  "ring_at ring p = (case map_of ring p of None \<Rightarrow> [] | Some node \<Rightarrow> node)"

definition hr_get_node :: "hash_ring \<Rightarrow> string \<Rightarrow> string" where
  "hr_get_node h key =
     (if hr_keys h = [] then []
      else ring_at (hr_ring h) (hr_keys h ! ring_start (hr_keys h) (hash_key key)))"

text \<open>The collecting loop of \<open>GetNNodes\<close> over the positions it visits.\<close>

fun collect_nodes :: "int \<Rightarrow> string list \<Rightarrow> string list \<Rightarrow> string list \<Rightarrow> string list" where
  "collect_nodes n seen result [] = result"
| "collect_nodes n seen result (node # rest) =
     (if int (length result) < n then
        (if node \<notin> set seen then collect_nodes n (node # seen) (result @ [node]) rest
         else collect_nodes n seen result rest)
      else result)"

definition hr_get_n_nodes :: "hash_ring \<Rightarrow> string \<Rightarrow> int \<Rightarrow> string list" where
  "hr_get_n_nodes h key n =
     (if n \<le> 0 \<or> hr_keys h = [] then []
      else
        (let idx = ring_start (hr_keys h) (hash_key key)
         in collect_nodes n [] []
              (map (\<lambda>i. ring_at (hr_ring h) (hr_keys h ! ((idx + i) mod length (hr_keys h))))
                [0..<length (hr_keys h)])))"

definition hr_node_ids :: "hash_ring \<Rightarrow> string list" where
  "hr_node_ids h = map fst (hr_nodes h)"

definition hr_size :: "hash_ring \<Rightarrow> int" where
  "hr_size h = int (length (hr_nodes h))"

section \<open>Invariant\<close>

definition hr_inv :: "hash_ring \<Rightarrow> bool" where
  "hr_inv h \<longleftrightarrow> sorted (hr_keys h) \<and> set (hr_keys h) = dom (map_of (hr_ring h)) \<and>
     distinct (map fst (hr_ring h)) \<and> distinct (map fst (hr_nodes h))"

lemma hr_inv_new: "hr_inv (new_hash_ring n)"
  by (simp add: hr_inv_def new_hash_ring_def)

lemma add_loop:
  assumes "fold (\<lambda>hash (ring, keys). (AList.update hash node ring, keys @ [hash])) hs (ring, keys) =
    (ring', keys')"
  shows "map_of ring' = (\<lambda>p. if p \<in> set hs then Some node else map_of ring p)"
    and "keys' = keys @ hs" and "distinct (map fst ring) \<Longrightarrow> distinct (map fst ring')"
proof -
  have "map_of ring' = (\<lambda>p. if p \<in> set hs then Some node else map_of ring p) \<and>
      keys' = keys @ hs \<and> (distinct (map fst ring) \<longrightarrow> distinct (map fst ring'))"
    using assms
  proof (induction hs arbitrary: ring keys)
    case Nil
    then show ?case by simp
  next
    case (Cons x hs)
    from Cons.IH [of "AList.update x node ring" "keys @ [x]"] Cons.prems show ?case
      by (auto simp: al_simps fun_eq_iff distinct_update)
  qed
  then show "map_of ring' = (\<lambda>p. if p \<in> set hs then Some node else map_of ring p)"
    and "keys' = keys @ hs" and "distinct (map fst ring) \<Longrightarrow> distinct (map fst ring')" by auto
qed

lemma remove_loop:
  "map_of (fold AList.delete hs ring) = (\<lambda>p. if p \<in> set hs then None else map_of ring p)"
  "distinct (map fst ring) \<Longrightarrow> distinct (map fst (fold AList.delete hs ring))"
proof (induction hs arbitrary: ring)
  case (Cons x hs)
  { case 1 from Cons(1) show ?case by (auto simp: al_simps fun_eq_iff) }
  { case 2 from Cons(2) 2 show ?case by (simp add: al_simps) }
qed simp_all

lemma hr_add_node_effect:
  assumes "hr_add_node h node weight = Inr h'" and "hr_inv h"
  shows "hr_inv h'" and "hr_replicas h' = hr_replicas h"
    and "map_of (hr_nodes h') = (map_of (hr_nodes h))(node \<mapsto> if weight \<le> 0 then 1 else weight)"
    and "map_of (hr_ring h') = (\<lambda>p. if p \<in> set (virtual_hashes (hr_replicas h) node
           (if weight \<le> 0 then 1 else weight)) then Some node else map_of (hr_ring h) p)"
proof -
  let ?w = "if weight \<le> 0 then 1 else weight"
  let ?hs = "virtual_hashes (hr_replicas h) node ?w"
  obtain ring keys where l: "fold (\<lambda>hash (ring, keys). (AList.update hash node ring, keys @ [hash]))
      ?hs (hr_ring h, hr_keys h) = (ring, keys)" by fastforce
  with assms(1) have h': "h' = h\<lparr>hr_nodes := AList.update node ?w (hr_nodes h), hr_ring := ring,
      hr_keys := sort keys\<rparr>"
    by (simp add: hr_add_node_def split: if_splits)
  note loop = add_loop [OF l]
  have "dom (map_of ring) = set ?hs \<union> dom (map_of (hr_ring h))"
    by (auto simp: loop(1) split: if_splits)
  then show "hr_inv h'"
    using assms(2) loop(3) by (simp add: hr_inv_def h' loop(2) distinct_update Un_commute)
  show "hr_replicas h' = hr_replicas h"
    and "map_of (hr_nodes h') = (map_of (hr_nodes h))(node \<mapsto> ?w)"
    and "map_of (hr_ring h') = (\<lambda>p. if p \<in> set ?hs then Some node else map_of (hr_ring h) p)"
    by (simp_all add: h' loop(1) al_simps)
qed

lemma hr_remove_node_effect:
  assumes "hr_remove_node h node = Inr h'" and "hr_inv h"
  shows "hr_inv h'" and "hr_replicas h' = hr_replicas h"
    and "\<exists>weight. map_of (hr_nodes h) node = Some weight \<and>
      map_of (hr_nodes h') = (map_of (hr_nodes h))(node := None) \<and>
      map_of (hr_ring h') = (\<lambda>p. if p \<in> set (virtual_hashes (hr_replicas h) node weight) then None
        else map_of (hr_ring h) p)"
proof -
  obtain weight where w: "map_of (hr_nodes h) node = Some weight"
    using assms(1) by (auto simp: hr_remove_node_def split: option.splits)
  let ?ring = "fold AList.delete (virtual_hashes (hr_replicas h) node weight) (hr_ring h)"
  have h': "h' = h\<lparr>hr_ring := ?ring, hr_keys := sort (map fst ?ring),
      hr_nodes := AList.delete node (hr_nodes h)\<rparr>"
    using assms(1) w by (simp add: hr_remove_node_def Let_def)
  show "hr_inv h'"
    using assms(2) by (simp add: hr_inv_def h' remove_loop(2) al_delete_distinct
        dom_map_of_conv_image_fst)
  show "hr_replicas h' = hr_replicas h" by (simp add: h')
  show "\<exists>weight. map_of (hr_nodes h) node = Some weight \<and>
      map_of (hr_nodes h') = (map_of (hr_nodes h))(node := None) \<and>
      map_of (hr_ring h') = (\<lambda>p. if p \<in> set (virtual_hashes (hr_replicas h) node weight) then None
        else map_of (hr_ring h) p)"
    using w by (auto simp: h' remove_loop(1) al_simps)
qed

section \<open>The lookup finds the successor on the circle\<close>

definition successor :: "64 word set \<Rightarrow> 64 word \<Rightarrow> 64 word" where
  "successor S x = (if \<exists>k \<in> S. x \<le> k then Min {k \<in> S. x \<le> k} else Min S)"

definition owner :: "hash_ring \<Rightarrow> 64 word \<Rightarrow> string" where
  "owner h x = ring_at (hr_ring h) (successor (dom (map_of (hr_ring h))) x)"

lemma ring_start_less: "keys \<noteq> [] \<Longrightarrow> sorted keys \<Longrightarrow> ring_start keys x < length keys"
  using length_takeWhile_le [of "\<lambda>y. y < x" keys]
  by (auto simp: ring_start_def Let_def sort_search_sorted)

lemma ring_start_successor:
  assumes "sorted keys" "keys \<noteq> []"
  shows "keys ! ring_start keys x = successor (set keys) x"
proof -
  let ?p = "length (takeWhile (\<lambda>y. y < x) keys)"
  show ?thesis
  proof (cases "?p = length keys")
    case True
    then have "takeWhile (\<lambda>y. y < x) keys = keys"
      by (metis takeWhile_eq_take take_all order_refl)
    then have "\<not> (\<exists>k \<in> set keys. x \<le> k)" by (metis not_le set_takeWhileD)
    moreover have "keys ! 0 = Min (set keys)"
      using assms by (cases keys) (auto simp: min_absorb1 intro!: Min_eqI [symmetric])
    ultimately show ?thesis
      using True assms(1) by (auto simp: ring_start_def Let_def sort_search_sorted successor_def)
  next
    case False
    then have p: "?p < length keys" using length_takeWhile_le le_neq_implies_less by blast
    have ge: "x \<le> keys ! ?p" using nth_length_takeWhile [OF p] by simp
    moreover have "keys ! ?p \<le> k" if "k \<in> set keys" "x \<le> k" for k
    proof -
      obtain i where i: "i < length keys" "k = keys ! i" using \<open>k \<in> set keys\<close> by (metis in_set_conv_nth)
      have "?p \<le> i"
      proof (rule ccontr)
        assume "\<not> ?p \<le> i"
        then have "keys ! i < x" by (metis not_le nth_mem set_takeWhileD takeWhile_nth)
        with i that show False by simp
      qed
      with i assms(1) show ?thesis by (simp add: sorted_nth_mono)
    qed
    ultimately have "Min {k \<in> set keys. x \<le> k} = keys ! ?p"
      using p by (intro Min_eqI) auto
    moreover have "\<exists>k \<in> set keys. x \<le> k" using ge p nth_mem by blast
    ultimately show ?thesis
      using False assms(1) by (auto simp: ring_start_def Let_def sort_search_sorted successor_def)
  qed
qed

lemma hr_get_node_owner:
  assumes "hr_inv h"
  shows "hr_get_node h key = (if hr_ring h = [] then [] else owner h (hash_key key))"
proof -
  have "hr_keys h = [] \<longleftrightarrow> hr_ring h = []"
  proof -
    have "set (hr_keys h) = {} \<longleftrightarrow> hr_ring h = []"
      using assms by (simp add: hr_inv_def dom_map_of_conv_image_fst)
    then show ?thesis by simp
  qed
  then show ?thesis
    using assms ring_start_successor [of "hr_keys h" "hash_key key"]
    by (auto simp: hr_get_node_def owner_def hr_inv_def)
qed

lemma successor_in: "finite S \<Longrightarrow> S \<noteq> {} \<Longrightarrow> successor S x \<in> S"
proof -
  assume S: "finite S" "S \<noteq> {}"
  show ?thesis
  proof (cases "\<exists>k \<in> S. x \<le> k")
    case True
    then have "Min {k \<in> S. x \<le> k} \<in> {k \<in> S. x \<le> k}" using S by (intro Min_in) auto
    with True show ?thesis by (simp add: successor_def)
  qed (use S in \<open>auto simp: successor_def\<close>)
qed

text \<open>The successor in a subset that contains it is the same.\<close>

lemma successor_subset:
  assumes "finite S" "T \<subseteq> S" "successor S x \<in> T"
  shows "successor T x = successor S x"
proof (cases "\<exists>k \<in> S. x \<le> k")
  case True
  let ?m = "Min {k \<in> S. x \<le> k}"
  have m: "successor S x = ?m" using True by (simp add: successor_def)
  have "?m \<in> {k \<in> S. x \<le> k}" using True assms(1) by (intro Min_in) auto
  then have "x \<le> ?m" by simp
  moreover have "Min {k \<in> T. x \<le> k} = ?m"
    using assms \<open>x \<le> ?m\<close> m by (intro Min_eqI) (auto intro: finite_subset Min_le)
  ultimately show ?thesis using assms(3) m by (auto simp: successor_def)
next
  case False
  then have "successor S x = Min S" "\<not> (\<exists>k \<in> T. x \<le> k)" using assms(2) by (auto simp: successor_def)
  moreover have "Min T = Min S"
    using assms calculation(1) by (intro Min_eqI) (auto intro: finite_subset Min_le)
  ultimately show ?thesis using False by (simp add: successor_def)
qed

section \<open>The nodes of a replica set\<close>

lemma collect_nodes_uniq:
  assumes "set seen = set result"
  shows "collect_nodes n seen result xs = result @ take (nat n - length result) (uniq result xs)"
  using assms
proof (induction n seen result xs rule: collect_nodes.induct)
  case (1 n seen result)
  then show ?case by simp
next
  case (2 n seen result node rest)
  show ?case
  proof (cases "int (length result) < n")
    case True
    show ?thesis
    proof (cases "node \<in> set seen")
      case True
      then show ?thesis using 2 \<open>int (length result) < n\<close> by auto
    next
      case False
      then have "collect_nodes n (node # seen) (result @ [node]) rest =
          (result @ [node]) @ take (nat n - length (result @ [node])) (uniq (result @ [node]) rest)"
        using 2 True by simp
      moreover have "uniq (result @ [node]) rest = uniq (node # result) rest"
        by (rule uniq_cong) simp
      moreover have "nat n - length result = Suc (nat n - length (result @ [node]))"
        using True by simp
      ultimately show ?thesis using False True 2(3) by simp
    qed
  next
    case False
    then show ?thesis by simp
  qed
qed

lemma rotation_set:
  assumes "xs \<noteq> []" "i < length xs"
  shows "(\<lambda>k. (i + k) mod length xs) ` {0..<length xs} = {0..<length xs}"
proof (rule set_eqI, rule iffI)
  fix j assume j: "j \<in> {0..<length xs}"
  have "(i + (j + length xs - i) mod length xs) mod length xs = (i + (j + length xs - i)) mod length xs"
    by (rule mod_add_right_eq)
  also have "\<dots> = j" using assms(2) j by simp
  finally have "j = (i + (j + length xs - i) mod length xs) mod length xs" by simp
  then show "j \<in> (\<lambda>k. (i + k) mod length xs) ` {0..<length xs}"
    using assms(1) by (intro image_eqI [of _ _ "(j + length xs - i) mod length xs"]) auto
qed (use assms in auto)

lemma get_n_nodes_uniq:
  assumes "hr_inv h" "0 < n" "hr_ring h \<noteq> []"
  shows "\<exists>xs. hr_get_n_nodes h key n = take (nat n) (uniq [] (hr_get_node h key # xs)) \<and>
    set (hr_get_node h key # xs) = ran (map_of (hr_ring h))"
proof -
  let ?ks = "hr_keys h"
  let ?i = "ring_start ?ks (hash_key key)"
  let ?at = "\<lambda>k. ring_at (hr_ring h) (?ks ! ((?i + k) mod length ?ks))"
  have ks: "sorted ?ks" "set ?ks = dom (map_of (hr_ring h))" using assms(1) by (auto simp: hr_inv_def)
  then have ne: "?ks \<noteq> []" using assms(3) by (auto simp: dom_map_of_conv_image_fst)
  have i: "?i < length ?ks" by (rule ring_start_less [OF ne ks(1)])
  have split: "map ?at [0..<length ?ks] = hr_get_node h key # map ?at [1..<length ?ks]"
    using ne i by (simp add: upt_conv_Cons hr_get_node_def)
  have "set (map ?at [0..<length ?ks]) =
      (\<lambda>j. ring_at (hr_ring h) (?ks ! j)) ` (\<lambda>k. (?i + k) mod length ?ks) ` {0..<length ?ks}"
    by (auto simp: image_image)
  also have "\<dots> = (\<lambda>j. ring_at (hr_ring h) (?ks ! j)) ` {0..<length ?ks}"
    unfolding rotation_set [OF ne i] ..
  also have "\<dots> = ring_at (hr_ring h) ` set ?ks"
    using nth_image [of "length ?ks" ?ks] by (simp add: image_image [symmetric, of _ "(!) ?ks"])
  also have "\<dots> = ran (map_of (hr_ring h))"
    unfolding ks(2) by (force simp: ran_def ring_at_def image_iff)
  finally have "set (map ?at [0..<length ?ks]) = ran (map_of (hr_ring h))" .
  moreover have "hr_get_n_nodes h key n = take (nat n) (uniq [] (map ?at [0..<length ?ks]))"
    using assms(2) ne by (simp add: hr_get_n_nodes_def Let_def collect_nodes_uniq)
  ultimately show ?thesis unfolding split by blast
qed

section \<open>Runs and properties\<close>

datatype ring_op = RingAdd string int | RingRemove string

text \<open>An operation that reports an error leaves the ring as it was.\<close>

fun ring_apply :: "ring_op \<Rightarrow> hash_ring \<Rightarrow> hash_ring" where
  "ring_apply (RingAdd node weight) h =
     (case hr_add_node h node weight of Inl _ \<Rightarrow> h | Inr h' \<Rightarrow> h')"
| "ring_apply (RingRemove node) h = (case hr_remove_node h node of Inl _ \<Rightarrow> h | Inr h' \<Rightarrow> h')"

definition ring_run :: "int \<Rightarrow> ring_op list \<Rightarrow> hash_ring" where
  "ring_run replicas ops = fold ring_apply ops (new_hash_ring replicas)"

lemma ring_run_inv: "hr_inv (ring_run replicas ops)"
  unfolding ring_run_def
proof (rule fold_invariant)
  show "hr_inv (ring_apply op h)" if "hr_inv h" for op h
    using that hr_add_node_effect(1) hr_remove_node_effect(1)
    by (cases op) (auto split: sum.split)
qed (rule hr_inv_new)

lemma finite_ring: "finite (dom (map_of (r :: (64 word \<times> string) list)))"
  by (rule finite_dom_map_of)

text \<open>
  Property C13.  The lookup is correct for every ring that additions and removals build: the binary
  search with its wrap-around returns the node at the first ring position at or after the key's
  hash, or at the smallest position when there is none, and the empty string for an empty ring.
\<close>

theorem get_node_successor:
  "hr_get_node (ring_run replicas ops) key =
     (let ring = map_of (hr_ring (ring_run replicas ops)); positions = dom ring;
          after = {p. p \<in> positions \<and> hash_key key \<le> p}
      in if positions = {} then []
         else the (ring (if after = {} then Min positions else Min after)))"
proof -
  let ?h = "ring_run replicas ops"
  let ?M = "map_of (hr_ring ?h)"
  have "hr_ring ?h = [] \<longleftrightarrow> dom ?M = {}" by (simp add: dom_map_of_conv_image_fst)
  moreover have "successor (dom ?M) (hash_key key) =
      (if {p. p \<in> dom ?M \<and> hash_key key \<le> p} = {} then Min (dom ?M)
       else Min {p. p \<in> dom ?M \<and> hash_key key \<le> p})"
    by (auto simp: successor_def)
  moreover have "ring_at (hr_ring ?h) p = the (?M p)" if "p \<in> dom ?M" for p
    using that by (auto simp: ring_at_def)
  ultimately show ?thesis
    using successor_in [OF finite_ring, of "hr_ring ?h" "hash_key key"]
    by (simp add: hr_get_node_owner [OF ring_run_inv] owner_def Let_def)
qed

text \<open>
  Property C14.  Consistent hashing: adding a node moves keys only to the added node.  In every ring
  that additions and removals build, a key is looked up as before or at the new node.
\<close>

theorem add_node_moves_only_to_new:
  "case hr_add_node (ring_run replicas ops) node weight of
     Inl _ \<Rightarrow> node = []
   | Inr h' \<Rightarrow> hr_get_node h' key = node \<or> hr_get_node h' key = hr_get_node (ring_run replicas ops) key"
proof (cases "hr_add_node (ring_run replicas ops) node weight")
  case (Inl e)
  then show ?thesis by (auto simp: hr_add_node_def case_prod_beta Let_def split: if_splits)
next
  case (Inr h')
  let ?h = "ring_run replicas ops"
  let ?x = "hash_key key"
  obtain V where V: "map_of (hr_ring h') = (\<lambda>p. if p \<in> V then Some node else map_of (hr_ring ?h) p)"
    using hr_add_node_effect(4) [OF Inr ring_run_inv] by blast
  note eff = hr_add_node_effect(1) [OF Inr ring_run_inv]
  let ?S = "dom (map_of (hr_ring h'))"
  show ?thesis
  proof (cases "hr_ring h' = []")
    case True
    then have "map_of (hr_ring ?h) p = None" for p
      using fun_cong [OF V, of p] by (cases "p \<in> V") simp_all
    then have "map_of (hr_ring ?h) = Map.empty" by (rule ext)
    then have "hr_ring ?h = []" by simp
    with True Inr show ?thesis
      by (simp add: hr_get_node_owner [OF eff] hr_get_node_owner [OF ring_run_inv])
  next
    case False
    then have p: "successor ?S ?x \<in> ?S"
      by (intro successor_in finite_ring) (simp add: dom_map_of_conv_image_fst)
    show ?thesis
    proof (cases "successor ?S ?x \<in> V")
      case True
      with False Inr V show ?thesis
        by (simp add: hr_get_node_owner [OF eff] owner_def ring_at_def)
    next
      case notV: False
      then have old: "successor ?S ?x \<in> dom (map_of (hr_ring ?h))" using p V by (auto split: if_splits)
      then have "successor (dom (map_of (hr_ring ?h))) ?x = successor ?S ?x"
        using V by (intro successor_subset finite_ring) (auto split: if_splits)
      moreover have "hr_ring ?h \<noteq> []" using old by auto
      ultimately show ?thesis
        using False Inr V notV
        by (simp add: hr_get_node_owner [OF eff] hr_get_node_owner [OF ring_run_inv] owner_def ring_at_def)
    qed
  qed
qed

text \<open>
  Property C15.  Removing a node moves only the keys that were looked up at it, as long as no virtual
  node of the removed node shares its position with another node.
\<close>

theorem remove_node_keeps_others:
  assumes "hr_remove_node (ring_run replicas ops) node = Inr h'"
    and "map_of (hr_nodes (ring_run replicas ops)) node = Some weight"
    and "\<And>p m. p \<in> set (virtual_hashes (hr_replicas (ring_run replicas ops)) node weight) \<Longrightarrow>
      map_of (hr_ring (ring_run replicas ops)) p = Some m \<Longrightarrow> m = node"
    and "hr_get_node (ring_run replicas ops) key \<noteq> node"
  shows "hr_get_node h' key = hr_get_node (ring_run replicas ops) key"
proof -
  let ?h = "ring_run replicas ops"
  let ?x = "hash_key key"
  let ?V = "set (virtual_hashes (hr_replicas ?h) node weight)"
  have M': "map_of (hr_ring h') = (\<lambda>p. if p \<in> ?V then None else map_of (hr_ring ?h) p)"
    using hr_remove_node_effect(3) [OF assms(1) ring_run_inv] assms(2) by auto
  note eff = hr_remove_node_effect(1) [OF assms(1) ring_run_inv]
  let ?S = "dom (map_of (hr_ring ?h))"
  show ?thesis
  proof (cases "hr_ring ?h = []")
    case True
    then have "dom (map_of (hr_ring h')) = {}" using M' by (auto simp: fun_eq_iff split: if_splits)
    then have "hr_ring h' = []" by (simp add: dom_map_of_conv_image_fst)
    with True show ?thesis
      by (simp add: hr_get_node_owner [OF eff] hr_get_node_owner [OF ring_run_inv])
  next
    case False
    then have p: "successor ?S ?x \<in> ?S"
      by (intro successor_in finite_ring) (simp add: dom_map_of_conv_image_fst)
    then obtain m where m: "map_of (hr_ring ?h) (successor ?S ?x) = Some m" by blast
    have "hr_get_node ?h key = m"
      using False m by (simp add: hr_get_node_owner [OF ring_run_inv] owner_def ring_at_def)
    then have notV: "successor ?S ?x \<notin> ?V" using assms(3) [OF _ m] assms(4) by auto
    with m have T: "successor ?S ?x \<in> dom (map_of (hr_ring h'))" by (simp add: M' dom_def)
    then have "successor (dom (map_of (hr_ring h'))) ?x = successor ?S ?x"
      using M' by (intro successor_subset finite_ring) (auto split: if_splits)
    moreover have "hr_ring h' \<noteq> []" using T by auto
    ultimately show ?thesis
      using False notV M'
      by (simp add: hr_get_node_owner [OF eff] hr_get_node_owner [OF ring_run_inv] owner_def ring_at_def)
  qed
qed

text \<open>
  Property C16.  Replica sets: \<open>GetNNodes\<close> returns distinct nodes of the ring, the node of \<open>GetNode\<close>
  first, and exactly \<open>n\<close> of them unless the ring has fewer different nodes.
\<close>

theorem get_n_nodes_replicas:
  assumes "0 < n" and "hr_ring (ring_run replicas ops) \<noteq> []"
  shows "let h = ring_run replicas ops; ns = hr_get_n_nodes h key n; owners = ran (map_of (hr_ring h))
    in distinct ns \<and> set ns \<subseteq> owners \<and> hd ns = hr_get_node h key \<and>
       length ns = min (nat n) (card owners)"
proof -
  let ?h = "ring_run replicas ops"
  obtain xs where xs: "hr_get_n_nodes ?h key n = take (nat n) (uniq [] (hr_get_node ?h key # xs))"
    "set (hr_get_node ?h key # xs) = ran (map_of (hr_ring ?h))"
    using get_n_nodes_uniq [OF ring_run_inv assms] by blast
  have "distinct (hr_get_n_nodes ?h key n)" unfolding xs(1) by (intro distinct_take distinct_uniq)
  moreover have "set (hr_get_n_nodes ?h key n) \<subseteq> ran (map_of (hr_ring ?h))"
    using set_take_subset [of "nat n" "uniq [] (hr_get_node ?h key # xs)"] xs(2)
    unfolding xs(1) by (auto simp: set_uniq)
  moreover have "hd (hr_get_n_nodes ?h key n) = hr_get_node ?h key"
    using assms(1) unfolding xs(1) by (cases "nat n") auto
  moreover have "length (hr_get_n_nodes ?h key n) = min (nat n) (card (ran (map_of (hr_ring ?h))))"
    unfolding xs(1) length_take length_uniq xs(2) by (rule min.commute)
  ultimately show ?thesis by (simp add: Let_def)
qed


text \<open>Concrete rings, for the witnesses: the positions are computed by the hash function.\<close>

lemma hash_values:
  "hash_key ''a:0'' = 16600799398055681206" "hash_key ''b:0'' = 18427309213866628167"
  "hash_key ''a:1'' \<noteq> hash_key ''a:0''" "hash_key ''b:0'' \<noteq> hash_key ''a:0''"
  "hash_key ''a:0'' \<le> hash_key ''b:0''" "hash_key ''k'' \<le> hash_key ''a:0''"
  by (simp_all add: hash_key_def fnv_offset_def fnv_prime_def word_le_nat_alt)

lemma virtual_hashes_demo:
  "virtual_hashes 1 n 1 = [hash_key (n @ '':0'')]"
  "virtual_hashes 1 n 2 = [hash_key (n @ '':0''), hash_key (n @ '':1'')]"
  by (simp_all add: virtual_hashes_def virtual_node_def int_dec_def nat_dec_digit digit_chars
      in_i64_def numeral_2_eq_2)

lemmas ring_demo = ring_run_def new_hash_ring_def hr_add_node_def hr_remove_node_def
  virtual_hashes_demo

lemma ring_ab: "ring_run 1 [RingAdd ''a'' 1, RingAdd ''b'' 1] =
  \<lparr>hr_replicas = 1, hr_keys = [hash_key ''a:0'', hash_key ''b:0''],
   hr_ring = [(hash_key ''a:0'', ''a''), (hash_key ''b:0'', ''b'')], hr_nodes = [(''a'', 1), (''b'', 1)]\<rparr>"
  using hash_values(4,5) by (simp add: ring_demo)

lemma get_node_ab: "hr_get_node (ring_run 1 [RingAdd ''a'' 1, RingAdd ''b'' 1]) ''k'' = ''a''"
  using leD [OF hash_values(6)] sort_search_sorted [of "[hash_key ''a:0'', hash_key ''b:0'']" "hash_key ''k''"]
    hash_values(5)
  by (simp add: ring_ab hr_get_node_def ring_start_def ring_at_def)

theorem remove_node_keeps_others_witness:
  "\<exists>h'. hr_remove_node (ring_run 1 [RingAdd ''a'' 1, RingAdd ''b'' 1]) ''b'' = Inr h' \<and>
     hr_get_node h' ''k'' = hr_get_node (ring_run 1 [RingAdd ''a'' 1, RingAdd ''b'' 1]) ''k''"
proof -
  let ?r = "ring_run 1 [RingAdd ''a'' 1, RingAdd ''b'' 1]"
  obtain h' where h': "hr_remove_node ?r ''b'' = Inr h'"
    by (simp add: ring_ab hr_remove_node_def Let_def)
  moreover have "hr_get_node h' ''k'' = hr_get_node ?r ''k''"
    by (rule remove_node_keeps_others [OF h', where weight = 1])
      (auto simp: get_node_ab, auto simp: ring_ab virtual_hashes_demo hash_values(4) split: if_splits)
  ultimately show ?thesis by blast
qed

theorem get_n_nodes_replicas_witness:
  "let h = ring_run 1 [RingAdd ''a'' 1, RingAdd ''b'' 1]; ns = hr_get_n_nodes h ''k'' 2;
       owners = ran (map_of (hr_ring h))
    in distinct ns \<and> set ns \<subseteq> owners \<and> hd ns = hr_get_node h ''k'' \<and>
       length ns = min (nat 2) (card owners)"
  by (rule get_n_nodes_replicas) (simp_all add: ring_ab)

text \<open>
  Further result.  Adding a node again with a smaller weight loses track of its old virtual nodes:
  after the node is removed, no node is registered, and yet every key is still routed to it.
\<close>

theorem readded_node_survives_removal:
  "let h = ring_run 1 [RingAdd ''a'' 2, RingAdd ''a'' 1, RingRemove ''a'']
   in hr_size h = 0 \<and> hr_node_ids h = [] \<and> hr_get_node h key = ''a''"
proof -
  have "ring_run 1 [RingAdd ''a'' 2, RingAdd ''a'' 1, RingRemove ''a''] =
    \<lparr>hr_replicas = 1, hr_keys = [hash_key ''a:1''], hr_ring = [(hash_key ''a:1'', ''a'')], hr_nodes = []\<rparr>"
    using hash_values(3) by (simp add: ring_demo)
  moreover have "ring_start [x] y = 0" for x y
    using ring_start_less [of "[x]" y] by simp
  ultimately show ?thesis
    by (simp add: hr_size_def hr_node_ids_def hr_get_node_def ring_at_def)
qed

end
