(* ===== verification/Regexp.thy ===== *)
theory Regexp
  imports Prelude
begin

text \<open>
  What the pattern packages use of Go's \<open>regexp\<close>.  The patterns the code builds itself are anchored
  sequences of ASCII literals, escaped punctuation, \<open>.\<close> and \<open>.*\<close>; this fragment is parsed and
  matched by the definitions below, with \<open>.\<close> reading one UTF-8 encoded character other than a
  newline.  Every other regular expression (a user may pass one through) is compiled by the
  parameter \<open>ext\<close>, the rest of the library.
\<close>

section \<open>Characters\<close>

definition byte :: "char \<Rightarrow> nat" where
  "byte c = of_char c"

definition newline :: char where
  "newline = CHR 0x0A"

definition continuation :: "nat \<Rightarrow> nat \<Rightarrow> char \<Rightarrow> bool" where
  "continuation lo hi c \<longleftrightarrow> lo \<le> byte c \<and> byte c \<le> hi"

text \<open>\<open>utf8.DecodeRuneInString\<close>: the number of bytes of the first character; an invalid sequence is
  one byte.\<close>

fun cont_len :: "nat \<Rightarrow> nat \<Rightarrow> nat \<Rightarrow> string \<Rightarrow> nat" where
  "cont_len need lo hi s =
     (if need = 2 then (if 1 \<le> length s \<and> continuation lo hi (s ! 0) then 2 else 1)
      else if need = 3 then
        (if 2 \<le> length s \<and> continuation lo hi (s ! 0) \<and> continuation 128 191 (s ! 1) then 3 else 1)
      else (if 3 \<le> length s \<and> continuation lo hi (s ! 0) \<and> continuation 128 191 (s ! 1) \<and>
               continuation 128 191 (s ! 2) then 4 else 1))"

fun rune_len :: "string \<Rightarrow> nat" where
  "rune_len [] = 0"
| "rune_len (c # s) =
     (let b = byte c in
      if b < 194 then 1
      else if b < 224 then cont_len 2 128 191 s
      else if b = 224 then cont_len 3 160 191 s
      else if b = 237 then cont_len 3 128 159 s
      else if b < 240 then cont_len 3 128 191 s
      else if b = 240 then cont_len 4 144 191 s
      else if b < 244 then cont_len 4 128 191 s
      else if b = 244 then cont_len 4 128 143 s
      else 1)"

lemma rune_len_pos: "s \<noteq> [] \<Longrightarrow> 0 < rune_len s"
  by (cases s) (auto simp: Let_def)

lemma rune_len_ascii: "byte c < 128 \<Longrightarrow> rune_len (c # s) = 1"
  by (simp add: Let_def)

section \<open>The fragment\<close>

datatype re_item = Lit char | AnyRune | AnyRunes

definition re_special :: "char list" where
  "re_special = [CHR 0x5C, CHR ''.'', CHR ''+'', CHR ''*'', CHR ''?'', CHR ''('', CHR '')'',
     CHR ''|'', CHR ''['', CHR '']'', CHR ''{'', CHR ''}'', CHR ''^'', CHR ''$'']"

definition is_ascii :: "char \<Rightarrow> bool" where
  "is_ascii c \<longleftrightarrow> byte c < 128"

text \<open>The body between the anchors.\<close>

fun re_items :: "string \<Rightarrow> re_item list option" where
  "re_items [] = Some []"
| "re_items [c] =
     (if c = CHR ''.'' then Some [AnyRune]
      else if c \<in> set re_special \<or> \<not> is_ascii c then None else Some [Lit c])"
| "re_items (c # d # s) =
     (if c = CHR 0x5C then
        (if d \<in> set re_special then map_option ((#) (Lit d)) (re_items s) else None)
      else if c = CHR ''.'' then
        (if d = CHR ''*'' then map_option ((#) AnyRunes) (re_items s)
         else map_option ((#) AnyRune) (re_items (d # s)))
      else if c \<in> set re_special \<or> \<not> is_ascii c then None
      else map_option ((#) (Lit c)) (re_items (d # s)))"

definition re_parse :: "string \<Rightarrow> re_item list option" where
  "re_parse s = (if 2 \<le> length s \<and> hd s = CHR ''^'' \<and> last s = CHR ''$''
     then re_items (butlast (tl s)) else None)"

function re_match :: "re_item list \<Rightarrow> string \<Rightarrow> bool" where
  "re_match [] s \<longleftrightarrow> s = []"
| "re_match (Lit c # items) s \<longleftrightarrow> s \<noteq> [] \<and> hd s = c \<and> re_match items (tl s)"
| "re_match (AnyRune # items) s \<longleftrightarrow>
     (if s = [] \<or> hd s = newline then False else re_match items (drop (rune_len s) s))"
| "re_match (AnyRunes # items) s \<longleftrightarrow>
     re_match items s \<or>
     (if s = [] \<or> hd s = newline then False
      else re_match (AnyRunes # items) (drop (rune_len s) s))"
  by pat_completeness auto
termination
  by (relation "measures [\<lambda>(items, s). length items, \<lambda>(items, s). length s]")
    (auto simp: rune_len_pos)

declare re_match.simps(4) [simp del]

text \<open>A compiled expression is the set of strings it matches.\<close>

type_synonym regex = "string \<Rightarrow> bool"

definition regexp_compile :: "(string \<Rightarrow> regex go_result) \<Rightarrow> string \<Rightarrow> regex go_result" where
  "regexp_compile ext s = (case re_parse s of Some items \<Rightarrow> Inr (re_match items) | None \<Rightarrow> ext s)"

section \<open>Rendering and parsing\<close>

text \<open>The pieces the code emits for one item.\<close>

definition re_piece :: "re_item \<Rightarrow> string" where
  "re_piece i = (case i of AnyRunes \<Rightarrow> ''.*'' | AnyRune \<Rightarrow> ''.''
     | Lit c \<Rightarrow> if c \<in> set re_special then [CHR 0x5C, c] else [c])"

definition re_ok :: "re_item \<Rightarrow> bool" where
  "re_ok i \<longleftrightarrow> (case i of Lit c \<Rightarrow> is_ascii c | _ \<Rightarrow> True)"

lemma re_piece_head:
  "i \<noteq> AnyRunes \<or> True \<Longrightarrow> re_piece i \<noteq> [] \<and> hd (re_piece i) \<noteq> CHR ''*''"
  by (cases i) (auto simp: re_piece_def re_special_def)

lemma re_items_Cons:
  assumes "re_ok i" "s = [] \<or> hd s \<noteq> CHR ''*''"
  shows "re_items (re_piece i @ s) = map_option ((#) i) (re_items s)"
proof (cases i)
  case (Lit c)
  then show ?thesis
    using assms by (cases s) (auto simp: re_piece_def re_ok_def re_special_def is_ascii_def)
next
  case AnyRune
  then show ?thesis using assms(2) by (cases s) (auto simp: re_piece_def)
next
  case AnyRunes
  then show ?thesis by (simp add: re_piece_def)
qed

lemma re_items_pieces:
  "\<forall>i \<in> set is. re_ok i \<Longrightarrow> re_items (concat (map re_piece is)) = Some is"
proof (induction "is")
  case (Cons i "is")
  have "concat (map re_piece is) = [] \<or> hd (concat (map re_piece is)) \<noteq> CHR ''*''"
    using re_piece_head by (cases "is") auto
  with Cons show ?case by (simp add: re_items_Cons)
qed simp

lemma re_parse_pieces:
  assumes "\<forall>i \<in> set is. re_ok i"
  shows "regexp_compile ext (''^'' @ concat (map re_piece is) @ ''$'') = Inr (re_match is)"
  by (simp add: regexp_compile_def re_parse_def re_items_pieces [OF assms] butlast_append)

section \<open>Globs\<close>

text \<open>The meaning of a glob: \<open>*\<close> stands for any characters but newlines, \<open>?\<close> for one, and every
  other character for itself.\<close>

definition glob_item :: "char \<Rightarrow> re_item" where
  "glob_item c = (if c = CHR ''*'' then AnyRunes else if c = CHR ''?'' then AnyRune else Lit c)"

definition star_item :: "char \<Rightarrow> re_item" where
  "star_item c = (if c = CHR ''*'' then AnyRunes else Lit c)"

definition glob :: "string \<Rightarrow> string \<Rightarrow> bool" where
  "glob p = re_match (map glob_item p)"

definition star_glob :: "string \<Rightarrow> string \<Rightarrow> bool" where
  "star_glob p = re_match (map star_item p)"

lemma re_match_lits: "re_match (map Lit p @ items) s \<longleftrightarrow> (\<exists>r. s = p @ r \<and> re_match items r)"
proof (induction p arbitrary: s)
  case Nil
  then show ?case by simp
next
  case (Cons c p)
  then show ?case by (cases s) auto
qed

lemma re_match_all:
  assumes "newline \<notin> set s"
  shows "re_match [AnyRunes] s"
  using assms
proof (induction "length s" arbitrary: s rule: less_induct)
  case less
  show ?case
  proof (cases "s = []")
    case False
    with less.prems have "hd s \<noteq> newline" by (metis hd_in_set)
    moreover have "re_match [AnyRunes] (drop (rune_len s) s)"
      using less False rune_len_pos [OF False] by (intro less.hyps) (auto dest: in_set_dropD)
    ultimately show ?thesis using False by (subst re_match.simps) simp
  qed (subst re_match.simps, simp)
qed

lemma glob_no_star: "CHR ''*'' \<notin> set p \<Longrightarrow> map star_item p = map Lit p"
  by (auto simp: star_item_def)

text \<open>A prefix followed by a star.\<close>

lemma star_glob_prefix:
  assumes "CHR ''*'' \<notin> set p" "newline \<notin> set s"
  shows "star_glob (p @ ''*'') s \<longleftrightarrow> has_prefix s p"
proof -
  have "star_glob (p @ ''*'') s \<longleftrightarrow> (\<exists>r. s = p @ r \<and> re_match [AnyRunes] r)"
    using assms(1) by (simp add: star_glob_def glob_no_star re_match_lits star_item_def)
  also have "\<dots> \<longleftrightarrow> (\<exists>r. s = p @ r)" using assms(2) re_match_all by auto
  finally show ?thesis by (simp add: has_prefix_iff)
qed

text \<open>Skipping over the characters of an ASCII string reaches every position.\<close>

lemma any_runes_skip:
  assumes "\<forall>c \<in> set a. is_ascii c \<and> c \<noteq> newline"
  shows "re_match items r \<Longrightarrow> re_match (AnyRunes # items) (a @ r)"
  using assms
proof (induction a)
  case Nil
  then show ?case by (subst re_match.simps) simp
next
  case (Cons c a)
  then show ?case
    by (subst re_match.simps) (simp add: rune_len_ascii is_ascii_def)
qed

lemma any_runes_split:
  "re_match (AnyRunes # items) s \<Longrightarrow> \<exists>a r. s = a @ r \<and> re_match items r"
proof (induction "length s" arbitrary: s rule: less_induct)
  case less
  from less.prems consider "re_match items s"
    | "s \<noteq> []" "re_match (AnyRunes # items) (drop (rune_len s) s)"
    by (subst (asm) re_match.simps) (auto split: if_splits)
  then show ?case
  proof cases
    case 1
    then show ?thesis by (metis append_Nil)
  next
    case 2
    have "length (drop (rune_len s) s) < length s" using 2(1) rune_len_pos [OF 2(1)] by simp
    from less.hyps [OF this 2(2)]
    obtain a r where r: "drop (rune_len s) s = a @ r" "re_match items r" by blast
    have "s = take (rune_len s) s @ drop (rune_len s) s" by simp
    then have "s = (take (rune_len s) s @ a) @ r" unfolding r(1) by simp
    with r(2) show ?thesis by blast
  qed
qed

lemma star_match_iff:
  assumes "\<forall>c \<in> set s. is_ascii c \<and> c \<noteq> newline"
  shows "re_match (AnyRunes # items) s \<longleftrightarrow> (\<exists>a r. s = a @ r \<and> re_match items r)"
  using any_runes_split any_runes_skip assms by (metis (no_types, lifting) Un_iff set_append)

text \<open>Hence the usual reading of simple globs on ASCII keys.\<close>

lemma star_glob_suffix:
  assumes "CHR ''*'' \<notin> set p" "\<forall>c \<in> set s. is_ascii c \<and> c \<noteq> newline"
  shows "star_glob (CHR ''*'' # p) s \<longleftrightarrow> has_suffix s p"
  using re_match_lits [of p "[]"] assms(1)
  by (simp add: star_glob_def glob_no_star star_match_iff [OF assms(2)] has_suffix_iff star_item_def)

lemma star_glob_contains:
  assumes "CHR ''*'' \<notin> set p" "\<forall>c \<in> set s. is_ascii c \<and> c \<noteq> newline"
  shows "star_glob (''*'' @ p @ ''*'') s \<longleftrightarrow> str_contains s p"
proof -
  have "star_glob (''*'' @ p @ ''*'') s \<longleftrightarrow>
      (\<exists>a r. s = a @ r \<and> re_match (map Lit p @ [AnyRunes]) r)"
    using assms(1) by (simp add: star_glob_def glob_no_star star_match_iff [OF assms(2)] star_item_def)
  also have "\<dots> \<longleftrightarrow> (\<exists>a r. s = a @ p @ r \<and> re_match [AnyRunes] r)"
    by (auto simp: re_match_lits)
  also have "\<dots> \<longleftrightarrow> (\<exists>a r. s = a @ p @ r)"
  proof -
    have "re_match [AnyRunes] r" if "s = a @ p @ r" for a r
      using assms(2) that by (intro re_match_all) auto
    then show ?thesis by blast
  qed
  finally show ?thesis by (simp add: str_contains_iff)
qed

end
