(* ===== verification/KeyPattern.thy ===== *)
theory KeyPattern
  imports Regexp
begin

text \<open>
  Key patterns, \<open>pkg/utils/pattern.go\<close>: exact, prefix and glob patterns with a process-wide cache of
  compiled expressions.  The cache is an explicit state; the facts show that it is invisible, what a
  pattern means, and that \<open>FilterKeys\<close> agrees with \<open>MatchPattern\<close>.
\<close>

section \<open>The operations\<close>

type_synonym regex_cache = "(string \<times> regex) list"

definition glob_char :: "char \<Rightarrow> string" where
  "glob_char ch =
     (if ch = CHR ''*'' then ''.*''
      else if ch = CHR ''?'' then ''.''
      else if ch \<in> {CHR ''.'', CHR ''+'', CHR ''('', CHR '')'', CHR ''|'', CHR ''['', CHR '']'',
                    CHR ''{'', CHR ''}'', CHR ''^'', CHR ''$'', CHR 0x5C}
      then [CHR 0x5C, ch] else [ch])"

definition glob_to_regex :: "string \<Rightarrow> string" where
  "glob_to_regex pattern = concat (map glob_char pattern)"

definition prefix_form :: "string \<Rightarrow> bool" where
  "prefix_form pattern \<longleftrightarrow> has_suffix pattern ''*'' \<and> \<not> str_contains (butlast pattern) ''*''"

text \<open>Loading a cached expression or compiling and storing it.\<close>

definition cached_compile ::
    "(string \<Rightarrow> regex go_result) \<Rightarrow> regex_cache \<Rightarrow> string \<Rightarrow> regex_cache \<times> regex go_result" where
  "cached_compile ext cache regex_pattern =
     (case map_of cache regex_pattern of
        Some re \<Rightarrow> (cache, Inr re)
      | None \<Rightarrow>
          (case regexp_compile ext (''^'' @ regex_pattern @ ''$'') of
             Inl err \<Rightarrow> (cache, Inl (ErrWrap ''invalid pattern regex: '' err))
           | Inr re \<Rightarrow> (AList.update regex_pattern re cache, Inr re)))"

definition match_pattern ::
    "(string \<Rightarrow> regex go_result) \<Rightarrow> regex_cache \<Rightarrow> string \<Rightarrow> string \<Rightarrow> regex_cache \<times> bool go_result" where
  "match_pattern ext cache pattern key =
     (if pattern = [] then (cache, Inl (ErrMsg ''pattern cannot be empty''))
      else if pattern = key then (cache, Inr True)
      else if prefix_form pattern then (cache, Inr (has_prefix key (butlast pattern)))
      else if pattern = ''*'' then (cache, Inr True)
      else
        (let regex_pattern = (if str_contains pattern ''*'' \<or> str_contains pattern ''?''
               then glob_to_regex pattern else pattern);
             (cache, re) = cached_compile ext cache regex_pattern
         in (cache, case re of Inl err \<Rightarrow> Inl err | Inr re \<Rightarrow> Inr (re key))))"

fun filter_loop ::
    "(string \<Rightarrow> regex go_result) \<Rightarrow> regex_cache \<Rightarrow> string \<Rightarrow> string list \<Rightarrow> string list \<Rightarrow>
     regex_cache \<times> string list go_result" where
  "filter_loop ext cache pattern result [] = (cache, Inr result)"
| "filter_loop ext cache pattern result (key # keys) =
     (case match_pattern ext cache pattern key of
        (cache, Inl err) \<Rightarrow> (cache, Inl err)
      | (cache, Inr match) \<Rightarrow>
          filter_loop ext cache pattern (if match then result @ [key] else result) keys)"

definition filter_keys ::
    "(string \<Rightarrow> regex go_result) \<Rightarrow> regex_cache \<Rightarrow> string \<Rightarrow> string list \<Rightarrow>
     regex_cache \<times> string list go_result" where
  "filter_keys ext cache pattern keys =
     (if pattern = [] then (cache, Inl (ErrMsg ''pattern cannot be empty''))
      else if pattern = ''*'' then (cache, Inr keys)
      else if prefix_form pattern
      then (cache, Inr (filter (\<lambda>key. has_prefix key (butlast pattern)) keys))
      else filter_loop ext cache pattern [] keys)"

definition prefix_match :: "string \<Rightarrow> string \<Rightarrow> bool" where
  "prefix_match pre key = has_prefix key pre"

definition clear_regex_cache :: "regex_cache \<Rightarrow> regex_cache" where
  "clear_regex_cache cache = fold (\<lambda>(key, _) c. AList.delete key c) cache cache"

definition regex_cache_size :: "regex_cache \<Rightarrow> int" where
  "regex_cache_size cache = fold (\<lambda>_ count. count + 1) cache 0"

section \<open>The cache is invisible\<close>

definition regex_cache_ok :: "(string \<Rightarrow> regex go_result) \<Rightarrow> regex_cache \<Rightarrow> bool" where
  "regex_cache_ok ext cache \<longleftrightarrow>
     (\<forall>p re. map_of cache p = Some re \<longrightarrow> regexp_compile ext (''^'' @ p @ ''$'') = Inr re)"

text \<open>What \<open>MatchPattern\<close> answers with an empty cache.\<close>

definition match_pure :: "(string \<Rightarrow> regex go_result) \<Rightarrow> string \<Rightarrow> string \<Rightarrow> bool go_result" where
  "match_pure ext pattern key = snd (match_pattern ext [] pattern key)"

lemma cached_compile_pure:
  assumes "regex_cache_ok ext cache"
  shows "snd (cached_compile ext cache p) = snd (cached_compile ext [] p)"
    and "regex_cache_ok ext (fst (cached_compile ext cache p))"
  using assms
  by (auto simp: cached_compile_def regex_cache_ok_def al_simps split: option.split sum.split)

lemma match_pattern_pure:
  assumes "regex_cache_ok ext cache"
  shows "snd (match_pattern ext cache p k) = match_pure ext p k"
    and "regex_cache_ok ext (fst (match_pattern ext cache p k))"
  using cached_compile_pure [OF assms] assms
  by (simp_all add: match_pattern_def match_pure_def case_prod_beta Let_def)

lemma clear_regex_cache_empty: "clear_regex_cache cache = []"
proof -
  have "fold (\<lambda>(key, _) c. AList.delete key c) xs c = filter (\<lambda>e. fst e \<notin> fst ` set xs) c"
    for xs c :: regex_cache
  proof (induction xs arbitrary: c)
    case (Cons x xs)
    have "filter (\<lambda>e. fst e \<notin> fst ` set xs) (AList.delete (fst x) c) =
        filter (\<lambda>e. fst e \<notin> fst ` set (x # xs)) c"
      unfolding AList.delete_eq filter_filter by (rule filter_cong) auto
    with Cons [of "AList.delete (fst x) c"] show ?case by (simp add: case_prod_beta)
  qed simp
  then show ?thesis unfolding clear_regex_cache_def by (auto simp: filter_empty_conv)
qed

lemma regex_cache_size_length: "regex_cache_size cache = int (length cache)"
proof -
  have "fold (\<lambda>_ count. count + 1) xs n = n + int (length xs)" for xs :: regex_cache and n :: int
    by (induction xs arbitrary: n) auto
  then show ?thesis by (simp add: regex_cache_size_def)
qed

section \<open>The regular expression of a glob\<close>

lemma glob_char_piece: "glob_char c = re_piece (glob_item c)"
  by (auto simp: glob_char_def glob_item_def re_piece_def re_special_def)

lemma glob_compiles:
  assumes "\<forall>c \<in> set p. is_ascii c"
  shows "regexp_compile ext (''^'' @ glob_to_regex p @ ''$'') = Inr (glob p)"
proof -
  have "glob_to_regex p = concat (map re_piece (map glob_item p))"
    by (simp add: glob_to_regex_def o_def ext [of glob_char, OF glob_char_piece])
  moreover have "\<forall>i \<in> set (map glob_item p). re_ok i"
    using assms by (auto simp: glob_item_def re_ok_def)
  ultimately show ?thesis unfolding glob_def by (metis re_parse_pieces)
qed

lemma literal_compiles:
  assumes "\<forall>c \<in> set p. is_ascii c \<and> c \<notin> set re_special"
  shows "regexp_compile ext (''^'' @ p @ ''$'') = Inr (\<lambda>k. k = p)"
proof -
  have "p = concat (map re_piece (map Lit p))"
    using assms by (induction p) (auto simp: re_piece_def)
  then have "regexp_compile ext (''^'' @ p @ ''$'') = Inr (re_match (map Lit p))"
    using re_parse_pieces [of "map Lit p" ext] assms by (auto simp: re_ok_def)
  moreover have "re_match (map Lit p) = (\<lambda>k. k = p)"
    using re_match_lits [of p "[]"] by (auto simp: fun_eq_iff)
  ultimately show ?thesis by simp
qed

lemma filter_loop_pure:
  assumes "regex_cache_ok ext cache"
  shows "regex_cache_ok ext (fst (filter_loop ext cache p result keys)) \<and>
    (case snd (filter_loop ext cache p result keys) of
       Inr ks \<Rightarrow> ks = result @ filter (\<lambda>k. match_pure ext p k = Inr True) keys \<and>
         (\<forall>k. k \<in> set keys \<longrightarrow> (\<exists>b. match_pure ext p k = Inr b))
     | Inl err \<Rightarrow> \<exists>k. k \<in> set keys \<and> match_pure ext p k = Inl err)"
  using assms
proof (induction keys arbitrary: cache result)
  case Nil
  then show ?case by simp
next
  case (Cons key keys)
  obtain c r where m: "match_pattern ext cache p key = (c, r)" by fastforce
  with match_pattern_pure [OF Cons.prems, of p key]
  have r: "match_pure ext p key = r" "regex_cache_ok ext c" by auto
  show ?case
  proof (cases r)
    case (Inl err)
    with m r show ?thesis by auto
  next
    case (Inr b)
    with m r Cons.IH [OF r(2), of "if b then result @ [key] else result"] show ?thesis
      by (auto split: sum.splits)
  qed
qed

section \<open>Properties\<close>

text \<open>
  Property C17.  The meaning of a glob pattern (one with \<open>*\<close> or \<open>?\<close>, of ASCII characters), for every
  key and every state of the cache: a pattern of the form \<open>prefix*\<close> matches the keys with that
  literal prefix, any other matches what the glob denotes, and a key equal to the pattern always
  matches; no such pattern is an error, whatever other metacharacters it contains.
\<close>

theorem match_pattern_glob:
  assumes "regex_cache_ok ext cache" and "p \<noteq> []" and "\<forall>c \<in> set p. is_ascii c"
    and "CHR ''*'' \<in> set p \<or> CHR ''?'' \<in> set p"
  shows "snd (match_pattern ext cache p key) =
    Inr (key = p \<or> (if prefix_form p then has_prefix key (butlast p) else glob p key))"
proof -
  have "str_contains p ''*'' \<or> str_contains p ''?''" using assms(4) by (simp add: single_in_contains)
  moreover have "p = ''*'' \<Longrightarrow> prefix_form p" by (simp add: prefix_form_def has_suffix_def)
  ultimately show ?thesis
    using assms(2) glob_compiles [OF assms(3), of ext]
    unfolding match_pattern_pure(1) [OF assms(1)] match_pure_def
    by (auto simp: match_pattern_def Let_def cached_compile_def)
qed

theorem match_pattern_glob_witness:
  "snd (match_pattern (\<lambda>_. Inl (ErrMsg '''')) [] ''user:*:p?'' ''user:7:pq'') = Inr True"
proof -
  have "glob ''user:*:p?'' ''user:7:pq''"
    by (simp add: glob_def glob_item_def re_match.simps newline_def rune_len_ascii byte_def)
  moreover have "snd (match_pattern (\<lambda>_. Inl (ErrMsg '''')) [] ''user:*:p?'' ''user:7:pq'') =
    Inr (''user:7:pq'' = ''user:*:p?'' \<or> (if prefix_form ''user:*:p?''
      then has_prefix ''user:7:pq'' (butlast ''user:*:p?'') else glob ''user:*:p?'' ''user:7:pq''))"
    by (rule match_pattern_glob) (simp_all add: regex_cache_ok_def is_ascii_def byte_def)
  ultimately show ?thesis by (simp add: prefix_form_def has_suffix_def)
qed

text \<open>
  Further result.  \<open>FilterKeys\<close> and \<open>MatchPattern\<close> agree, in every state of the cache: the keys returned
  are those that match, in order and with their repetitions, and an error is one that \<open>MatchPattern\<close>
  reports for a key of the list (or the empty pattern).
\<close>

theorem filter_keys_agrees:
  assumes "regex_cache_ok ext cache"
  shows "case snd (filter_keys ext cache p keys) of
       Inr ks \<Rightarrow> ks = filter (\<lambda>k. match_pure ext p k = Inr True) keys
     | Inl err \<Rightarrow> p = [] \<or> (\<exists>k. k \<in> set keys \<and> match_pure ext p k = Inl err)"
proof -
  have star: "match_pure ext ''*'' k = Inr True" for k
    by (simp add: match_pure_def match_pattern_def prefix_form_def has_suffix_def)
  have pre: "match_pure ext p k = Inr (has_prefix k (butlast p))" if "p \<noteq> []" "prefix_form p" for k
    using that by (auto simp: match_pure_def match_pattern_def prefix_form_def has_prefix_def
        butlast_conv_take)
  consider "p = []" | "p = ''*''" | "p \<noteq> []" "p \<noteq> ''*''" "prefix_form p"
    | "p \<noteq> []" "p \<noteq> ''*''" "\<not> prefix_form p" by blast
  then show ?thesis
  proof cases
    case 2
    then show ?thesis by (simp add: filter_keys_def star)
  next
    case 3
    then show ?thesis by (simp add: filter_keys_def pre)
  next
    case 4
    then show ?thesis
      using filter_loop_pure [OF assms, of p "[]" keys]
      by (auto simp: filter_keys_def split: sum.splits)
  qed (simp add: filter_keys_def)
qed

theorem filter_keys_agrees_witness:
  "filter (\<lambda>k. match_pure (\<lambda>_. Inl (ErrMsg '''')) ''a*'' k = Inr True) [''ab'', ''b'', ''a''] = [''ab'', ''a'']"
  using filter_keys_agrees [of "\<lambda>_. Inl (ErrMsg '''')" "[]" "''a*''" "[''ab'', ''b'', ''a'']"]
  by (simp add: regex_cache_ok_def filter_keys_def prefix_form_def has_suffix_def has_prefix_def)

text \<open>A question mark before a final star is not a wildcard: the prefix path compares it literally.\<close>

lemma question_mark_literal:
  "snd (match_pattern ext cache ''u?*'' ''uxy'') = Inr False"
  "glob ''u?*'' ''uxy''"
  by (simp_all add: match_pattern_def prefix_form_def has_suffix_def has_prefix_def glob_def
      glob_item_def re_match.simps newline_def rune_len_ascii byte_def)

end
