(* ===== verification/PatternMatcher.thy ===== *)
theory PatternMatcher
  imports Regexp
begin

text \<open>
  The pattern matcher of the invalidation service, \<open>invalidation/patterns.go\<close>: exact patterns,
  wildcards with fast paths for a star at either end, and regular expressions with a cache of
  compiled expressions.
\<close>

section \<open>Operations\<close>

type_synonym pm_state = "(string \<times> regex) list"  \<comment> \<open>\<open>regexCache\<close>\<close>

definition pm_new :: pm_state where
  "pm_new = []"

definition is_wildcard :: "string \<Rightarrow> bool" where
  "is_wildcard pattern = str_contains pattern ''*''"

definition is_regex :: "string \<Rightarrow> bool" where
  "is_regex pattern = list_ex (\<lambda>c. str_contains pattern c)
     [''['', '']'', ''('', '')'', ''^'', ''$'', ''+'', ''?'', ''{'', ''}'', ''|'']"

text \<open>\<open>strings.Trim(s, "*")\<close> and \<open>strings.ReplaceAll\<close>.\<close>

definition trim_star :: "string \<Rightarrow> string" where
  "trim_star s = rev (dropWhile (\<lambda>c. c = CHR ''*'') (rev (dropWhile (\<lambda>c. c = CHR ''*'') s)))"

function replace_all :: "string \<Rightarrow> string \<Rightarrow> string \<Rightarrow> string" where
  "replace_all old new s =
     (if old = [] \<or> s = [] then s
      else if has_prefix s old then new @ replace_all old new (drop (length old) s)
      else hd s # replace_all old new (tl s))"
  by auto
termination
  by (relation "measure (\<lambda>(old, new, s). length s)") auto

declare replace_all.simps [simp del]

definition quote_meta :: "string \<Rightarrow> string" where
  "quote_meta s = concat (map (\<lambda>c. if c \<in> set re_special then [CHR 0x5C, c] else [c]) s)"

definition wildcard_to_regex :: "string \<Rightarrow> string" where
  "wildcard_to_regex pattern =
     ''^'' @ replace_all [CHR 0x5C, CHR ''*''] ''.*'' (quote_meta pattern) @ ''$''"

definition pm_match_regex ::
    "(string \<Rightarrow> regex go_result) \<Rightarrow> pm_state \<Rightarrow> string \<Rightarrow> string list \<Rightarrow> pm_state \<times> string list" where
  "pm_match_regex ext pm pattern keys =
     (case map_of pm pattern of
        Some re \<Rightarrow> (pm, filter re keys)
      | None \<Rightarrow>
          (case regexp_compile ext pattern of
             Inl _ \<Rightarrow> (pm, [])
           | Inr re \<Rightarrow> (AList.update pattern re pm, filter re keys)))"

definition pm_match_wildcard ::
    "(string \<Rightarrow> regex go_result) \<Rightarrow> pm_state \<Rightarrow> string \<Rightarrow> string list \<Rightarrow> pm_state \<times> string list" where
  "pm_match_wildcard ext pm pattern keys =
     (if pattern = ''*'' then (pm, keys)
      else if has_prefix pattern ''*'' \<and> has_suffix pattern ''*'' then
        (let substring = trim_star pattern in (pm, filter (\<lambda>key. str_contains key substring) keys))
      else if has_prefix pattern ''*'' then
        (let suf = trim_prefix pattern ''*'' in (pm, filter (\<lambda>key. has_suffix key suf) keys))
      else if has_suffix pattern ''*'' then
        (let pre = trim_suffix pattern ''*'' in (pm, filter (\<lambda>key. has_prefix key pre) keys))
      else pm_match_regex ext pm (wildcard_to_regex pattern) keys)"

definition pm_match ::
    "(string \<Rightarrow> regex go_result) \<Rightarrow> pm_state \<Rightarrow> string \<Rightarrow> string list \<Rightarrow> pm_state \<times> string list" where
  "pm_match ext pm pattern keys =
     (if pattern = [] then (pm, [])
      else if \<not> is_wildcard pattern \<and> \<not> is_regex pattern
      then (pm, if pattern \<in> set keys then [pattern] else [])
      else if is_wildcard pattern then pm_match_wildcard ext pm pattern keys
      else pm_match_regex ext pm pattern keys)"

definition pm_match_count ::
    "(string \<Rightarrow> regex go_result) \<Rightarrow> pm_state \<Rightarrow> string \<Rightarrow> string list \<Rightarrow> pm_state \<times> int" where
  "pm_match_count ext pm pattern keys =
     (if pattern = [] then (pm, 0)
      else if \<not> is_wildcard pattern \<and> \<not> is_regex pattern
      then (pm, if pattern \<in> set keys then 1 else 0)
      else let (pm, matches) = pm_match ext pm pattern keys in (pm, int (length matches)))"

definition pm_validate :: "(string \<Rightarrow> regex go_result) \<Rightarrow> string \<Rightarrow> go_error option" where
  "pm_validate ext pattern =
     (if pattern = [] then None
      else if length pattern > 1000 then Some (ErrMsg ''pattern too long: potential DoS'')
      else if is_regex pattern then
        (case regexp_compile ext pattern of Inl err \<Rightarrow> Some err | Inr _ \<Rightarrow> None)
      else None)"

definition pm_clear_cache :: "pm_state \<Rightarrow> pm_state" where
  "pm_clear_cache pm = []"

definition pm_cache_size :: "pm_state \<Rightarrow> int" where
  "pm_cache_size pm = fold (\<lambda>_ count. count + 1) pm 0"

section \<open>The regular expression of a wildcard\<close>

lemma quote_meta_head: "quote_meta p = [] \<or> hd (quote_meta p) \<noteq> CHR ''*''"
  by (cases p) (auto simp: quote_meta_def re_special_def)

lemma quote_meta_Cons: "quote_meta (c # p) =
    (if c \<in> set re_special then [CHR 0x5C, c] else [c]) @ quote_meta p"
  by (simp add: quote_meta_def)

lemma replace_star_step:
  assumes "c \<noteq> CHR 0x5C \<or> s = [] \<or> hd s \<noteq> CHR ''*''"
  shows "replace_all [CHR 0x5C, CHR ''*''] new (c # s) = c # replace_all [CHR 0x5C, CHR ''*''] new s"
  using assms by (subst replace_all.simps) (cases s, auto simp: has_prefix_def)

lemma replace_star_hit:
  "replace_all [CHR 0x5C, CHR ''*''] new (CHR 0x5C # CHR ''*'' # s) =
   new @ replace_all [CHR 0x5C, CHR ''*''] new s"
  by (subst replace_all.simps) (simp add: has_prefix_def)

lemma replace_quoted:
  "replace_all [CHR 0x5C, CHR ''*''] ''.*'' (quote_meta p) = concat (map re_piece (map star_item p))"
proof (induction p)
  case Nil
  then show ?case by (simp add: quote_meta_def replace_all.simps)
next
  case (Cons c p)
  show ?case
  proof (cases "c \<in> set re_special")
    case True
    show ?thesis
    proof (cases "c = CHR ''*''")
      case star: True
      with True Cons show ?thesis
        by (simp add: quote_meta_Cons replace_star_hit star_item_def re_piece_def)
    next
      case False
      have "replace_all [CHR 0x5C, CHR ''*''] ''.*'' (CHR 0x5C # c # quote_meta p) =
          CHR 0x5C # replace_all [CHR 0x5C, CHR ''*''] ''.*'' (c # quote_meta p)"
        using False by (intro replace_star_step) simp
      also have "\<dots> = CHR 0x5C # c # replace_all [CHR 0x5C, CHR ''*''] ''.*'' (quote_meta p)"
        using quote_meta_head [of p] by (subst replace_star_step) auto
      finally show ?thesis
        using True False Cons by (simp add: quote_meta_Cons star_item_def re_piece_def)
    qed
  next
    case False
    then have "c \<noteq> CHR 0x5C" "c \<noteq> CHR ''*''" by (auto simp: re_special_def)
    with False Cons show ?thesis
      by (simp add: quote_meta_Cons replace_star_step star_item_def re_piece_def)
  qed
qed

lemma wildcard_compiles:
  assumes "\<forall>c \<in> set p. is_ascii c"
  shows "regexp_compile ext (wildcard_to_regex p) = Inr (star_glob p)"
proof -
  have "\<forall>i \<in> set (map star_item p). re_ok i" using assms by (auto simp: star_item_def re_ok_def)
  from re_parse_pieces [OF this] show ?thesis
    unfolding wildcard_to_regex_def replace_quoted star_glob_def .
qed

section \<open>The cache\<close>

definition pm_ok :: "(string \<Rightarrow> regex go_result) \<Rightarrow> pm_state \<Rightarrow> bool" where
  "pm_ok ext pm \<longleftrightarrow> (\<forall>p re. map_of pm p = Some re \<longrightarrow> regexp_compile ext p = Inr re)"

lemma pm_match_regex_pure:
  assumes "pm_ok ext pm"
  shows "snd (pm_match_regex ext pm p keys) =
      (case regexp_compile ext p of Inl _ \<Rightarrow> [] | Inr re \<Rightarrow> filter re keys)"
    and "pm_ok ext (fst (pm_match_regex ext pm p keys))"
  using assms by (auto simp: pm_match_regex_def pm_ok_def al_simps split: option.split sum.split)

lemma pm_match_ok: "pm_ok ext pm \<Longrightarrow> pm_ok ext (fst (pm_match ext pm p keys))"
  by (simp add: pm_match_def pm_match_wildcard_def Let_def pm_match_regex_pure)

lemma pm_match_subset: "pm_ok ext pm \<Longrightarrow> set (snd (pm_match ext pm p keys)) \<subseteq> set keys"
  by (auto simp: pm_match_def pm_match_wildcard_def Let_def pm_match_regex_pure split: sum.splits)

lemma pm_match_count_length:
  "distinct keys \<Longrightarrow> snd (pm_match_count ext pm p keys) = int (length (snd (pm_match ext pm p keys)))"
  by (simp add: pm_match_count_def pm_match_def case_prod_beta)

section \<open>Wildcards as globs\<close>

text \<open>The shapes for which the fast paths mean what the pattern says: a star inside the pattern only
  if there is none at either end.\<close>

definition simple_wildcard :: "string \<Rightarrow> bool" where
  "simple_wildcard p \<longleftrightarrow> CHR ''*'' \<in> set p \<and>
     (CHR ''*'' \<notin> set (butlast (tl p)) \<or> hd p \<noteq> CHR ''*'' \<and> last p \<noteq> CHR ''*'')"

lemma has_prefix_star: "has_prefix p ''*'' \<longleftrightarrow> p \<noteq> [] \<and> hd p = CHR ''*''"
  by (cases p) (auto simp: has_prefix_def)

lemma trim_star_free: "CHR ''*'' \<notin> set q \<Longrightarrow> trim_star (''*'' @ q @ ''*'') = q"
proof -
  assume q: "CHR ''*'' \<notin> set q"
  have drop: "dropWhile (\<lambda>c. c = CHR ''*'') (r @ s) = r @ s" if "r \<noteq> []" "CHR ''*'' \<notin> set r" for r s
    using that by (cases r) auto
  show ?thesis
  proof (cases "q = []")
    case False
    with q drop [of q "''*''"] drop [of "rev q" "[]"] show ?thesis by (simp add: trim_star_def)
  qed (simp add: trim_star_def)
qed

lemma split_ends:
  assumes "2 \<le> length p"
  shows "p = [hd p] @ butlast (tl p) @ [last p]"
  using assms by (cases p rule: rev_cases; cases "butlast p") auto

text \<open>The fast paths, one by one.\<close>

lemma pm_match_wild:
  "CHR ''*'' \<in> set p \<Longrightarrow> pm_match ext pm p keys = pm_match_wildcard ext pm p keys"
  by (auto simp: pm_match_def is_wildcard_def single_in_contains)

lemma pm_contains_path:
  assumes "CHR ''*'' \<notin> set q"
  shows "snd (pm_match ext pm (''*'' @ q @ ''*'') keys) = filter (\<lambda>k. str_contains k q) keys"
  using trim_star_free [OF assms]
  by (simp add: pm_match_wild pm_match_wildcard_def has_prefix_star has_suffix_star)

lemma pm_suffix_path:
  assumes "last q \<noteq> CHR ''*''" "q \<noteq> []"
  shows "snd (pm_match ext pm (CHR ''*'' # q) keys) = filter (\<lambda>k. has_suffix k q) keys"
  using assms
  by (simp add: pm_match_wild pm_match_wildcard_def has_prefix_star has_suffix_star
      trim_prefix_def)

lemma pm_prefix_path:
  assumes "hd q \<noteq> CHR ''*''" "q \<noteq> []"
  shows "snd (pm_match ext pm (q @ ''*'') keys) = filter (\<lambda>k. has_prefix k q) keys"
  using assms
  by (simp add: pm_match_wild pm_match_wildcard_def has_prefix_star has_suffix_star)

lemma pm_regex_path:
  assumes "pm_ok ext pm" "CHR ''*'' \<in> set p" "hd p \<noteq> CHR ''*''" "last p \<noteq> CHR ''*''"
    and "\<forall>c \<in> set p. is_ascii c"
  shows "snd (pm_match ext pm p keys) = filter (star_glob p) keys"
proof -
  have "p \<noteq> ''*''" using assms(3) by auto
  with assms show ?thesis
    by (simp add: pm_match_wild pm_match_wildcard_def has_prefix_star has_suffix_star
        pm_match_regex_pure wildcard_compiles)
qed

text \<open>A simple wildcard has one of four shapes.\<close>

lemma simple_wildcard_cases:
  assumes "simple_wildcard p"
  obtains (all) "p = ''*''"
  | (contains) q where "p = ''*'' @ q @ ''*''" "CHR ''*'' \<notin> set q"
  | (suffix) q where "p = CHR ''*'' # q" "q \<noteq> []" "CHR ''*'' \<notin> set q"
  | (pre) q where "p = q @ ''*''" "q \<noteq> []" "CHR ''*'' \<notin> set q"
  | (inner) "CHR ''*'' \<in> set p" "hd p \<noteq> CHR ''*''" "last p \<noteq> CHR ''*''"
proof -
  have star: "CHR ''*'' \<in> set p" using assms by (simp add: simple_wildcard_def)
  consider "length p < 2" | "2 \<le> length p" "hd p \<noteq> CHR ''*''" "last p \<noteq> CHR ''*''"
    | "2 \<le> length p" "CHR ''*'' \<notin> set (butlast (tl p))" "hd p = CHR ''*'' \<or> last p = CHR ''*''"
    using assms unfolding simple_wildcard_def by (meson not_less)
  then show thesis
  proof cases
    case 1
    with star have "p = ''*''" by (cases p) auto
    then show thesis by (rule all)
  next
    case 2
    with star show thesis by (intro inner)
  next
    case 3
    define q where "q = butlast (tl p)"
    have p: "p = [hd p] @ q @ [last p]" using split_ends [OF 3(1)] by (simp add: q_def)
    show thesis
    proof (cases "hd p = CHR ''*''"; cases "last p = CHR ''*''")
      assume "hd p = CHR ''*''" "last p = CHR ''*''"
      with p 3(2) show thesis by (intro contains [of q]) (simp_all add: q_def)
    next
      assume "hd p = CHR ''*''" "last p \<noteq> CHR ''*''"
      with p 3(2) show thesis by (intro suffix [of "q @ [last p]"]) (auto simp: q_def)
    next
      assume "hd p \<noteq> CHR ''*''" "last p = CHR ''*''"
      with p 3(2) show thesis by (intro pre [of "hd p # q"]) (auto simp: q_def)
    qed (use 3(3) in blast)
  qed
qed

section \<open>Properties\<close>



text \<open>
  Further result.  A star inside a pattern that also starts with a star is taken literally: such a pattern
  selects the keys that end with the rest of the pattern, star included, and not what the glob
  denotes.
\<close>

theorem pm_inner_star_literal:
  assumes "last q \<noteq> CHR ''*''" and "q \<noteq> []"
  shows "snd (pm_match ext pm (CHR ''*'' # q) keys) = filter (\<lambda>k. has_suffix k q) keys"
  by (rule pm_suffix_path [OF assms])

theorem pm_inner_star_literal_witness:
  "snd (pm_match (\<lambda>_. Inl (ErrMsg '''')) pm_new ''*:7:*:p'' [''user:7:x:p'']) = [] \<and> star_glob ''*:7:*:p'' ''user:7:x:p''"
  using pm_inner_star_literal [of "'':7:*:p''" "\<lambda>_. Inl (ErrMsg '''')" pm_new "[''user:7:x:p'']"]
  by (simp add: has_suffix_def star_glob_def star_item_def re_match.simps newline_def
      rune_len_ascii byte_def)

end
