(* ===== verification/AuditLog.thy ===== *)
theory AuditLog
  imports Prelude
begin

text \<open>
  The audit log of the invalidation service, \<open>invalidation/audit.go\<close>.  The SQL statements of the
  file are translated to operations on a table of rows; a failure of the database connection is an
  argument of each operation.  \<open>INSERT ... ON CONFLICT (c)\<close> needs a unique index on column \<open>c\<close>, so the
  table records which columns have one.

  Pagination is used through the interface \<open>AuditLoggerInterface\<close>; its contract is the locale
  \<open>audit_store\<close>, interpreted here for the table.
\<close>

section \<open>Rows and table\<close>

record audit_log =
  al_id :: int
  al_pattern :: string
  al_keys :: "string list"
  al_by :: string
  al_at :: time
  al_request :: string
  al_latency :: int

text \<open>In the table the keys are a JSON document.\<close>

record audit_row =
  ar_id :: int
  ar_pattern :: string
  ar_keys_json :: string
  ar_by :: string
  ar_at :: time
  ar_request :: string
  ar_latency :: int

record audit_table =
  at_rows :: "audit_row list"
  at_next :: int
  at_unique :: "string list"

text \<open>\<open>json.Marshal\<close> and \<open>json.Unmarshal\<close> of a list of strings.\<close>

record keys_codec =
  kc_enc :: "string list \<Rightarrow> string go_result"
  kc_dec :: "string \<Rightarrow> string list go_result"

text \<open>\<open>CREATE TABLE IF NOT EXISTS\<close>: only the primary key is unique; the indexes that follow, the one
  on \<open>request_id\<close> included, are not.\<close>

definition ensure_schema :: "audit_table option \<Rightarrow> audit_table" where
  "ensure_schema existing = (case existing of
     Some t \<Rightarrow> t
   | None \<Rightarrow> \<lparr>at_rows = [], at_next = 1, at_unique = [''id'']\<rparr>)"

definition new_audit_logger :: "go_error option \<Rightarrow> audit_table option \<Rightarrow> audit_table go_result" where
  "new_audit_logger fail existing = (case fail of
     Some err \<Rightarrow> Inl (ErrWrap ''failed to initialize audit schema: '' err)
   | None \<Rightarrow> Inr (ensure_schema existing))"

definition exec_insert :: "audit_table \<Rightarrow> audit_row \<Rightarrow> audit_table go_result" where
  "exec_insert t row =
     (if ''request_id'' \<notin> set (at_unique t)
      then Inl (ErrMsg ''there is no unique or exclusion constraint matching the ON CONFLICT specification'')
      else if \<exists>r \<in> set (at_rows t). ar_request r = ar_request row
      then Inr (t\<lparr>at_next := at_next t + 1\<rparr>)
      else Inr (t\<lparr>at_rows := at_rows t @ [row\<lparr>ar_id := at_next t\<rparr>], at_next := at_next t + 1\<rparr>))"

definition audit_insert ::
    "keys_codec \<Rightarrow> go_error option \<Rightarrow> audit_table \<Rightarrow> audit_log \<Rightarrow> audit_table \<times> go_error option" where
  "audit_insert codec fail t log =
     (case kc_enc codec (al_keys log) of
        Inl err \<Rightarrow> (t, Some (ErrWrap ''failed to marshal keys: '' err))
      | Inr keys_json \<Rightarrow>
          (let row = \<lparr>ar_id = 0, ar_pattern = al_pattern log, ar_keys_json = keys_json,
                 ar_by = al_by log, ar_at = al_at log, ar_request = al_request log,
                 ar_latency = al_latency log\<rparr>
           in case fail of
                Some err \<Rightarrow> (t, Some (ErrWrap ''failed to insert audit log: '' err))
              | None \<Rightarrow>
                  (case exec_insert t row of
                     Inl err \<Rightarrow> (t, Some (ErrWrap ''failed to insert audit log: '' err))
                   | Inr t' \<Rightarrow> (t', None))))"

section \<open>Queries\<close>

text \<open>SQL \<open>LIKE\<close>: \<open>%\<close> any substring, \<open>_\<close> one character, backslash escapes.\<close>

function like :: "string \<Rightarrow> string \<Rightarrow> bool" where
  "like [] s \<longleftrightarrow> s = []"
| "like (p # ps) s \<longleftrightarrow>
     (if p = CHR ''%'' then like ps s \<or> (if s = [] then False else like (p # ps) (tl s))
      else if s = [] then False
      else if p = CHR ''_'' then like ps (tl s)
      else if p = CHR 0x5C \<and> ps \<noteq> [] then hd s = hd ps \<and> like (tl ps) (tl s)
      else hd s = p \<and> like ps (tl s))"
  by pat_completeness auto
termination
  by (relation "measures [\<lambda>(p, s). length p + length s]") auto

text \<open>Scanning a row decodes the keys; a document that does not decode reads as no keys.\<close>

definition scan_row :: "keys_codec \<Rightarrow> audit_row \<Rightarrow> audit_log" where
  "scan_row codec r =
     \<lparr>al_id = ar_id r, al_pattern = ar_pattern r,
      al_keys = (if ar_keys_json r = [] then []
                 else case kc_dec codec (ar_keys_json r) of Inl _ \<Rightarrow> [] | Inr ks \<Rightarrow> ks),
      al_by = ar_by r, al_at = ar_at r, al_request = ar_request r, al_latency = ar_latency r\<rparr>"

text \<open>\<open>ORDER BY timestamp DESC\<close>; rows of equal time stay in insertion order.\<close>

definition newest_first :: "audit_row list \<Rightarrow> audit_row list" where
  "newest_first rows = sort_key (\<lambda>r. - ar_at r) rows"

definition where_like :: "string \<Rightarrow> audit_row list \<Rightarrow> audit_row list" where
  "where_like pattern_filter rows =
     (if pattern_filter \<noteq> []
      then filter (\<lambda>r. like (''%'' @ pattern_filter @ ''%'') (ar_pattern r)) rows else rows)"

text \<open>\<open>LIMIT\<close> and \<open>OFFSET\<close> must not be negative.\<close>

definition limit_offset :: "int \<Rightarrow> int \<Rightarrow> 'a list \<Rightarrow> 'a list go_result" where
  "limit_offset limit offset xs =
     (if limit < 0 then Inl (ErrMsg ''LIMIT must not be negative'')
      else if offset < 0 then Inl (ErrMsg ''OFFSET must not be negative'')
      else Inr (take (nat limit) (drop (nat offset) xs)))"

definition audit_get_recent ::
    "keys_codec \<Rightarrow> go_error option \<Rightarrow> audit_table \<Rightarrow> int \<Rightarrow> int \<Rightarrow> string \<Rightarrow> audit_log list go_result" where
  "audit_get_recent codec fail t limit offset pattern_filter =
     (case fail of
        Some err \<Rightarrow> Inl (ErrWrap ''failed to query audit logs: '' err)
      | None \<Rightarrow>
          (case limit_offset limit offset (newest_first (where_like pattern_filter (at_rows t))) of
             Inl err \<Rightarrow> Inl (ErrWrap ''failed to query audit logs: '' err)
           | Inr rows \<Rightarrow> Inr (map (scan_row codec) rows)))"

definition audit_get_count :: "go_error option \<Rightarrow> audit_table \<Rightarrow> string \<Rightarrow> int go_result" where
  "audit_get_count fail t pattern_filter =
     (case fail of
        Some err \<Rightarrow> Inl (ErrWrap ''failed to count audit logs: '' err)
      | None \<Rightarrow> Inr (int (length (where_like pattern_filter (at_rows t)))))"

definition audit_get_by_request ::
    "keys_codec \<Rightarrow> go_error option \<Rightarrow> audit_table \<Rightarrow> string \<Rightarrow> audit_log list go_result" where
  "audit_get_by_request codec fail t request_id =
     (case fail of
        Some err \<Rightarrow> Inl (ErrWrap ''failed to query audit logs by request ID: '' err)
      | None \<Rightarrow> Inr (map (scan_row codec)
          (newest_first (filter (\<lambda>r. ar_request r = request_id) (at_rows t)))))"

definition audit_get_by_time_range ::
    "keys_codec \<Rightarrow> go_error option \<Rightarrow> audit_table \<Rightarrow> time \<Rightarrow> time \<Rightarrow> int \<Rightarrow> audit_log list go_result" where
  "audit_get_by_time_range codec fail t start end_time limit =
     (case fail of
        Some err \<Rightarrow> Inl (ErrWrap ''failed to query audit logs by time range: '' err)
      | None \<Rightarrow>
          (case limit_offset limit 0
             (newest_first (filter (\<lambda>r. start \<le> ar_at r \<and> ar_at r \<le> end_time) (at_rows t))) of
             Inl err \<Rightarrow> Inl (ErrWrap ''failed to query audit logs by time range: '' err)
           | Inr rows \<Rightarrow> Inr (map (scan_row codec) rows)))"

definition audit_cleanup ::
    "go_error option \<Rightarrow> time \<Rightarrow> audit_table \<Rightarrow> duration \<Rightarrow> audit_table \<times> int go_result" where
  "audit_cleanup fail now t older_than =
     (let cutoff = time_add now (i64 (- older_than)) in
      case fail of
        Some err \<Rightarrow> (t, Inl (ErrWrap ''failed to cleanup audit logs: '' err))
      | None \<Rightarrow>
          (let old = filter (\<lambda>r. ar_at r < cutoff) (at_rows t)
           in (t\<lparr>at_rows := filter (\<lambda>r. \<not> ar_at r < cutoff) (at_rows t)\<rparr>, Inr (int (length old)))))"

section \<open>Statistics\<close>

record 'f audit_stats =
  au_total :: int
  au_by_source :: "(string \<times> int) list"
  au_avg_latency :: 'f
  au_keys_affected :: int
  au_most_frequent :: string

text \<open>\<open>GROUP BY\<close> with \<open>COUNT(*)\<close>; \<open>ORDER BY frequency DESC LIMIT 1\<close>, where the order of the rows decides
  between equal frequencies.  \<open>average\<close> is the database's \<open>COALESCE(AVG(latency_ms), 0)\<close> as a double.\<close>

definition group_counts :: "string list \<Rightarrow> (string \<times> int) list" where
  "group_counts xs = map (\<lambda>k. (k, int (count_list xs k))) (remdups xs)"

definition most_frequent :: "string list \<Rightarrow> string" where
  "most_frequent xs = (case sort_key (\<lambda>(k, n). - n) (group_counts xs) of [] \<Rightarrow> [] | (k, n) # _ \<Rightarrow> k)"

text \<open>The three queries may fail one by one; a failure of the last is not fatal.\<close>

definition audit_get_stats ::
    "(int list \<Rightarrow> 'f) \<Rightarrow> go_error option \<Rightarrow> go_error option \<Rightarrow> go_error option \<Rightarrow> audit_table \<Rightarrow> time \<Rightarrow>
     'f audit_stats go_result" where
  "audit_get_stats average fail_total fail_source fail_pattern t since =
     (let rows = filter (\<lambda>r. since \<le> ar_at r) (at_rows t) in
      case fail_total of
        Some err \<Rightarrow> Inl (ErrWrap ''failed to get total stats: '' err)
      | None \<Rightarrow>
          (case fail_source of
             Some err \<Rightarrow> Inl (ErrWrap ''failed to get source breakdown: '' err)
           | None \<Rightarrow> Inr \<lparr>au_total = int (length rows), au_by_source = group_counts (map ar_by rows),
               au_avg_latency = average (map ar_latency rows),
               au_keys_affected = 0,
               au_most_frequent = (if fail_pattern = None then most_frequent (map ar_pattern rows) else [])\<rparr>))"

lemma group_counts_total: "sum_list (map snd (group_counts xs)) = int (length xs)"
proof -
  have "sum_list (map snd (group_counts xs)) = (\<Sum>k \<in> set xs. int (count_list xs k))"
    by (simp add: group_counts_def o_def sum_list_distinct_conv_sum_set)
  then show ?thesis using sum_count_set [of xs "set xs"] by (simp flip: of_nat_sum)
qed

lemma most_frequent_max:
  assumes "k \<in> set xs"
  shows "most_frequent xs \<in> set xs \<and> count_list xs k \<le> count_list xs (most_frequent xs)"
proof -
  let ?g = "sort_key (\<lambda>(k, n). - n) (group_counts xs)"
  have "(k, int (count_list xs k)) \<in> set ?g" using assms by (auto simp: group_counts_def)
  then obtain m n rest where g: "?g = (m, n) # rest" by (cases ?g) auto
  have "(m, n) \<in> set (group_counts xs)" using g by (metis list.set_intros(1) set_sort)
  then have m: "m \<in> set xs" "n = int (count_list xs m)" by (auto simp: group_counts_def)
  have "sorted (map (\<lambda>(k, n). - n) ?g)" by (rule sorted_sort_key)
  with \<open>(k, int (count_list xs k)) \<in> set ?g\<close> have "int (count_list xs k) \<le> n" by (auto simp: g)
  with m show ?thesis by (simp add: most_frequent_def g)
qed

text \<open>
  Further result.  The statistics of the audit log are consistent: the counts by source add up to the total,
  the pattern shown is one of the most frequent, and the number of affected keys is always zero, since
  nothing sets it; a failing query is an error, except that of the pattern.
\<close>

theorem audit_stats_consistent:
  "(case audit_get_stats average None None fail t since of
      Inl e \<Rightarrow> False
    | Inr st \<Rightarrow> sum_list (map snd (au_by_source st)) = au_total st \<and> au_keys_affected st = 0 \<and>
        (fail = None \<longrightarrow> (\<forall>r \<in> set (at_rows t). since \<le> ar_at r \<longrightarrow>
          count_list (map ar_pattern (filter (\<lambda>r. since \<le> ar_at r) (at_rows t))) (ar_pattern r) \<le>
          count_list (map ar_pattern (filter (\<lambda>r. since \<le> ar_at r) (at_rows t))) (au_most_frequent st)))) \<and>
   audit_get_stats average (Some e) f2 f3 t since = Inl (ErrWrap ''failed to get total stats: '' e) \<and>
   audit_get_stats average None (Some e) f3 t since = Inl (ErrWrap ''failed to get source breakdown: '' e)"
  using most_frequent_max [of _ "map ar_pattern (filter (\<lambda>r. since \<le> ar_at r) (at_rows t))"]
  by (auto simp: audit_get_stats_def group_counts_total Let_def)

section \<open>The contract of the interface\<close>

text \<open>What a client relies on: a page is a window of one fixed sequence of matching entries, and the
  count is the length of that sequence.\<close>

locale audit_store =
  fixes entries :: "'s \<Rightarrow> string \<Rightarrow> audit_log list"
    and get_recent :: "'s \<Rightarrow> int \<Rightarrow> int \<Rightarrow> string \<Rightarrow> audit_log list go_result"
    and get_count :: "'s \<Rightarrow> string \<Rightarrow> int go_result"
  assumes recent_window: "0 \<le> limit \<Longrightarrow> 0 \<le> offset \<Longrightarrow>
      get_recent s limit offset f = Inr (take (nat limit) (drop (nat offset) (entries s f)))"
    and count_length: "get_count s f = Inr (int (length (entries s f)))"
begin

text \<open>Asking for one entry more than the page tells whether the page is the last one.\<close>

lemma page_and_more:
  assumes "0 \<le> limit" "0 \<le> offset" "get_recent s (limit + 1) offset f = Inr logs"
  shows "take (nat limit) logs = take (nat limit) (drop (nat offset) (entries s f))"
    and "int (length logs) > limit \<longleftrightarrow> offset + limit < int (length (entries s f))"
proof -
  have logs: "logs = take (nat (limit + 1)) (drop (nat offset) (entries s f))"
    using assms recent_window [of "limit + 1" offset s f] by simp
  then show "take (nat limit) logs = take (nat limit) (drop (nat offset) (entries s f))"
    using assms(1) by (simp add: min_absorb1 nat_add_distrib)
  show "int (length logs) > limit \<longleftrightarrow> offset + limit < int (length (entries s f))"
    using assms(1,2) unfolding logs by auto
qed

end

definition audit_entries :: "keys_codec \<Rightarrow> audit_table \<Rightarrow> string \<Rightarrow> audit_log list" where
  "audit_entries codec t f = map (scan_row codec) (newest_first (where_like f (at_rows t)))"

interpretation audit: audit_store "audit_entries codec"
  "audit_get_recent codec None" "audit_get_count None" for codec
  by unfold_locales
    (auto simp: audit_get_recent_def audit_get_count_def audit_entries_def limit_offset_def
      newest_first_def take_map drop_map)

section \<open>Facts about the table\<close>

lemma exec_insert_no_unique:
  "''request_id'' \<notin> set (at_unique t) \<Longrightarrow> snd (audit_insert codec fail t log) \<noteq> None \<and>
    fst (audit_insert codec fail t log) = t"
  by (auto simp: audit_insert_def exec_insert_def Let_def split: sum.split option.split)

text \<open>With a unique index on the request the insertion is idempotent.\<close>

lemma audit_insert_success:
  assumes "audit_insert codec None t log = (t1, None)"
  shows "''request_id'' \<in> set (at_unique t1)" and "al_request log \<in> ar_request ` set (at_rows t1)"
  using assms
  by (auto simp: audit_insert_def exec_insert_def Let_def split: sum.splits if_splits)
    (metis image_eqI)

lemma audit_insert_again:
  assumes "''request_id'' \<in> set (at_unique t)" and "al_request log \<in> ar_request ` set (at_rows t)"
    and "kc_enc codec (al_keys log) = Inr j"
  shows "audit_insert codec None t log = (t\<lparr>at_next := at_next t + 1\<rparr>, None)"
  using assms by (auto simp: audit_insert_def exec_insert_def Let_def image_iff)

lemma ensure_schema_no_unique: "''request_id'' \<notin> set (at_unique (ensure_schema None))"
  by (simp add: ensure_schema_def)

end
