(* ===== verification/Invalidation.thy ===== *)
theory Invalidation
  imports PatternMatcher AuditLog CacheContract Float64
begin

text \<open>
  The invalidation service, \<open>invalidation/service.go\<close>: requests by key and by pattern are turned into
  broadcast events, audited asynchronously and counted; audit history is read with pagination.  The
  topic is a function of the abstract bus \<open>'w\<close>; a started goroutine that writes an audit entry is
  queued and runs as a step of its own.
\<close>

section \<open>State\<close>

record inv_metrics =
  im_total :: int
  im_key :: int
  im_pattern :: int
  im_audit_writes :: int
  im_publishes :: int
  im_errors :: int

text \<open>The captured variables of an audit goroutine.\<close>

record audit_job =
  aj_pattern :: "string option"   \<comment> \<open>none: the pattern is formatted from the keys\<close>
  aj_keys :: "string list"
  aj_by :: string
  aj_at :: time
  aj_request :: string
  aj_start :: time

record 'w inv_service =
  is_matcher :: pm_state
  is_table :: audit_table
  is_metrics :: inv_metrics
  is_jobs :: "audit_job list"
  is_bus :: 'w

record 'w inv_env =
  ivt_publish :: "'w \<Rightarrow> inval_event \<Rightarrow> 'w \<times> go_error option"
  ivt_regexp :: "string \<Rightarrow> regex go_result"
  ivt_codec :: keys_codec

definition inv_init :: "'w \<Rightarrow> audit_table option \<Rightarrow> go_error option \<Rightarrow> 'w inv_service go_result" where
  "inv_init w existing fail =
     (case new_audit_logger fail existing of
        Inl err \<Rightarrow> Inl (ErrWrap ''failed to initialize audit logger: '' err)
      | Inr t \<Rightarrow> Inr \<lparr>is_matcher = pm_new, is_table = t,
          is_metrics = \<lparr>im_total = 0, im_key = 0, im_pattern = 0, im_audit_writes = 0,
            im_publishes = 0, im_errors = 0\<rparr>,
          is_jobs = [], is_bus = w\<rparr>)"

section \<open>Helpers\<close>

fun dedup_loop :: "string list \<Rightarrow> string list \<Rightarrow> string list \<Rightarrow> string list" where
  "dedup_loop seen result [] = result"
| "dedup_loop seen result (key # keys) =
     (if key \<notin> set seen then dedup_loop (key # seen) (result @ [key]) keys
      else dedup_loop seen result keys)"

definition deduplicate_keys :: "string list \<Rightarrow> string list" where
  "deduplicate_keys keys = dedup_loop [] [] keys"

text \<open>The error of \<open>json.Marshal\<close> is dropped, and then the data is nil.\<close>

definition format_keys_as_pattern :: "keys_codec \<Rightarrow> string list \<Rightarrow> string" where
  "format_keys_as_pattern codec keys =
     (if length keys = 0 then []
      else if length keys = 1 then keys ! 0
      else case kc_enc codec keys of Inl _ \<Rightarrow> [] | Inr data \<Rightarrow> data)"

definition generate_request_id :: "time \<Rightarrow> time \<Rightarrow> string" where
  "generate_request_id t1 t2 =
     ''inv-'' @ int_dec (i64 t1) @ ''-'' @ int_dec ((t2 mod second) mod 1000)"

section \<open>Requests\<close>

record inv_request =
  iq_keys :: "string list"
  iq_pattern :: string
  iq_by :: string
  iq_request :: string
  iq_cache_keys :: "string list"

record inv_response =
  ip_count :: int
  ip_keys :: "string list"
  ip_request :: string
  ip_at :: time

abbreviation inv_count :: "(inv_metrics \<Rightarrow> inv_metrics) \<Rightarrow> 'w inv_service \<Rightarrow> 'w inv_service" where
  "inv_count f s \<equiv> s\<lparr>is_metrics := f (is_metrics s)\<rparr>"

text \<open>Filling in the optional fields of a request.\<close>

definition inv_source :: "inv_request \<Rightarrow> string" where
  "inv_source req = (if iq_by req = [] then ''unknown'' else iq_by req)"

definition inv_request_id :: "(nat \<Rightarrow> time) \<Rightarrow> inv_request \<Rightarrow> string" where
  "inv_request_id clk req =
     (if iq_request req = [] then generate_request_id (clk 1) (clk 2) else iq_request req)"

definition inv_key ::
    "'w inv_env \<Rightarrow> (nat \<Rightarrow> time) \<Rightarrow> 'w inv_service \<Rightarrow> inv_request \<Rightarrow>
     'w inv_service \<times> inv_response go_result" where
  "inv_key env clk s req =
     (if iq_keys req = [] then (s, Inl (ErrMsg ''keys cannot be empty''))
      else
        (let by = inv_source req;
             rid = inv_request_id clk req;
             unique_keys = deduplicate_keys (iq_keys req);
             event = \<lparr>ie_pattern = [], ie_keys = unique_keys, ie_by = by, ie_at = clk 3, ie_request = rid\<rparr>;
             (w, err) = ivt_publish env (is_bus s) event;
             s = s\<lparr>is_bus := w\<rparr>
         in case err of
              Some e \<Rightarrow> (inv_count (\<lambda>m. m\<lparr>im_errors := add64 (im_errors m) 1\<rparr>) s,
                Inl (ErrWrap ''failed to publish invalidation event: '' e))
            | None \<Rightarrow>
                (let s = inv_count (\<lambda>m. m\<lparr>im_publishes := add64 (im_publishes m) 1\<rparr>) s;
                     s = s\<lparr>is_jobs := is_jobs s @ [\<lparr>aj_pattern = None, aj_keys = unique_keys,
                           aj_by = by, aj_at = clk 3, aj_request = rid, aj_start = clk 0\<rparr>]\<rparr>;
                     s = inv_count (\<lambda>m. m\<lparr>im_total := add64 (im_total m) 1,
                           im_key := add64 (im_key m) 1\<rparr>) s
                 in (s, Inr \<lparr>ip_count = int (length unique_keys), ip_keys = unique_keys,
                      ip_request = rid, ip_at = clk 3\<rparr>))))"

definition inv_pattern ::
    "'w inv_env \<Rightarrow> (nat \<Rightarrow> time) \<Rightarrow> 'w inv_service \<Rightarrow> inv_request \<Rightarrow>
     'w inv_service \<times> inv_response go_result" where
  "inv_pattern env clk s req =
     (if iq_pattern req = [] then (s, Inl (ErrMsg ''pattern cannot be empty''))
      else
        (let by = inv_source req;
             rid = inv_request_id clk req;
             (pm, matched) = (if iq_cache_keys req \<noteq> []
               then pm_match (ivt_regexp env) (is_matcher s) (iq_pattern req) (iq_cache_keys req)
               else (is_matcher s, []));
             s = s\<lparr>is_matcher := pm\<rparr>;
             event = \<lparr>ie_pattern = iq_pattern req, ie_keys = matched, ie_by = by, ie_at = clk 3,
               ie_request = rid\<rparr>;
             (w, err) = ivt_publish env (is_bus s) event;
             s = s\<lparr>is_bus := w\<rparr>
         in case err of
              Some e \<Rightarrow> (inv_count (\<lambda>m. m\<lparr>im_errors := add64 (im_errors m) 1\<rparr>) s,
                Inl (ErrWrap ''failed to publish invalidation event: '' e))
            | None \<Rightarrow>
                (let s = inv_count (\<lambda>m. m\<lparr>im_publishes := add64 (im_publishes m) 1\<rparr>) s;
                     s = s\<lparr>is_jobs := is_jobs s @ [\<lparr>aj_pattern = Some (iq_pattern req),
                           aj_keys = matched, aj_by = by, aj_at = clk 3, aj_request = rid,
                           aj_start = clk 0\<rparr>]\<rparr>;
                     s = inv_count (\<lambda>m. m\<lparr>im_total := add64 (im_total m) 1,
                           im_pattern := add64 (im_pattern m) 1\<rparr>) s
                 in (s, Inr \<lparr>ip_count = int (length matched), ip_keys = matched,
                      ip_request = rid, ip_at = clk 3\<rparr>))))"

text \<open>An audit goroutine runs at time \<open>now\<close>; \<open>fail\<close> is the failure of the database, if any.\<close>

definition inv_run_job ::
    "'w inv_env \<Rightarrow> time \<Rightarrow> go_error option \<Rightarrow> 'w inv_service \<Rightarrow> 'w inv_service" where
  "inv_run_job env now fail s =
     (case is_jobs s of
        [] \<Rightarrow> s
      | j # rest \<Rightarrow>
          (let log = \<lparr>al_id = 0,
                 al_pattern = (case aj_pattern j of Some p \<Rightarrow> p
                   | None \<Rightarrow> format_keys_as_pattern (ivt_codec env) (aj_keys j)),
                 al_keys = aj_keys j, al_by = aj_by j, al_at = aj_at j, al_request = aj_request j,
                 al_latency = dur_ms (time_sub now (aj_start j))\<rparr>;
               (t, err) = audit_insert (ivt_codec env) fail (is_table s) log;
               s = s\<lparr>is_jobs := rest, is_table := t\<rparr>
           in if err \<noteq> None
              then inv_count (\<lambda>m. m\<lparr>im_errors := add64 (im_errors m) 1\<rparr>) s
              else inv_count (\<lambda>m. m\<lparr>im_audit_writes := add64 (im_audit_writes m) 1\<rparr>) s))"

section \<open>Audit history and metrics\<close>

record audit_page =
  ap_logs :: "audit_log list"
  ap_total :: int
  ap_more :: bool

definition page_limit :: "int \<Rightarrow> int" where
  "page_limit l = (let l = (if l \<le> 0 then 50 else l) in if l > 1000 then 1000 else l)"

definition page_offset :: "int \<Rightarrow> int" where
  "page_offset o' = (if o' < 0 then 0 else o')"

definition inv_get_audit_logs ::
    "'w inv_env \<Rightarrow> go_error option \<Rightarrow> go_error option \<Rightarrow> 'w inv_service \<Rightarrow> int \<Rightarrow> int \<Rightarrow> string \<Rightarrow>
     'w inv_service \<times> audit_page go_result" where
  "inv_get_audit_logs env fail1 fail2 s limit offset pattern =
     (let limit = page_limit limit; offset = page_offset offset in
      case audit_get_recent (ivt_codec env) fail1 (is_table s) (limit + 1) offset pattern of
        Inl err \<Rightarrow> (inv_count (\<lambda>m. m\<lparr>im_errors := add64 (im_errors m) 1\<rparr>) s,
          Inl (ErrWrap ''failed to fetch audit logs: '' err))
      | Inr logs \<Rightarrow>
          (let has_more = int (length logs) > limit;
               logs = (if has_more then take (nat limit) logs else logs);
               total = (case audit_get_count fail2 (is_table s) pattern of
                 Inl _ \<Rightarrow> int (length logs) | Inr n \<Rightarrow> n)
           in (s, Inr \<lparr>ap_logs = logs, ap_total = total, ap_more = has_more\<rparr>)))"

record inv_metrics_response =
  ir_metrics :: inv_metrics
  ir_ratio :: f64

definition inv_get_metrics :: "'w inv_service \<Rightarrow> inv_metrics_response" where
  "inv_get_metrics s =
     (let total = im_total (is_metrics s); pattern = im_pattern (is_metrics s)
      in \<lparr>ir_metrics = is_metrics s, ir_ratio = (if total > 0 then f_ratio pattern total else Fin 0)\<rparr>)"

section \<open>Lemmas\<close>

lemma dedup_loop_uniq:
  "set seen = set result \<Longrightarrow> dedup_loop seen result keys = result @ uniq seen keys"
proof (induction seen result keys rule: dedup_loop.induct)
  case (2 seen result key keys)
  then show ?case by auto
qed simp

lemma deduplicate_keys_uniq: "deduplicate_keys keys = uniq [] keys"
  by (simp add: deduplicate_keys_def dedup_loop_uniq)

lemma deduplicate_keys_facts:
  "set (deduplicate_keys keys) = set keys" "distinct (deduplicate_keys keys)"
  "length (deduplicate_keys keys) = card (set keys)"
  by (simp_all add: deduplicate_keys_uniq set_uniq distinct_uniq length_uniq)

lemma request_id_nonempty: "inv_request_id clk req \<noteq> []"
  by (simp add: inv_request_id_def generate_request_id_def)

lemma page_limit_range: "1 \<le> page_limit l \<and> page_limit l \<le> 1000"
  by (simp add: page_limit_def Let_def)

text \<open>Two identifiers generated at different nanoseconds differ.\<close>

lemma generate_request_id_inject:
  assumes "in_i64 a" "in_i64 b" "generate_request_id a c = generate_request_id b d"
  shows "a = b"
proof -
  have digits: "CHR ''-'' \<notin> set (nat_dec n)" for n
    using nat_dec_digits [of "CHR ''-''" n] by auto
  have split: "u = v" if "int_dec u @ CHR ''-'' # x = int_dec v @ CHR ''-'' # y" for u v x y
  proof -
    have tail: "takeWhile (\<lambda>c. c \<noteq> CHR ''-'') (nat_dec n @ CHR ''-'' # z) = nat_dec n" for n z
      by (subst takeWhile_append2) (use digits [of n] in auto)
    have ne: "nat_dec n \<noteq> []" for n by (subst nat_dec.simps) simp
    have hd: "hd (nat_dec n @ z) \<noteq> CHR ''-''" for n z
      using digits [of n] ne [of n] by (cases "nat_dec n") auto
    show ?thesis
    proof (cases "u < 0 \<longleftrightarrow> v < 0")
      case True
      with that have "nat_dec (nat \<bar>u\<bar>) @ CHR ''-'' # x = nat_dec (nat \<bar>v\<bar>) @ CHR ''-'' # y"
        by (auto simp: int_dec_def split: if_splits)
      then have "nat_dec (nat \<bar>u\<bar>) = nat_dec (nat \<bar>v\<bar>)" by (metis tail)
      with True show ?thesis by (auto simp: nat_dec_inject)
    next
      case False
      with that have False
        using hd by (auto simp: int_dec_def split: if_splits) (metis list.sel(1))+
      then show ?thesis ..
    qed
  qed
  show ?thesis
    using assms(3) by (auto simp: generate_request_id_def assms(1,2) dest: split)
qed

section \<open>Properties\<close>

text \<open>
  Further result.  Invalidation by key, every branch: no keys is an error that changes nothing; otherwise
  one event is given to the topic, with an empty pattern, the distinct keys of the request and a
  non-empty request id; a failed publication is counted as an error and reported; a successful one
  is answered with the number of distinct keys and queues exactly one audit entry for them.
\<close>

theorem inv_key_publishes:
  "case inv_key env clk s req of (s', r) \<Rightarrow>
     if iq_keys req = [] then s' = s \<and> r = Inl (ErrMsg ''keys cannot be empty'')
     else \<exists>ev. ie_pattern ev = [] \<and> distinct (ie_keys ev) \<and> set (ie_keys ev) = set (iq_keys req) \<and>
       ie_request ev \<noteq> [] \<and> is_bus s' = fst (ivt_publish env (is_bus s) ev) \<and>
       (case snd (ivt_publish env (is_bus s) ev) of
          Some e \<Rightarrow> r = Inl (ErrWrap ''failed to publish invalidation event: '' e) \<and>
            im_errors (is_metrics s') = add64 (im_errors (is_metrics s)) 1 \<and> is_jobs s' = is_jobs s
        | None \<Rightarrow> (\<exists>resp job. r = Inr resp \<and> ip_count resp = int (card (set (iq_keys req))) \<and>
            ip_keys resp = ie_keys ev \<and> ip_request resp = ie_request ev \<and>
            is_jobs s' = is_jobs s @ [job] \<and> aj_keys job = ie_keys ev \<and>
            aj_request job = ie_request ev))"
proof (cases "iq_keys req = []")
  case True
  then show ?thesis by (simp add: inv_key_def)
next
  case False
  let ?ev = "\<lparr>ie_pattern = [], ie_keys = deduplicate_keys (iq_keys req), ie_by = inv_source req,
    ie_at = clk 3, ie_request = inv_request_id clk req\<rparr>"
  obtain w err where p: "ivt_publish env (is_bus s) ?ev = (w, err)" by fastforce
  show ?thesis
    using False p
    by (cases err) (auto simp: inv_key_def Let_def deduplicate_keys_facts request_id_nonempty
        intro!: exI [of _ ?ev])
qed

text \<open>
  Property C20.  Pagination: a page is the window of at most 1000 entries at the requested offset in
  the newest-first sequence of matching entries, the flag says exactly whether entries remain behind
  it, and the total is the length of the sequence.
\<close>

theorem audit_pagination:
  "let entries = audit_entries (ivt_codec env) (is_table s) pattern;
       l = page_limit limit; o' = page_offset offset
   in \<exists>page. inv_get_audit_logs env None None s limit offset pattern = (s, Inr page) \<and>
     ap_logs page = take (nat l) (drop (nat o') entries) \<and> length (ap_logs page) \<le> 1000 \<and>
     ap_total page = int (length entries) \<and> (ap_more page \<longleftrightarrow> o' + l < int (length entries))"
proof -
  let ?l = "page_limit limit" and ?o = "page_offset offset"
  have l: "0 \<le> ?l" "?l \<le> 1000" and o: "0 \<le> ?o"
    using page_limit_range [of limit] by (auto simp: page_offset_def)
  obtain logs where logs: "audit_get_recent (ivt_codec env) None (is_table s) (?l + 1) ?o pattern = Inr logs"
    using audit.recent_window [of "?l + 1" ?o "ivt_codec env" "is_table s" pattern] l o by auto
  note page = audit.page_and_more [OF l(1) o logs]
  have "(if int (length logs) > ?l then take (nat ?l) logs else logs) = take (nat ?l) logs" by simp
  then show ?thesis
    using logs page l audit.count_length [of "is_table s" pattern "ivt_codec env"]
    by (simp add: inv_get_audit_logs_def Let_def)
qed

text \<open>
  Property C21.  With the schema the service creates, no audit entry is ever stored: the insertion asks
  for a unique index on \<open>request_id\<close> that does not exist, so each queued entry is dropped and counted
  as an error, whatever the requests and the database's other failures.
\<close>

theorem audit_never_written:
  assumes "inv_init w None None = Inr s" and "is_jobs s0 = j # rest" and "is_table s0 = is_table s"
  shows "is_table (inv_run_job env now fail s0) = is_table s \<and>
    is_jobs (inv_run_job env now fail s0) = rest \<and>
    im_audit_writes (is_metrics (inv_run_job env now fail s0)) = im_audit_writes (is_metrics s0) \<and>
    im_errors (is_metrics (inv_run_job env now fail s0)) = add64 (im_errors (is_metrics s0)) 1"
proof -
  have "is_table s0 = ensure_schema None"
    using assms(1,3) by (auto simp: inv_init_def new_audit_logger_def)
  then have ins: "snd (audit_insert c fail (is_table s0) log) \<noteq> None"
    "fst (audit_insert c fail (is_table s0) log) = is_table s0" for c log
    using exec_insert_no_unique ensure_schema_no_unique by metis+
  show ?thesis
    using ins assms(3) by (simp add: inv_run_job_def assms(2) case_prod_beta Let_def)
qed

definition demo_inv_env :: "nat inv_env" where
  "demo_inv_env = \<lparr>ivt_publish = (\<lambda>w ev. (w + 1, None)), ivt_regexp = (\<lambda>_. Inl (ErrMsg ''bad'')),
     ivt_codec = \<lparr>kc_enc = (\<lambda>ks. Inr (concat ks)), kc_dec = (\<lambda>d. Inr [d])\<rparr>\<rparr>"

definition demo_inv_request :: inv_request where
  "demo_inv_request = \<lparr>iq_keys = [''a'', ''b'', ''a''], iq_pattern = [], iq_by = [],
     iq_request = ''r1'', iq_cache_keys = []\<rparr>"

theorem audit_never_written_witness:
  "\<exists>s. inv_init (0::nat) None None = Inr s \<and>
     (let s0 = fst (inv_key demo_inv_env (\<lambda>_. 0) s demo_inv_request);
          s1 = inv_run_job demo_inv_env 5 None s0
      in is_table s1 = is_table s \<and> is_jobs s1 = [] \<and> im_errors (is_metrics s1) = 1)"
proof -
  obtain s where s: "inv_init (0::nat) None None = Inr s" "is_jobs s = []" "im_errors (is_metrics s) = 0"
    by (simp add: inv_init_def new_audit_logger_def)
  let ?s0 = "fst (inv_key demo_inv_env (\<lambda>_. 0) s demo_inv_request)"
  obtain j where j: "is_jobs ?s0 = [j]" "is_table ?s0 = is_table s" "im_errors (is_metrics ?s0) = 0"
    using s by (simp add: inv_key_def demo_inv_request_def demo_inv_env_def Let_def)
  from audit_never_written [OF s(1) j(1,2), of demo_inv_env 5 None] j(3) s(1) show ?thesis
    by (auto simp: add64_def in_i64_def Let_def)
qed

end
