(* ===== verification/RateLimit.thy ===== *)
theory RateLimit
  imports Float64
begin

text \<open>
  The token-bucket rate limiter, \<open>pkg/middleware/ratelimit.go\<close>.  \<open>tryConsume\<close> is given twice: as one
  operation, for the sequential behaviour, and as a transition system whose steps are its atomic
  loads, its compare-and-swap and its store, for the behaviour under concurrency.  Clock readings are
  \<open>UnixNano\<close> values.
\<close>

section \<open>State\<close>

record bucket =
  bk_tokens :: int
  bk_last :: int
  bk_max :: int
  bk_rate :: f64

record token_bucket =
  tb_rate :: f64
  tb_size :: int
  tb_buckets :: "(string \<times> bucket) list"
  tb_global :: bucket

definition new_token_bucket :: "f64 \<Rightarrow> int \<Rightarrow> int \<Rightarrow> token_bucket go_result" where
  "new_token_bucket rate cap now =
     (if f_le rate (Fin 0) then Inl (ErrMsg ''refillRate must be positive'')
      else if cap \<le> 0 then Inl (ErrMsg ''bucketSize must be positive'')
      else Inr \<lparr>tb_rate = rate, tb_size = cap, tb_buckets = [],
        tb_global = \<lparr>bk_tokens = cap, bk_last = now, bk_max = cap, bk_rate = rate\<rparr>\<rparr>)"

section \<open>The bucket\<close>

text \<open>\<open>Duration.Seconds\<close>: the whole seconds and the nanoseconds are converted apart.\<close>

definition dur_seconds :: "duration \<Rightarrow> f64" where
  "dur_seconds d = f_add (f_of_int (go_div d second))
     (f_div (f_of_int (d - go_div d second * second)) (f_of_int 1000000000))"

definition refill_amount :: "f64 \<Rightarrow> duration \<Rightarrow> int" where
  "refill_amount rate elapsed = f_to_int (f_mul rate (dur_seconds elapsed))"

text \<open>The new token count, from the loaded token count and refill time.\<close>

definition refilled :: "int \<Rightarrow> f64 \<Rightarrow> int \<Rightarrow> int \<Rightarrow> int \<Rightarrow> int" where
  "refilled max_tokens rate now current last_fill =
     (let elapsed = i64 (now - last_fill);
          new_tokens = i64 (current + refill_amount rate elapsed)
      in if new_tokens > max_tokens then max_tokens else new_tokens)"

definition try_consume :: "int \<Rightarrow> int \<Rightarrow> bucket \<Rightarrow> bucket \<times> bool" where
  "try_consume now n b =
     (let new_tokens = refilled (bk_max b) (bk_rate b) now (bk_tokens b) (bk_last b)
      in if new_tokens < n then (b, False)
         else (b\<lparr>bk_tokens := i64 (new_tokens - n), bk_last := now\<rparr>, True))"

definition bucket_reset :: "int \<Rightarrow> bucket \<Rightarrow> bucket" where
  "bucket_reset now b = b\<lparr>bk_tokens := bk_max b, bk_last := now\<rparr>"

definition current_tokens :: "int \<Rightarrow> bucket \<Rightarrow> bucket \<times> int" where
  "current_tokens now b = (let b = fst (try_consume now 0 b) in (b, bk_tokens b))"

section \<open>The limiter\<close>

definition get_or_create_bucket :: "int \<Rightarrow> token_bucket \<Rightarrow> string \<Rightarrow> token_bucket \<times> bucket" where
  "get_or_create_bucket now tb key =
     (case map_of (tb_buckets tb) key of
        Some b \<Rightarrow> (tb, b)
      | None \<Rightarrow>
          (let b = \<lparr>bk_tokens = tb_size tb, bk_last = now, bk_max = tb_size tb, bk_rate = tb_rate tb\<rparr>
           in (tb\<lparr>tb_buckets := AList.update key b (tb_buckets tb)\<rparr>, b)))"

definition consume_key :: "int \<Rightarrow> int \<Rightarrow> token_bucket \<Rightarrow> string \<Rightarrow> int \<Rightarrow> token_bucket \<times> bool" where
  "consume_key now0 now tb key n =
     (let (tb, b) = get_or_create_bucket now0 tb key; (b, ok) = try_consume now n b
      in (tb\<lparr>tb_buckets := AList.update key b (tb_buckets tb)\<rparr>, ok))"

definition tb_allow :: "int \<Rightarrow> int \<Rightarrow> token_bucket \<Rightarrow> string \<Rightarrow> token_bucket \<times> bool" where
  "tb_allow now0 now tb key = (if key = [] then (tb, False) else consume_key now0 now tb key 1)"

definition tb_allow_n :: "int \<Rightarrow> int \<Rightarrow> token_bucket \<Rightarrow> string \<Rightarrow> int \<Rightarrow> token_bucket \<times> bool" where
  "tb_allow_n now0 now tb key n =
     (if key = [] \<or> n \<le> 0 then (tb, False) else consume_key now0 now tb key n)"

definition tb_allow_global :: "int \<Rightarrow> token_bucket \<Rightarrow> token_bucket \<times> bool" where
  "tb_allow_global now tb =
     (let (b, ok) = try_consume now 1 (tb_global tb) in (tb\<lparr>tb_global := b\<rparr>, ok))"

text \<open>The middleware: what the handler does with a request.\<close>

datatype http_outcome = ServedNext | TooManyRequests string

record http_request =
  hq_header :: "string \<Rightarrow> string"
  hq_remote :: string

definition rate_limit_middleware ::
    "int \<Rightarrow> int \<Rightarrow> (http_request \<Rightarrow> string) \<Rightarrow> token_bucket \<Rightarrow> http_request \<Rightarrow> token_bucket \<times> http_outcome" where
  "rate_limit_middleware now0 now key_func tb r =
     (let key = key_func r in
      if key = [] then (tb, ServedNext)
      else (let (tb, ok) = tb_allow now0 now tb key
            in (tb, if \<not> ok then TooManyRequests ''Rate limit exceeded'' else ServedNext)))"

definition key_by_ip :: "http_request \<Rightarrow> string" where
  "key_by_ip r =
     (if hq_header r ''X-Forwarded-For'' \<noteq> [] then hq_header r ''X-Forwarded-For''
      else if hq_header r ''X-Real-IP'' \<noteq> [] then hq_header r ''X-Real-IP''
      else hq_remote r)"

definition key_by_header :: "string \<Rightarrow> http_request \<Rightarrow> string" where
  "key_by_header name r = hq_header r name"

text \<open>\<open>GetStats\<close> visits the keys in the order of the map and refills the buckets it samples.\<close>

record rl_stats =
  rs_total :: int
  rs_global :: int
  rs_samples :: "(string \<times> int) list"

fun sample_buckets ::
    "int \<Rightarrow> (string \<times> bucket) list \<Rightarrow> (string \<times> int) list \<Rightarrow> (string \<times> bucket) list \<times> (string \<times> int) list" where
  "sample_buckets now [] acc = ([], acc)"
| "sample_buckets now ((k, b) # rest) acc =
     (if length acc < 10
      then (let (b, t) = current_tokens now b; (rest, acc) = sample_buckets now rest (acc @ [(k, t)])
            in ((k, b) # rest, acc))
      else (let (rest, acc) = sample_buckets now rest acc in ((k, b) # rest, acc)))"

definition tb_get_stats :: "int \<Rightarrow> token_bucket \<Rightarrow> token_bucket \<times> rl_stats" where
  "tb_get_stats now tb =
     (let (g, gt) = current_tokens now (tb_global tb);
          (bs, samples) = sample_buckets now (tb_buckets tb) []
      in (tb\<lparr>tb_global := g, tb_buckets := bs\<rparr>,
          \<lparr>rs_total = int (length (tb_buckets tb)), rs_global = gt, rs_samples = samples\<rparr>))"

definition tb_evict_stale :: "time \<Rightarrow> duration \<Rightarrow> token_bucket \<Rightarrow> token_bucket \<times> int" where
  "tb_evict_stale now stale tb =
     (let threshold = i64 (time_add now (i64 (- stale)));
          keep = filter (\<lambda>(k, b). \<not> bk_last b < threshold) (tb_buckets tb)
      in (tb\<lparr>tb_buckets := keep\<rparr>, int (length (tb_buckets tb)) - int (length keep)))"

section \<open>The lock-free loop as a transition system\<close>

text \<open>A goroutine in \<open>tryConsume(n)\<close> with clock reading \<open>now\<close>: it loads the tokens, loads the refill
  time, and then gives up, or swaps and stores; a failed swap starts over with the same reading.\<close>

datatype tc_pc =
    TcIdle
  | TcLoop int int                    \<comment> \<open>\<open>now\<close>, \<open>n\<close>\<close>
  | TcTokens int int int              \<comment> \<open>tokens loaded\<close>
  | TcReady int int int int           \<comment> \<open>tokens and refill time loaded\<close>
  | TcSwapped int                     \<comment> \<open>swapped, about to store the refill time\<close>
  | TcDone bool
  | TcResetting int                   \<comment> \<open>in \<open>Reset\<close>, between its two stores\<close>

type_synonym tc_state = "bucket \<times> (nat \<Rightarrow> tc_pc)"

inductive tc_step :: "tc_state \<Rightarrow> tc_state \<Rightarrow> bool" where
  tc_enter: "pc t = TcIdle \<Longrightarrow> 0 \<le> n \<Longrightarrow> tc_step (b, pc) (b, pc(t := TcLoop now n))"
| tc_load_tokens: "pc t = TcLoop now n \<Longrightarrow>
    tc_step (b, pc) (b, pc(t := TcTokens now n (bk_tokens b)))"
| tc_load_last: "pc t = TcTokens now n cur \<Longrightarrow>
    tc_step (b, pc) (b, pc(t := TcReady now n cur (bk_last b)))"
| tc_deny: "pc t = TcReady now n cur last_fill \<Longrightarrow>
    refilled (bk_max b) (bk_rate b) now cur last_fill < n \<Longrightarrow> tc_step (b, pc) (b, pc(t := TcDone False))"
| tc_swap: "pc t = TcReady now n cur last_fill \<Longrightarrow> new = refilled (bk_max b) (bk_rate b) now cur last_fill \<Longrightarrow>
    \<not> new < n \<Longrightarrow> bk_tokens b = cur \<Longrightarrow>
    tc_step (b, pc) (b\<lparr>bk_tokens := i64 (new - n)\<rparr>, pc(t := TcSwapped now))"
| tc_retry: "pc t = TcReady now n cur last_fill \<Longrightarrow>
    \<not> refilled (bk_max b) (bk_rate b) now cur last_fill < n \<Longrightarrow> bk_tokens b \<noteq> cur \<Longrightarrow>
    tc_step (b, pc) (b, pc(t := TcLoop now n))"
| tc_store: "pc t = TcSwapped now \<Longrightarrow>
    tc_step (b, pc) (b\<lparr>bk_last := now\<rparr>, pc(t := TcDone True))"
| tc_reset: "pc t = TcIdle \<Longrightarrow>
    tc_step (b, pc) (b\<lparr>bk_tokens := bk_max b\<rparr>, pc(t := TcResetting now))"
| tc_reset_store: "pc t = TcResetting now \<Longrightarrow>
    tc_step (b, pc) (b\<lparr>bk_last := now\<rparr>, pc(t := TcDone True))"

definition tc_start :: "f64 \<Rightarrow> int \<Rightarrow> int \<Rightarrow> tc_state" where
  "tc_start rate cap now =
     (\<lparr>bk_tokens = cap, bk_last = now, bk_max = cap, bk_rate = rate\<rparr>, \<lambda>_. TcIdle)"

abbreviation tc_steps :: "tc_state \<Rightarrow> tc_state \<Rightarrow> bool" where
  "tc_steps \<equiv> tc_step\<^sup>*\<^sup>*"

inductive_cases tc_stepE: "tc_step (b, pc) s'"

section \<open>Invariants\<close>

lemma refilled_le: "refilled m rate now cur last_fill \<le> m"
  by (simp add: refilled_def Let_def)

definition tc_inv :: "int \<Rightarrow> bucket \<Rightarrow> bool" where
  "tc_inv m b \<longleftrightarrow> bk_max b = m \<and> 0 \<le> bk_tokens b \<and> bk_tokens b \<le> m \<and> in_i64 m"

definition tc_pc_ok :: "tc_pc \<Rightarrow> bool" where
  "tc_pc_ok p \<longleftrightarrow> (case p of TcLoop _ n \<Rightarrow> 0 \<le> n | TcTokens _ n _ \<Rightarrow> 0 \<le> n
     | TcReady _ n _ _ \<Rightarrow> 0 \<le> n | _ \<Rightarrow> True)"

lemma swap_tokens:
  assumes "tc_inv m b" "\<not> refilled (bk_max b) rate now cur last_fill < n" "0 \<le> n"
  shows "tc_inv m (b\<lparr>bk_tokens := i64 (refilled (bk_max b) rate now cur last_fill - n)\<rparr>)"
proof -
  let ?new = "refilled (bk_max b) rate now cur last_fill"
  have "0 \<le> ?new - n" "?new - n \<le> m" using assms refilled_le [of "bk_max b" rate now cur last_fill]
    by (auto simp: tc_inv_def)
  moreover have "in_i64 (?new - n)" using calculation assms(1) by (auto simp: tc_inv_def in_i64_def)
  ultimately show ?thesis using assms(1) by (simp add: tc_inv_def)
qed

lemma tc_inv_step:
  assumes "tc_step s s'" "tc_inv m (fst s)" "\<forall>t. tc_pc_ok (snd s t)"
  shows "tc_inv m (fst s') \<and> (\<forall>t. tc_pc_ok (snd s' t))"
  using assms
proof (induction rule: tc_step.induct)
  case (tc_enter pc t n b now)
  then show ?case by (simp add: tc_pc_ok_def)
next
  case (tc_load_tokens pc t now n b)
  then have "tc_pc_ok (TcLoop now n)" by (metis snd_conv)
  with tc_load_tokens show ?case by (simp add: tc_pc_ok_def)
next
  case (tc_load_last pc t now n cur b)
  then have "tc_pc_ok (TcTokens now n cur)" by (metis snd_conv)
  with tc_load_last show ?case by (simp add: tc_pc_ok_def)
next
  case (tc_deny pc t now n cur last_fill b)
  then show ?case by (simp add: tc_pc_ok_def)
next
  case (tc_swap pc t now n cur last_fill new b)
  then have "tc_pc_ok (TcReady now n cur last_fill)" by (metis snd_conv)
  with tc_swap show ?case using swap_tokens [of m b "bk_rate b" now cur last_fill n]
    by (simp add: tc_pc_ok_def)
next
  case (tc_retry pc t now n cur last_fill b)
  then have "tc_pc_ok (TcReady now n cur last_fill)" by (metis snd_conv)
  with tc_retry show ?case by (simp add: tc_pc_ok_def)
next
  case (tc_store pc t now b)
  then show ?case by (simp add: tc_pc_ok_def tc_inv_def)
next
  case (tc_reset pc t b now)
  then show ?case by (simp add: tc_pc_ok_def tc_inv_def)
next
  case (tc_reset_store pc t now b)
  then show ?case by (simp add: tc_pc_ok_def tc_inv_def)
qed

lemma tc_inv_steps:
  assumes "tc_steps s s'" "tc_inv m (fst s)" "\<forall>t. tc_pc_ok (snd s t)"
  shows "tc_inv m (fst s') \<and> (\<forall>t. tc_pc_ok (snd s' t))"
  using assms by (induction rule: rtranclp_induct) (auto dest: tc_inv_step)

text \<open>Running alone, the loop is the sequential operation.\<close>

lemma tc_alone:
  assumes "pc t = TcIdle" "0 \<le> n"
  shows "\<exists>pc'. tc_steps (b, pc) (fst (try_consume now n b), pc') \<and>
    pc' t = TcDone (snd (try_consume now n b)) \<and> (\<forall>u. u \<noteq> t \<longrightarrow> pc' u = pc u)"
proof -
  let ?new = "refilled (bk_max b) (bk_rate b) now (bk_tokens b) (bk_last b)"
  define p1 p2 p3 where "p1 = pc(t := TcLoop now n)" and "p2 = p1(t := TcTokens now n (bk_tokens b))"
    and "p3 = p2(t := TcReady now n (bk_tokens b) (bk_last b))"
  have "tc_step (b, pc) (b, p1)" unfolding p1_def using assms by (rule tc_enter)
  moreover have "tc_step (b, p1) (b, p2)" unfolding p2_def by (rule tc_load_tokens) (simp add: p1_def)
  moreover have "tc_step (b, p2) (b, p3)" unfolding p3_def by (rule tc_load_last) (simp add: p2_def)
  ultimately have s3: "tc_steps (b, pc) (b, p3)" by (meson r_into_rtranclp rtranclp_trans)
  have same: "\<forall>u. u \<noteq> t \<longrightarrow> p3 u = pc u" by (simp add: p3_def p2_def p1_def)
  show ?thesis
  proof (cases "?new < n")
    case True
    have "tc_step (b, p3) (b, p3(t := TcDone False))"
      by (rule tc_deny) (use True in \<open>simp_all add: p3_def\<close>)
    with s3 have "tc_steps (b, pc) (b, p3(t := TcDone False))" by (rule rtranclp.rtrancl_into_rtrancl)
    with True same show ?thesis
      by (intro exI [of _ "p3(t := TcDone False)"]) (simp add: try_consume_def Let_def)
  next
    case False
    let ?b = "b\<lparr>bk_tokens := i64 (?new - n)\<rparr>"
    have "tc_step (b, p3) (?b, p3(t := TcSwapped now))"
      by (rule tc_swap) (use False in \<open>simp_all add: p3_def\<close>)
    moreover have "tc_step (?b, p3(t := TcSwapped now))
        (?b\<lparr>bk_last := now\<rparr>, (p3(t := TcSwapped now))(t := TcDone True))"
      by (rule tc_store) simp
    ultimately have "tc_steps (b, pc) (?b\<lparr>bk_last := now\<rparr>, p3(t := TcDone True))"
      using s3 by (simp add: rtranclp.rtrancl_into_rtrancl)
    with False same show ?thesis
      by (intro exI [of _ "p3(t := TcDone True)"]) (simp add: try_consume_def Let_def)
  qed
qed

section \<open>Refill amounts\<close>

lemma fl_of_nat_numerals: "fl (of_int n) = Fin (of_int n)" if "\<bar>n\<bar> < 2 ^ 53"
  using that by (rule fl_int)

lemma dur_seconds_whole:
  assumes "0 \<le> k" "k < 2 ^ 53"
  shows "dur_seconds (k * second) = Fin (of_int k)"
proof -
  have "go_div (k * second) second = k" using assms by (simp add: go_div_pos second_def)
  then show ?thesis using assms by (simp add: dur_seconds_def f_of_int_small fl_int)
qed

lemma refill_whole:
  assumes "0 \<le> k" "k < 2 ^ 53" "0 \<le> r" "r * k < 2 ^ 53"
  shows "refill_amount (Fin (of_int r)) (k * second) = r * k"
proof -
  have "0 \<le> r * k" using assms by simp
  then have "\<bar>r * k\<bar> < 2 ^ 53" using assms by simp
  then have "fl (of_int r * of_int k) = Fin (of_int (r * k))" using fl_int [of "r * k"] by simp
  moreover have "in_i64 (r * k)" 
  proof -
    have "in_i64 x" if "0 \<le> x" "x < 2 ^ 53" for x using that by (simp add: in_i64_def)
    from this [OF \<open>0 \<le> r * k\<close> assms(4)] show ?thesis .
  qed
  moreover have "0 \<le> (of_int (r * k) :: rat)" using \<open>0 \<le> r * k\<close> by (simp only: of_int_0_le_iff)
  ultimately show ?thesis
    using assms(1,2) by (simp add: refill_amount_def dur_seconds_whole rat_trunc_def flip: of_int_mult)
qed

text \<open>Five tokens per second give none in 50 milliseconds.\<close>

lemma refill_small: "refill_amount (Fin 5) (50 * millisecond) = 0"
proof -
  have "go_div (50 * millisecond) second = 0" by (simp add: go_div_def time_units)
  then have "dur_seconds (50 * millisecond) =
      f_add (Fin 0) (f_div (Fin (of_int 50000000)) (Fin (of_int 1000000000)))"
    by (simp add: dur_seconds_def f_of_int_small millisecond_def)
  also obtain y where y: "fl (50000000 / 1000000000) = Fin y" "0 \<le> y" "y \<le> 1 / 16"
    using fl_le_pow2 [of "50000000 / 1000000000" "- 4"] by (auto simp: pow2_def)
  have "f_add (Fin 0) (f_div (Fin (of_int 50000000)) (Fin (of_int 1000000000))) = fl y"
    by (simp add: y(1) [simplified])
  finally have s: "dur_seconds (50 * millisecond) = fl y" .
  obtain z where z: "fl y = Fin z" "0 \<le> z" "z \<le> 1 / 16"
    using fl_le_pow2 [of y "- 4"] y by (auto simp: pow2_def)
  obtain w where w: "fl (5 * z) = Fin w" "0 \<le> w" "w \<le> 1 / 2"
    using fl_le_pow2 [of "5 * z" "- 1"] z by (auto simp: pow2_def)
  have "\<lfloor>w\<rfloor> = 0" using w by linarith
  then show ?thesis using w by (simp add: refill_amount_def s z(1) rat_trunc_def in_i64_def)
qed

section \<open>Properties\<close>

text \<open>
  Property C22.  In every interleaving of calls of \<open>tryConsume\<close> and \<open>Reset\<close>, with any clock readings
  and any rate, the token count stays between 0 and the capacity.
\<close>

theorem tokens_bounded:
  assumes "tc_steps (tc_start rate cap now) (b, pc)" and "0 \<le> cap" and "in_i64 cap"
  shows "0 \<le> bk_tokens b \<and> bk_tokens b \<le> cap"
  using tc_inv_steps [OF assms(1), of cap] assms(2,3)
  by (simp add: tc_start_def tc_inv_def tc_pc_ok_def)

theorem tokens_bounded_witness:
  "\<exists>b pc. tc_steps (tc_start (Fin 1) 2 0) (b, pc) \<and> pc 0 = TcDone True \<and> 0 \<le> bk_tokens b \<and> bk_tokens b \<le> 2"
proof -
  obtain b pc where s: "tc_steps (tc_start (Fin 1) 2 0) (b, pc)" "pc 0 = TcDone True"
    using tc_alone [of "\<lambda>_. TcIdle" 0 0 "\<lparr>bk_tokens = 2, bk_last = 0, bk_max = 2, bk_rate = Fin 1\<rparr>" 0]
      refill_whole [of 0 1]
    by (auto simp: tc_start_def try_consume_def refilled_def Let_def in_i64_def)
  from tokens_bounded [OF s(1)] s show ?thesis by (auto simp: in_i64_def)
qed

text \<open>
  Further result.  The tokens and the refill time are two variables: between the swap of one call and its
  store, another call refills for the same interval again.  A bucket of capacity 2 that refills one
  token per second lets four tokens through within one second.
\<close>

theorem refill_counted_twice:
  "\<exists>s. tc_steps (tc_start (Fin 1) 2 0) s \<and> snd s 0 = TcDone True \<and>
     snd s 1 = TcDone True \<and> snd s 2 = TcDone True \<and>
     (\<exists>s1 s2. tc_steps (tc_start (Fin 1) 2 0) s1 \<and> snd s1 = (\<lambda>_. TcIdle)(0 := TcLoop 0 2) \<and> tc_steps s1 s2 \<and>
       snd s2 = (\<lambda>_. TcIdle)(0 := TcDone True, 1 := TcLoop second 1, 2 := TcLoop second 1) \<and>
       tc_steps s2 s)"
proof -
  define B where "B toks l = \<lparr>bk_tokens = toks, bk_last = l, bk_max = 2, bk_rate = Fin 1\<rparr>" for toks l
  have start: "tc_start (Fin 1) 2 0 = (B 2 0, \<lambda>_. TcIdle)" by (simp add: tc_start_def B_def)
  have r0: "refilled 2 (Fin 1) 0 2 0 = 2" and r1: "refilled 2 (Fin 1) second 0 0 = 1"
    using refill_whole [of 0 1] refill_whole [of 1 1]
    by (simp_all add: refilled_def Let_def in_i64_def second_def)
  let ?p0 = "(\<lambda>_. TcIdle)(0 := TcLoop 0 2) :: nat \<Rightarrow> tc_pc"
  let ?d = "(\<lambda>_. TcIdle)(0 := TcDone True) :: nat \<Rightarrow> tc_pc"
  let ?q = "?d(1 := TcLoop second 1, 2 := TcLoop second 1)"
  have a: "tc_step (B 2 0, \<lambda>_. TcIdle) (B 2 0, ?p0)" by (rule tc_enter) simp_all
  have a1: "tc_step (B 2 0, ?p0) (B 2 0, ?p0(0 := TcTokens 0 2 2))"
    using tc_load_tokens [of ?p0 0 0 2 "B 2 0"] by (simp add: B_def)
  have a2: "tc_step (B 2 0, ?p0(0 := TcTokens 0 2 2)) (B 2 0, ?p0(0 := TcReady 0 2 2 0))"
    using tc_load_last [of "?p0(0 := TcTokens 0 2 2)" 0 0 2 2 "B 2 0"] by (simp add: B_def)
  have a3: "tc_step (B 2 0, ?p0(0 := TcReady 0 2 2 0)) (B 0 0, ?p0(0 := TcSwapped 0))"
    using tc_swap [of "?p0(0 := TcReady 0 2 2 0)" 0 0 2 2 0 2 "B 2 0"] r0 by (simp add: B_def in_i64_def)
  have a4: "tc_step (B 0 0, ?p0(0 := TcSwapped 0)) (B 0 0, ?d)"
    using tc_store [of "?p0(0 := TcSwapped 0)" 0 0 "B 0 0"] by (simp add: B_def)
  have a5: "tc_step (B 0 0, ?d) (B 0 0, ?d(1 := TcLoop second 1))" by (rule tc_enter) simp_all
  have a6: "tc_step (B 0 0, ?d(1 := TcLoop second 1)) (B 0 0, ?q)" by (rule tc_enter) simp_all
  have go: "tc_steps (B 0 0, pc) (B 0 0, pc(t := TcSwapped second))" if "pc t = TcLoop second 1" for pc t
  proof -
    have "tc_step (B 0 0, pc) (B 0 0, pc(t := TcTokens second 1 0))"
      using tc_load_tokens [of pc t second 1 "B 0 0"] that by (simp add: B_def)
    moreover have "tc_step (B 0 0, pc(t := TcTokens second 1 0)) (B 0 0, pc(t := TcReady second 1 0 0))"
      using tc_load_last [of "pc(t := TcTokens second 1 0)" t second 1 0 "B 0 0"] by (simp add: B_def)
    moreover have "tc_step (B 0 0, pc(t := TcReady second 1 0 0)) (B 0 0, pc(t := TcSwapped second))"
      using tc_swap [of "pc(t := TcReady second 1 0 0)" t second 1 0 0 1 "B 0 0"] r1
      by (simp add: B_def in_i64_def)
    ultimately show ?thesis by (meson r_into_rtranclp rtranclp_trans)
  qed
  let ?q1 = "?q(1 := TcSwapped second)"
  let ?q2 = "?q1(2 := TcSwapped second)"
  let ?q3 = "?q2(1 := TcDone True)"
  have b1: "tc_steps (B 0 0, ?q) (B 0 0, ?q1)" by (rule go) simp
  have b2: "tc_steps (B 0 0, ?q1) (B 0 0, ?q2)" by (rule go) simp
  have b3: "tc_step (B 0 0, ?q2) (B 0 second, ?q3)"
    using tc_store [of ?q2 1 second "B 0 0"] by (simp add: B_def)
  have b4: "tc_step (B 0 second, ?q3) (B 0 second, ?q3(2 := TcDone True))"
    using tc_store [of ?q3 2 second "B 0 second"] by (simp add: B_def)
  have st: "tc_steps x y" if "tc_step x y" for x y using that by (rule r_into_rtranclp)
  have s1: "tc_steps (B 2 0, \<lambda>_. TcIdle) (B 2 0, ?p0)" using a by (rule st)
  have s2: "tc_steps (B 2 0, ?p0) (B 0 0, ?q)"
    by (rule rtranclp_trans [OF st [OF a1] rtranclp_trans [OF st [OF a2] rtranclp_trans
          [OF st [OF a3] rtranclp_trans [OF st [OF a4] rtranclp_trans [OF st [OF a5] st [OF a6]]]]]])
  have s3: "tc_steps (B 0 0, ?q) (B 0 second, ?q3(2 := TcDone True))"
    by (rule rtranclp_trans [OF b1 rtranclp_trans [OF b2 rtranclp_trans [OF st [OF b3] st [OF b4]]]])
  have "tc_steps (B 2 0, \<lambda>_. TcIdle) (B 0 second, ?q3(2 := TcDone True))"
    by (rule rtranclp_trans [OF s1 rtranclp_trans [OF s2 s3]])
  then show ?thesis
    unfolding start using s1 s2 s3
    by (intro exI [of _ "(B 0 second, ?q3(2 := TcDone True))"] conjI exI [of _ "(B 2 0, ?p0)"]
        exI [of _ "(B 0 0, ?q)"]) simp_all
qed

text \<open>Readings of the token count at given distances.\<close>

definition polls :: "duration list \<Rightarrow> bucket \<Rightarrow> bucket" where
  "polls gaps b = fold (\<lambda>g b. fst (current_tokens (bk_last b + g) b)) gaps b"

lemma polls_empty:
  assumes "bk_tokens b = 0" "0 \<le> bk_max b"
    and "\<forall>g \<in> set gaps. in_i64 g \<and> refill_amount (bk_rate b) g = 0"
  shows "polls gaps b = b\<lparr>bk_last := bk_last b + sum_list gaps\<rparr>"
  using assms
proof (induction gaps arbitrary: b)
  case Nil
  then show ?case by (simp add: polls_def)
next
  case (Cons g gaps)
  have "fst (current_tokens (bk_last b + g) b) = b\<lparr>bk_last := bk_last b + g\<rparr>"
    using Cons.prems by (simp add: current_tokens_def try_consume_def refilled_def Let_def in_i64_def)
  moreover have "polls gaps (b\<lparr>bk_last := bk_last b + g\<rparr>) =
      (b\<lparr>bk_last := bk_last b + g\<rparr>)\<lparr>bk_last := bk_last (b\<lparr>bk_last := bk_last b + g\<rparr>) + sum_list gaps\<rparr>"
    by (rule Cons.IH) (use Cons.prems in simp_all)
  ultimately show ?case by (simp add: polls_def add.assoc)
qed

text \<open>
  Further result.  Reading the token count (\<open>CurrentTokens\<close>, as \<open>GetStats\<close> does) loses refill: each reading
  stores the refill time although less than a token has accumulated.  A bucket that is polled at
  intervals in which no whole token accrues stays empty forever, and refuses a request that the same
  bucket, left alone, would grant.
\<close>

theorem polling_starves:
  assumes "bk_tokens b = 0" and "1 \<le> bk_max b" "in_i64 (bk_max b)"
    and "\<forall>g \<in> set gaps. in_i64 g \<and> refill_amount (bk_rate b) g = 0"
    and "now = bk_last b + sum_list gaps" and "in_i64 (sum_list gaps)"
    and "1 \<le> refill_amount (bk_rate b) (sum_list gaps)" "refill_amount (bk_rate b) 0 = 0"
  shows "snd (try_consume now 1 b) \<and> \<not> snd (try_consume now 1 (polls gaps b)) \<and>
    bk_tokens (polls gaps b) = 0"
proof -
  have "in_i64 (refill_amount r d)" for r d
    by (cases "f_mul r (dur_seconds d)") (auto simp: refill_amount_def in_i64_def)
  then have "refilled (bk_max b) (bk_rate b) now 0 (bk_last b) \<ge> 1"
    using assms(2,5-7) by (simp add: refilled_def Let_def)
  then have "snd (try_consume now 1 b)" by (simp add: try_consume_def assms(1) Let_def)
  moreover have p: "polls gaps b = b\<lparr>bk_last := now\<rparr>"
    using polls_empty [of b gaps] assms(1,2,4,5) by simp
  have "\<not> snd (try_consume now 1 (polls gaps b))"
    using assms(1,2,8) by (simp add: p try_consume_def refilled_def Let_def in_i64_def)
  ultimately show ?thesis using p assms(1) by simp
qed

theorem polling_starves_witness:
  "let b = \<lparr>bk_tokens = 0, bk_last = 0, bk_max = 10, bk_rate = Fin 5\<rparr>;
       gaps = replicate 20 (50 * millisecond)
   in snd (try_consume second 1 b) \<and> \<not> snd (try_consume second 1 (polls gaps b)) \<and>
    bk_tokens (polls gaps b) = 0"
proof -
  have s: "sum_list (replicate 20 (50 * millisecond)) = 1 * second"
    by (simp add: sum_list_replicate time_units)
  show ?thesis
    unfolding Let_def
  proof (rule polling_starves)
    show "1 \<le> refill_amount (bk_rate \<lparr>bk_tokens = 0, bk_last = 0, bk_max = 10, bk_rate = Fin 5\<rparr>)
        (sum_list (replicate 20 (50 * millisecond)))"
      unfolding s using refill_whole [of 1 5] by simp
    show "refill_amount (bk_rate \<lparr>bk_tokens = 0, bk_last = 0, bk_max = 10, bk_rate = Fin 5\<rparr>) 0 = 0"
      using refill_whole [of 0 5] by simp
    show "\<forall>g \<in> set (replicate 20 (50 * millisecond)). in_i64 g \<and>
        refill_amount (bk_rate \<lparr>bk_tokens = 0, bk_last = 0, bk_max = 10, bk_rate = Fin 5\<rparr>) g = 0"
      by (simp add: refill_small) (simp add: in_i64_def millisecond_def)
    show "second = bk_last \<lparr>bk_tokens = 0, bk_last = 0, bk_max = 10, bk_rate = Fin 5\<rparr> +
        sum_list (replicate 20 (50 * millisecond))" unfolding s by simp
    show "in_i64 (sum_list (replicate 20 (50 * millisecond)))"
      unfolding s by (simp add: in_i64_def second_def)
  qed (simp_all add: in_i64_def)
qed

end
