(* ===== verification/WarmStrategies.thy ===== *)
theory WarmStrategies
  imports Float64 "HOL-Library.List_Lexorder" "HOL-Library.Char_ord" "HOL-Library.Product_Lexorder"
begin

text \<open>
  The warming strategies, \<open>warming/strategies.go\<close>: each plans a list of tasks from a list of keys.
  \<open>sort.Slice\<close> is a sort that keeps the order of equal elements; Go leaves that order open, and the
  facts below do not depend on it.
\<close>

section \<open>Tasks\<close>

datatype meta_value = MetaInt int | MetaFloat f64

record warm_task =
  wt_key :: string
  wt_priority :: int
  wt_cost :: int
  wt_ttl :: duration
  wt_strategy :: string
  wt_meta :: "(string \<times> meta_value) list"

record plan_options =
  po_keys :: "string list"
  po_priority :: int
  po_limit :: int

section \<open>Fetch costs\<close>

definition key_depth :: "string \<Rightarrow> int" where
  "key_depth key = fold (\<lambda>ch depth. if ch = CHR '':'' then depth + 1 else depth) key 0"

text \<open>The loop over the start positions; a slice expression is in range for each of them.\<close>

definition contains :: "string \<Rightarrow> string \<Rightarrow> bool" where
  "contains s substr =
     list_ex (\<lambda>i. take (length substr) (drop i s) = substr)
       [0..<nat (int (length s) - int (length substr) + 1)]"

definition contains_pattern :: "string \<Rightarrow> string \<Rightarrow> bool" where
  "contains_pattern key pattern \<longleftrightarrow> length key \<ge> length pattern \<and> contains key pattern"

definition estimate_fetch_cost :: "string \<Rightarrow> int" where
  "estimate_fetch_cost key =
     (let cost = 50;
          cost = (if length key > 50 then cost + 20 else cost);
          cost = i64 (cost + key_depth key * 10);
          cost = (if contains_pattern key ''report'' then i64 (cost + 100) else cost);
          cost = (if contains_pattern key ''analytics'' then i64 (cost + 150) else cost)
      in cost)"

section \<open>Plans\<close>

definition selective_limit :: "plan_options \<Rightarrow> int" where
  "selective_limit opts =
     (let n = int (length (po_keys opts));
          limit = po_limit opts;
          limit = (if limit \<le> 0 \<or> limit > n then n else limit)
      in if limit > 1000 then 1000 else limit)"

definition selective_plan :: "plan_options \<Rightarrow> warm_task list" where
  "selective_plan opts =
     (let limit = selective_limit opts in
      map (\<lambda>i. let key = po_keys opts ! i;
                   priority = (if po_priority opts = 0
                     then 100 - go_div (int i * 100) limit else po_priority opts)
               in \<lparr>wt_key = key, wt_priority = priority, wt_cost = estimate_fetch_cost key,
                   wt_ttl = 1 * hour, wt_strategy = ''selective'', wt_meta = []\<rparr>)
        [0..<min (nat limit) (length (po_keys opts))])"

definition breadth_plan :: "plan_options \<Rightarrow> warm_task list" where
  "breadth_plan opts =
     (let sorted_keys = sort_key (\<lambda>k. (key_depth k, k)) (po_keys opts);
          n = int (length sorted_keys);
          limit = (if po_limit opts \<le> 0 \<or> po_limit opts > n then n else po_limit opts)
      in map (\<lambda>key. let depth = key_depth key;
                        priority = (if po_priority opts = 0
                          then max 0 (100 - depth * 10) else po_priority opts)
                    in \<lparr>wt_key = key, wt_priority = priority, wt_cost = estimate_fetch_cost key,
                        wt_ttl = 1 * hour, wt_strategy = ''breadth'', wt_meta = [(''depth'', MetaInt depth)]\<rparr>)
           (take (nat limit) sorted_keys))"

text \<open>The score and the task of the \<open>i\<close>-th of \<open>n\<close> keys.\<close>

definition priority_score :: "nat \<Rightarrow> nat \<Rightarrow> int \<Rightarrow> f64 \<times> f64 \<times> f64" where
  "priority_score n i cost =
     (let importance = f_div (f_of_int (int n - int i)) (f_of_int (int n));
          hotness = (if i < n div 10 then Fin 2 else Fin 1);
          score = f_div (f_mul (f_mul importance hotness) (Fin 100)) (f_of_int cost)
      in (importance, hotness, score))"

definition priority_task :: "nat \<Rightarrow> nat \<Rightarrow> string \<Rightarrow> warm_task" where
  "priority_task n i key =
     (let cost = estimate_fetch_cost key;
          (importance, hotness, score) = priority_score n i cost;
          priority = f_to_int score;
          priority = (if priority > 100 then 100 else priority);
          priority = (if priority < 0 then 0 else priority)
      in \<lparr>wt_key = key, wt_priority = priority, wt_cost = cost, wt_ttl = 1 * hour,
          wt_strategy = ''priority'',
          wt_meta = [(''importance'', MetaFloat importance), (''hotness'', MetaFloat hotness),
            (''score'', MetaFloat score)]\<rparr>)"

definition priority_plan :: "plan_options \<Rightarrow> warm_task list" where
  "priority_plan opts =
     (let keys = po_keys opts;
          tasks = map (\<lambda>(i, key). priority_task (length keys) i key) (zip [0..<length keys] keys);
          tasks = sort_key (\<lambda>t. - wt_priority t) tasks;
          limit = po_limit opts
      in if limit > 0 \<and> limit < int (length tasks) then take (nat limit) tasks else tasks)"

datatype strategy = Selective | Breadth | Priority

fun strategy_name :: "strategy \<Rightarrow> string" where
  "strategy_name Selective = ''selective''"
| "strategy_name Breadth = ''breadth''"
| "strategy_name Priority = ''priority''"

fun plan :: "strategy \<Rightarrow> plan_options \<Rightarrow> warm_task list" where
  "plan Selective opts = selective_plan opts"
| "plan Breadth opts = breadth_plan opts"
| "plan Priority opts = priority_plan opts"

section \<open>Lemmas\<close>

lemma key_depth_count: "key_depth key = int (length (filter (\<lambda>c. c = CHR '':'') key))"
proof -
  have "fold (\<lambda>ch depth. if ch = CHR '':'' then depth + 1 else depth) s d =
      d + int (length (filter (\<lambda>c. c = CHR '':'') s))" for s and d :: int
    by (induction s arbitrary: d) auto
  then show ?thesis by (simp add: key_depth_def)
qed

lemma key_depth_nonneg: "0 \<le> key_depth key"
  by (simp add: key_depth_count)

lemma contains_iff: "contains s p \<longleftrightarrow> str_contains s p"
proof
  assume "contains s p"
  then obtain i where "take (length p) (drop i s) = p" by (auto simp: contains_def list_ex_iff)
  then have "s = take i s @ p @ drop (length p) (drop i s)"
    by (metis append_take_drop_id)
  then show "str_contains s p" unfolding str_contains_iff by blast
next
  assume "str_contains s p"
  then obtain a b where s: "s = a @ p @ b" by (auto simp: str_contains_iff)
  show "contains s p"
    unfolding contains_def list_ex_iff
    by (rule bexI [of _ "length a"]) (auto simp: s)
qed

text \<open>For keys that fit in memory the cost does not overflow.\<close>

lemma estimate_cost_range:
  assumes "length key < 2 ^ 48"
  shows "50 \<le> estimate_fetch_cost key \<and> estimate_fetch_cost key < 2 ^ 53"
proof -
  have "key_depth key \<le> int (length key)"
    unfolding key_depth_count using length_filter_le [of "\<lambda>c. c = CHR '':''" key] by simp
  moreover have "int (length key) < 2 ^ 48" using assms by simp
  ultimately have d: "0 \<le> key_depth key" "key_depth key < 2 ^ 48"
    using key_depth_nonneg [of key] by linarith+
  have e: "i64 x = x" if "50 \<le> x" "x < 2 ^ 52" for x
    using that by (intro i64_id) (simp add: in_i64_def)
  show ?thesis
    using d by (simp add: estimate_fetch_cost_def Let_def e)
qed

section \<open>Every plan schedules the keys it was given\<close>

lemma selective_limit_range:
  "selective_limit opts \<le> int (length (po_keys opts)) \<and> 0 \<le> selective_limit opts \<and> selective_limit opts \<le> 1000"
  by (auto simp: selective_limit_def Let_def)

lemma selective_plan_keys:
  "map wt_key (selective_plan opts) = take (nat (selective_limit opts)) (po_keys opts)"
proof -
  have "map ((!) (po_keys opts)) [0..<k] = take k (po_keys opts)" if "k \<le> length (po_keys opts)" for k
    using that by (intro nth_equalityI) auto
  moreover have "nat (selective_limit opts) \<le> length (po_keys opts)"
    using selective_limit_range [of opts] by linarith
  ultimately show ?thesis
    by (simp add: selective_plan_def Let_def comp_def min_absorb1)
qed

lemma breadth_plan_keys:
  "map wt_key (breadth_plan opts) =
   take (if po_limit opts \<le> 0 then length (po_keys opts) else nat (po_limit opts))
     (sort_key (\<lambda>k. (key_depth k, k)) (po_keys opts))"
  by (auto simp: breadth_plan_def Let_def comp_def)

lemma priority_tasks_keys:
  "map wt_key (map (\<lambda>(i, key). priority_task n i key) (zip [0..<length keys] keys)) = keys"
proof -
  have "map wt_key (map (\<lambda>(i, key). priority_task n i key) xs) = map snd xs" for xs
    by (induction xs) (auto simp: priority_task_def Let_def case_prod_beta)
  then show ?thesis by (metis length_upt map_snd_zip minus_nat.diff_0)
qed

lemma priority_plan_mset:
  "\<exists>rest. mset (map wt_key (priority_plan opts)) + mset rest = mset (po_keys opts)"
proof -
  let ?ts = "map (\<lambda>(i, key). priority_task (length (po_keys opts)) i key)
    (zip [0..<length (po_keys opts)] (po_keys opts))"
  let ?s = "sort_key (\<lambda>t. - wt_priority t) ?ts"
  have "mset (map wt_key ?s) = image_mset wt_key (mset ?ts)" by (simp only: mset_map mset_sort)
  also have "\<dots> = mset (map wt_key ?ts)" by (simp only: mset_map)
  finally have s: "mset (map wt_key ?s) = mset (po_keys opts)" by (simp only: priority_tasks_keys)
  have take: "mset (map wt_key (take k ?s)) + mset (map wt_key (drop k ?s)) = mset (po_keys opts)" for k
    using s by (metis append_take_drop_id map_append mset_append)
  show ?thesis
    using s take [of "nat (po_limit opts)"]
    by (auto simp: priority_plan_def Let_def simp del: mset_map intro: exI [of _ "[]"])
qed

lemma selective_plan_mset:
  "\<exists>rest. mset (map wt_key (selective_plan opts)) + mset rest = mset (po_keys opts)"
  by (metis append_take_drop_id mset_append selective_plan_keys)

lemma breadth_plan_mset:
  "\<exists>rest. mset (map wt_key (breadth_plan opts)) + mset rest = mset (po_keys opts)"
proof -
  let ?sk = "sort_key (\<lambda>k. (key_depth k, k)) (po_keys opts)"
  have "mset (take n ?sk) + mset (drop n ?sk) = mset (po_keys opts)" for n
    by (metis append_take_drop_id mset_append mset_sort)
  then show ?thesis unfolding breadth_plan_keys by blast
qed

section \<open>The contract of the interface \<open>Strategy\<close>\<close>

text \<open>What the warming service relies on: a plan is a selection of the given keys.\<close>

locale planner =
  fixes plan_with :: "plan_options \<Rightarrow> warm_task list"
  assumes schedules: "\<exists>rest. mset (map wt_key (plan_with opts)) + mset rest = mset (po_keys opts)"
begin

lemma keys_given: "wt_key ` set (plan_with opts) \<subseteq> set (po_keys opts)"
proof -
  obtain rest where "mset (map wt_key (plan_with opts)) + mset rest = mset (po_keys opts)"
    using schedules by blast
  then have "set (map wt_key (plan_with opts)) \<subseteq> set (po_keys opts)"
    by (metis mset_append set_append set_mset_mset sup_ge1)
  then show ?thesis by simp
qed

lemma no_key_twice: "distinct (po_keys opts) \<Longrightarrow> distinct (map wt_key (plan_with opts))"
proof -
  obtain rest where "mset (map wt_key (plan_with opts) @ rest) = mset (po_keys opts)"
    using schedules [of opts] by auto
  from mset_eq_imp_distinct_iff [OF this]
  show "distinct (po_keys opts) \<Longrightarrow> distinct (map wt_key (plan_with opts))" by simp
qed

lemma at_most: "length (plan_with opts) \<le> length (po_keys opts)"
proof -
  obtain rest where "mset (map wt_key (plan_with opts) @ rest) = mset (po_keys opts)"
    using schedules [of opts] by auto
  from mset_eq_length [OF this] show ?thesis by simp
qed

end

interpretation selective: planner selective_plan
  by unfold_locales (rule selective_plan_mset)

interpretation breadth: planner breadth_plan
  by unfold_locales (rule breadth_plan_mset)

interpretation priority: planner priority_plan
  by unfold_locales (rule priority_plan_mset)

interpretation any_strategy: planner "plan s" for s
  by unfold_locales
    (cases s; simp only: plan.simps selective_plan_mset breadth_plan_mset priority_plan_mset)

text \<open>The score of a priority task is at most 4: at most twice 100 divided by a cost of at least 50.\<close>

lemma priority_score_range:
  assumes "0 < n" "i < n" "n < 2 ^ 53" "50 \<le> cost" "cost < 2 ^ 53"
  shows "0 \<le> f_to_int (snd (snd (priority_score n i cost))) \<and>
    f_to_int (snd (snd (priority_score n i cost))) \<le> 4"
proof -
  have n: "\<bar>int n\<bar> < 2 ^ 53" "\<bar>int n - int i\<bar> < 2 ^ 53" "int n \<noteq> 0" using assms(1-3) by auto
  have "of_int 0 \<le> (of_int (int n - int i) / of_int (int n) :: rat)"
    "(of_int (int n - int i) / of_int (int n) :: rat) \<le> of_int 1"
    using assms(1,2) by (simp_all add: field_simps)
  from fl_between [OF this] obtain imp where imp: "fl (of_int (int n - int i) / of_int (int n)) = Fin imp"
    "0 \<le> imp" "imp \<le> 1" by auto
  have importance: "f_div (f_of_int (int n - int i)) (f_of_int (int n)) = Fin imp"
    using n imp(1) by (simp add: f_of_int_small)
  obtain h where h: "(if i < n div 10 then Fin 2 else Fin 1) = Fin h" "0 \<le> h" "h \<le> 2"
    by (cases "i < n div 10") auto
  have "imp * h \<le> 1 * 2" using imp h by (intro mult_mono) auto
  then have "of_int 0 \<le> imp * h" "imp * h \<le> of_int 2" using imp h by auto
  from fl_between [OF this] obtain p where p: "fl (imp * h) = Fin p" "0 \<le> p" "p \<le> 2" by auto
  have "of_int 0 \<le> p * 100" "p * 100 \<le> of_int 200" using p by auto
  from fl_between [OF this] obtain q where q: "fl (p * 100) = Fin q" "0 \<le> q" "q \<le> 200" by auto
  have "q / of_int cost \<le> 200 / of_int cost" using q assms(4) by (intro divide_right_mono) auto
  also have "(200 / of_int cost :: rat) \<le> 4" using assms(4) by (simp add: field_simps)
  finally have "of_int 0 \<le> q / of_int cost" "q / of_int cost \<le> of_int 4" using q assms(4) by auto
  from fl_between [OF this] obtain s where s: "fl (q / of_int cost) = Fin s" "0 \<le> s" "s \<le> 4" by auto
  have "\<bar>cost\<bar> < 2 ^ 53" "cost \<noteq> 0" using assms(4,5) by auto
  then have "snd (snd (priority_score n i cost)) = Fin s"
    using importance h(1) p(1) q(1) s(1)
    by (simp add: priority_score_def Let_def f_of_int_small split: if_splits)
  moreover have "0 \<le> \<lfloor>s\<rfloor>" "\<lfloor>s\<rfloor> \<le> 4" using s by (simp_all add: floor_le_iff)
  ultimately show ?thesis using s by (simp add: rat_trunc_def in_i64_def)
qed

section \<open>Properties\<close>


text \<open>
  Further result.  The priority strategy compresses its scale: whatever the keys (fewer than \<open>2 ^ 53\<close> of
  them, each shorter than \<open>2 ^ 48\<close> bytes) and whatever base priority the caller asks for, every planned
  task gets a priority between 0 and 4, not between 0 and 100.
\<close>

theorem priority_plan_compressed:
  assumes "length (po_keys opts) < 2 ^ 53" and "\<forall>k \<in> set (po_keys opts). length k < 2 ^ 48"
    and "t \<in> set (plan Priority opts)"
  shows "0 \<le> wt_priority t \<and> wt_priority t \<le> 4"
proof -
  let ?n = "length (po_keys opts)"
  have "t \<in> set (map (\<lambda>(i, key). priority_task ?n i key) (zip [0..<?n] (po_keys opts)))"
    using assms(3) by (auto simp: priority_plan_def Let_def split: if_splits dest: in_set_takeD)
  then obtain i key where t: "t = priority_task ?n i key" "(i, key) \<in> set (zip [0..<?n] (po_keys opts))"
    by auto
  then have i: "i < ?n" "key \<in> set (po_keys opts)"
    by (auto dest: set_zip_leftD set_zip_rightD)
  have cost: "50 \<le> estimate_fetch_cost key" "estimate_fetch_cost key < 2 ^ 53"
    using estimate_cost_range [of key] assms(2) i(2) by auto
  have "0 < ?n" using i(1) by linarith
  from priority_score_range [OF this i(1) assms(1) cost] show ?thesis
    by (simp add: t(1) priority_task_def Let_def case_prod_beta)
qed

theorem priority_plan_compressed_witness:
  "wt_priority (hd (plan Priority \<lparr>po_keys = [''user:1''], po_priority = 80, po_limit = 0\<rparr>)) \<le> 4"
  using priority_plan_compressed [of "\<lparr>po_keys = [''user:1''], po_priority = 80, po_limit = 0\<rparr>"
      "priority_task 1 0 ''user:1''"]
  by (simp add: priority_plan_def Let_def)

end
