(* ===== verification/WorkerPool.thy ===== *)
theory WorkerPool
  imports WarmStrategies
begin

text \<open>
  The worker pool of the warming service, \<open>warming/worker_pool.go\<close>: the workers' visible state and the
  buffered task queue.  Sending to the queue never blocks (\<open>select\<close> with a \<open>default\<close> branch), and a
  worker receives the oldest task.  What a worker does with a task is in \<open>WarmService\<close>.
\<close>

section \<open>State\<close>

record worker =
  wk_id :: int
  wk_state :: string
  wk_key :: string
  wk_started :: "time option"

record worker_pool =
  wp_workers :: "worker list"
  wp_queue :: "warm_task list"
  wp_active :: int
  wp_stopped :: bool

definition queue_capacity :: nat where
  "queue_capacity = 1000"

text \<open>\<open>make([]*Worker, numWorkers)\<close> panics for a negative number.\<close>

definition new_worker_pool :: "int \<Rightarrow> worker_pool go_result" where
  "new_worker_pool num_workers =
     (if num_workers < 0 then Inl (ErrMsg ''makeslice: len out of range'')
      else Inr \<lparr>wp_workers = map (\<lambda>i. \<lparr>wk_id = int i, wk_state = ''idle'', wk_key = [], wk_started = None\<rparr>)
          [0..<nat num_workers],
        wp_queue = [], wp_active = 0, wp_stopped = False\<rparr>)"

section \<open>Operations\<close>

fun queue_tasks :: "worker_pool \<Rightarrow> warm_task list \<Rightarrow> worker_pool \<times> int" where
  "queue_tasks p [] = (p, 0)"
| "queue_tasks p (task # tasks) =
     (if length (wp_queue p) < queue_capacity
      then (let (p, queued) = queue_tasks (p\<lparr>wp_queue := wp_queue p @ [task]\<rparr>) tasks in (p, 1 + queued))
      else queue_tasks p tasks)"

definition active_count :: "worker_pool \<Rightarrow> int" where
  "active_count p = wp_active p"

definition queue_size :: "worker_pool \<Rightarrow> int" where
  "queue_size p = int (length (wp_queue p))"

definition get_worker_status :: "worker_pool \<Rightarrow> worker list" where
  "get_worker_status p = map (\<lambda>w. \<lparr>wk_id = wk_id w, wk_state = wk_state w, wk_key = wk_key w,
     wk_started = wk_started w\<rparr>) (wp_workers p)"

text \<open>Closing a channel twice panics.\<close>

definition wp_shutdown :: "worker_pool \<Rightarrow> worker_pool go_result" where
  "wp_shutdown p = (if wp_stopped p then Inl (ErrMsg ''close of closed channel'')
     else Inr (p\<lparr>wp_stopped := True\<rparr>))"

definition start_task :: "time \<Rightarrow> string \<Rightarrow> worker \<Rightarrow> worker" where
  "start_task now key w = w\<lparr>wk_state := ''busy'', wk_key := key, wk_started := Some now\<rparr>"

definition finish_task :: "worker \<Rightarrow> worker" where
  "finish_task w = w\<lparr>wk_state := ''idle'', wk_key := [], wk_started := None\<rparr>"

definition set_state :: "string \<Rightarrow> worker \<Rightarrow> worker" where
  "set_state st w = w\<lparr>wk_state := st\<rparr>"

text \<open>A worker's branch of the \<open>select\<close>: it takes the oldest task and counts itself active, it becomes
  idle again, or it leaves the loop.\<close>

definition worker_take :: "time \<Rightarrow> nat \<Rightarrow> worker_pool \<Rightarrow> (worker_pool \<times> warm_task) option" where
  "worker_take now i p =
     (case wp_queue p of
        [] \<Rightarrow> None
      | task # rest \<Rightarrow> Some (p\<lparr>wp_queue := rest,
          wp_workers := (wp_workers p)[i := start_task now (wt_key task) (wp_workers p ! i)],
          wp_active := wp_active p + 1\<rparr>, task))"

definition worker_finish :: "nat \<Rightarrow> worker_pool \<Rightarrow> worker_pool" where
  "worker_finish i p = p\<lparr>wp_workers := (wp_workers p)[i := finish_task (wp_workers p ! i)],
     wp_active := wp_active p - 1\<rparr>"

definition worker_stop :: "nat \<Rightarrow> worker_pool \<Rightarrow> worker_pool" where
  "worker_stop i p = p\<lparr>wp_workers := (wp_workers p)[i := set_state ''stopped'' (wp_workers p ! i)]\<rparr>"

section \<open>Lemmas\<close>

text \<open>The queue takes tasks in order while there is room, and drops the rest silently.\<close>

lemma queue_tasks_room:
  "queue_tasks p tasks =
     (p\<lparr>wp_queue := wp_queue p @ take (queue_capacity - length (wp_queue p)) tasks\<rparr>,
      int (min (length tasks) (queue_capacity - length (wp_queue p))))"
proof (induction p tasks rule: queue_tasks.induct)
  case (2 p task tasks)
  show ?case
  proof (cases "length (wp_queue p) < queue_capacity")
    case True
    then have "queue_capacity - length (wp_queue p) =
        Suc (queue_capacity - Suc (length (wp_queue p)))" by simp
    with True 2 show ?thesis by simp
  next
    case False
    with 2 show ?thesis by simp
  qed
qed simp

lemma queue_tasks_bound:
  "length (wp_queue p) \<le> queue_capacity \<Longrightarrow>
   length (wp_queue (fst (queue_tasks p tasks))) \<le> queue_capacity"
  by (simp add: queue_tasks_room)

lemma queue_tasks_others:
  "wp_workers (fst (queue_tasks p tasks)) = wp_workers p"
  "wp_active (fst (queue_tasks p tasks)) = wp_active p"
  "wp_stopped (fst (queue_tasks p tasks)) = wp_stopped p"
  by (simp_all add: queue_tasks_room)

lemma worker_take_bound:
  "worker_take now i p = Some (p', task) \<Longrightarrow> length (wp_queue p') < length (wp_queue p)"
  by (auto simp: worker_take_def split: list.splits)

end
