(* ===== verification/Predictor.thy ===== *)
theory Predictor
  imports Float64 "HOL-Library.Multiset"
begin

text \<open>
  The access predictor of the warming service, \<open>warming/predictor.go\<close>: an access log per key and a score
  computed in double precision, from which the hottest keys are taken.
\<close>

section \<open>State\<close>

record access_history =
  ah_key :: string
  ah_total :: int
  ah_recent :: int
  ah_first :: time
  ah_last :: time
  ah_times :: "time list"

record predictor =
  pr_log :: "(string \<times> access_history) list"
  pr_window :: duration
  pr_decay :: f64

definition new_predictor :: predictor where
  "new_predictor = \<lparr>pr_log = [], pr_window = 1 * hour, pr_decay = f_const (9 / 10)\<rparr>"

section \<open>Operations\<close>

definition record_access_history :: "time \<Rightarrow> access_history \<Rightarrow> access_history" where
  "record_access_history now h =
     (let times = ah_times h @ [now]
      in h\<lparr>ah_total := add64 (ah_total h) 1, ah_recent := add64 (ah_recent h) 1, ah_last := now,
           ah_times := (if length times > 100 then drop 1 times else times)\<rparr>)"

definition pr_record_access :: "time \<Rightarrow> predictor \<Rightarrow> string \<Rightarrow> predictor" where
  "pr_record_access now p key =
     (let h = (case map_of (pr_log p) key of
          Some h \<Rightarrow> h
        | None \<Rightarrow> \<lparr>ah_key = key, ah_total = 0, ah_recent = 0, ah_first = now, ah_last = zero_time,
            ah_times = []\<rparr>)
      in p\<lparr>pr_log := AList.update key (record_access_history now h) (pr_log p)\<rparr>)"

text \<open>\<open>Duration.Hours\<close> and \<open>Duration.Minutes\<close>.\<close>

definition dur_units :: "duration \<Rightarrow> duration \<Rightarrow> f64" where
  "dur_units unit d = f_add (f_of_int (go_div d unit))
     (f_div (f_of_int (d - go_div d unit * unit)) (f_of_int unit))"

definition dur_hours :: "duration \<Rightarrow> f64" where
  "dur_hours d = dur_units hour d"

definition dur_minutes :: "duration \<Rightarrow> f64" where
  "dur_minutes d = dur_units minute d"

definition calculate_score :: "access_history \<Rightarrow> time \<Rightarrow> time \<Rightarrow> f64" where
  "calculate_score h now cutoff =
     (if ah_total h = 0 then Fin 0
      else
        (let since_first = dur_hours (time_sub now (ah_first h));
             since_first = (if f_eq since_first (Fin 0) then Fin 1 else since_first);
             frequency = f_div (f_of_int (ah_total h)) since_first;
             recent_count = int (length (filter (\<lambda>t. time_after t cutoff) (ah_times h)));
             recent_frequency = f_of_int recent_count;
             growth = (if f_lt (Fin 0) frequency
               then f_div (f_sub recent_frequency frequency) frequency else Fin 0);
             since_last = dur_minutes (time_sub now (ah_last h));
             bonus = (if f_lt since_last (Fin 5) then Fin 2
               else if f_lt since_last (Fin 30) then f_const (3 / 2) else Fin 1)
         in f_mul (f_mul frequency (f_add (Fin 1) growth)) bonus))"

fun insert_by_score :: "string \<times> f64 \<Rightarrow> (string \<times> f64) list \<Rightarrow> (string \<times> f64) list" where
  "insert_by_score x [] = [x]"
| "insert_by_score x (y # ys) =
     (if f_lt (snd y) (snd x) then x # y # ys else y # insert_by_score x ys)"

text \<open>\<open>sort.Slice\<close> with the highest score first; equal scores keep their order here, Go leaves it open.\<close>

definition sort_scores :: "(string \<times> f64) list \<Rightarrow> (string \<times> f64) list" where
  "sort_scores xs = fold insert_by_score xs []"

definition predict_hot_keys :: "time \<Rightarrow> predictor \<Rightarrow> duration \<Rightarrow> int \<Rightarrow> string list" where
  "predict_hot_keys now p window limit =
     (let cutoff = time_add now (i64 (- window));
          scores = filter (\<lambda>(k, s). f_lt (Fin 0) s)
            (map (\<lambda>(k, h). (k, calculate_score h now cutoff)) (pr_log p));
          scores = sort_scores scores;
          scores = (if limit > 0 \<and> limit < int (length scores) then take (nat limit) scores else scores)
      in map fst scores)"

definition pr_cleanup :: "time \<Rightarrow> predictor \<Rightarrow> duration \<Rightarrow> predictor \<times> int" where
  "pr_cleanup now p max_age =
     (let cutoff = time_add now (i64 (- max_age));
          old = filter (\<lambda>(k, h). time_before (ah_last h) cutoff) (pr_log p)
      in (p\<lparr>pr_log := filter (\<lambda>(k, h). \<not> time_before (ah_last h) cutoff) (pr_log p)\<rparr>, int (length old)))"

record predictor_stats =
  ps_tracked :: int
  ps_total :: int

definition pr_get_stats :: "predictor \<Rightarrow> predictor_stats" where
  "pr_get_stats p =
     \<lparr>ps_tracked = int (length (pr_log p)),
      ps_total = fold (\<lambda>(k, h) n. add64 n (ah_total h)) (pr_log p) 0\<rparr>"

text \<open>The placeholder for a learned model.\<close>

definition ml_predict_hot_keys :: "time \<Rightarrow> duration \<Rightarrow> int \<Rightarrow> string list" where
  "ml_predict_hot_keys now window limit = []"

section \<open>Lemmas\<close>

lemma insert_by_score_mset: "mset (insert_by_score x ys) = add_mset x (mset ys)"
  by (induction ys) auto

lemma sort_scores_mset: "mset (sort_scores xs) = mset xs"
proof -
  have "mset (fold insert_by_score xs ys) = mset xs + mset ys" for ys
    by (induction xs arbitrary: ys) (auto simp: insert_by_score_mset)
  then show ?thesis by (simp add: sort_scores_def)
qed

lemma record_access_bounded:
  "length (ah_times h) \<le> 100 \<Longrightarrow> length (ah_times (record_access_history now h)) \<le> 100"
  by (auto simp: record_access_history_def Let_def)

text \<open>Rounding keeps the sign, so a product with a non-positive factor is not positive.\<close>

lemma fl_nonpos: "x \<le> 0 \<Longrightarrow> \<not> f_lt (Fin 0) (fl x)"
  using rnd_mono [of x 0] order_less_le_trans [OF pow2_pos, of 1024 "rnd x"]
  by (auto simp: fl_def rnd_def [of 0])

lemma f_mul_nonpos:
  assumes "\<not> f_lt (Fin 0) x" "0 < b"
  shows "\<not> f_lt (Fin 0) (f_mul x (Fin b))"
proof (cases x)
  case (Fin r)
  with assms have "r * b \<le> 0" by (simp add: mult_nonpos_nonneg)
  with Fin show ?thesis by (simp add: fl_nonpos)
qed (use assms in \<open>auto simp: f_inf_def sgn_if\<close>)

text \<open>A key without an access in the window scores nothing.\<close>

lemma score_needs_recent:
  assumes "f_lt (Fin 0) (calculate_score h now cutoff)"
  shows "\<exists>t \<in> set (ah_times h). cutoff < t"
proof (rule ccontr)
  assume "\<not> ?thesis"
  then have none: "filter (\<lambda>t. time_after t cutoff) (ah_times h) = []"
    by (auto simp: time_after_def filter_empty_conv)
  define since where "since = (let s = dur_hours (time_sub now (ah_first h))
    in if f_eq s (Fin 0) then Fin 1 else s)"
  define freq where "freq = f_div (f_of_int (ah_total h)) since"
  define bonus where "bonus = (if f_lt (dur_minutes (time_sub now (ah_last h))) (Fin 5) then Fin 2
    else if f_lt (dur_minutes (time_sub now (ah_last h))) (Fin 30) then f_const (3 / 2) else Fin 1)"
  define growth where "growth = (if f_lt (Fin 0) freq then f_div (f_sub (Fin 0) freq) freq else Fin 0)"
  obtain b where b: "bonus = Fin b" "0 < b"
  proof -
    obtain y where "f_const (3 / 2) = Fin y" "1 \<le> y"
      using fl_between [of 1 "3 / 2" 2] by (auto simp: f_const_def)
    then show thesis using that unfolding bonus_def by (metis less_le_trans zero_less_numeral zero_less_one)
  qed
  have score: "ah_total h = 0 \<or> calculate_score h now cutoff = f_mul (f_mul freq (f_add (Fin 1) growth)) bonus"
    using none by (simp add: calculate_score_def Let_def since_def freq_def growth_def bonus_def
        f_of_int_small)
  have "\<not> f_lt (Fin 0) (f_mul freq (f_add (Fin 1) growth))"
  proof (cases freq)
    case (Fin f)
    show ?thesis
    proof (cases "0 < f")
      case True
      then obtain x where "fl x = Fin f"
        using Fin unfolding freq_def
        by (cases "f_of_int (ah_total h)"; cases since)
          (auto simp: f_inf_def split: if_splits)
      then have "fl (- f) = Fin (- f)" by (rule fl_Fin_idem)
      with True Fin show ?thesis
        using fl_int [of "- 1"] by (simp add: growth_def f_sub_def)
    next
      case False
      then show ?thesis using Fin by (simp add: growth_def fl_nonpos)
    qed
  next
    case PInf
    then show ?thesis by (simp add: growth_def f_sub_def)
  next
    case NInf
    then show ?thesis by (simp add: growth_def f_inf_def)
  next
    case NaN
    then show ?thesis by simp
  qed
  with score b assms f_mul_nonpos show False by (auto simp: calculate_score_def)
qed

text \<open>Among positive scores the insertion sort is right: they are totally ordered.\<close>

definition hotter :: "string \<times> f64 \<Rightarrow> string \<times> f64 \<Rightarrow> bool" where
  "hotter x y \<longleftrightarrow> \<not> f_lt (snd x) (snd y)"

lemma hotter_trans:
  assumes "f_lt (snd y) (snd x)" "hotter y z" "f_lt (Fin 0) (snd z)"
  shows "hotter x z"
  using assms by (cases "snd x"; cases "snd y"; cases "snd z") (auto simp: hotter_def)

lemma hotter_asym: "f_lt (snd y) (snd x) \<Longrightarrow> hotter x y"
  by (cases "snd x"; cases "snd y") (auto simp: hotter_def)

lemma insert_by_score_set: "set (insert_by_score x ys) = insert x (set ys)"
  using insert_by_score_mset [of x ys] by (metis set_mset_add_mset_insert set_mset_mset)

lemma insert_by_score_sorted:
  assumes "sorted_wrt hotter ys" "\<forall>y \<in> insert x (set ys). f_lt (Fin 0) (snd y)"
  shows "sorted_wrt hotter (insert_by_score x ys)"
  using assms
proof (induction ys)
  case (Cons y ys)
  show ?case
  proof (cases "f_lt (snd y) (snd x)")
    case True
    then have "\<forall>z \<in> set ys. hotter x z" using hotter_trans [of y x] Cons.prems by simp
    with True Cons.prems show ?thesis by (simp add: hotter_asym)
  next
    case False
    with Cons show ?thesis by (simp add: insert_by_score_set hotter_def)
  qed
qed simp

lemma sort_scores_sorted:
  assumes "\<forall>y \<in> set xs. f_lt (Fin 0) (snd y)"
  shows "sorted_wrt hotter (sort_scores xs)"
proof -
  have "sorted_wrt hotter (fold insert_by_score us vs)"
    if "sorted_wrt hotter vs" "\<forall>y \<in> set us \<union> set vs. f_lt (Fin 0) (snd y)" for us vs
    using that
  proof (induction us arbitrary: vs)
    case (Cons u us)
    then show ?case using insert_by_score_sorted [of vs u] by (simp add: insert_by_score_set)
  qed simp
  then show ?thesis using assms unfolding sort_scores_def by simp
qed

definition tracked_score :: "predictor \<Rightarrow> time \<Rightarrow> time \<Rightarrow> string \<Rightarrow> f64" where
  "tracked_score p now cutoff k =
     (case map_of (pr_log p) k of Some h \<Rightarrow> calculate_score h now cutoff | None \<Rightarrow> Fin 0)"

section \<open>What is predicted\<close>

definition log_sound :: "predictor \<Rightarrow> bool" where
  "log_sound p \<longleftrightarrow> distinct (map fst (pr_log p))"

definition accessed_since :: "predictor \<Rightarrow> time \<Rightarrow> string set" where
  "accessed_since p cutoff = {k. \<exists>h t. map_of (pr_log p) k = Some h \<and> t \<in> set (ah_times h) \<and> cutoff < t}"

text \<open>The keys with a positive score, hottest first.\<close>

definition hot_scores :: "time \<Rightarrow> predictor \<Rightarrow> duration \<Rightarrow> (string \<times> f64) list" where
  "hot_scores now p window =
     (let cutoff = time_add now (i64 (- window))
      in sort_scores (filter (\<lambda>(k, s). f_lt (Fin 0) s) (map (\<lambda>(k, h). (k, calculate_score h now cutoff)) (pr_log p))))"

lemma predict_hot_scores:
  "predict_hot_keys now p window limit = map fst
     (if limit > 0 \<and> limit < int (length (hot_scores now p window))
      then take (nat limit) (hot_scores now p window) else hot_scores now p window)"
  by (simp add: predict_hot_keys_def hot_scores_def Let_def)

lemma predict_take:
  "\<exists>n. predict_hot_keys now p window limit = map fst (take n (hot_scores now p window)) \<and>
     (0 < limit \<longrightarrow> int (length (take n (hot_scores now p window))) \<le> limit)"
  by (intro exI [of _ "if limit > 0 \<and> limit < int (length (hot_scores now p window)) then nat limit
      else length (hot_scores now p window)"]) (auto simp: predict_hot_scores)

lemma hot_scores_set:
  "set (hot_scores now p window) =
     {(k, s). f_lt (Fin 0) s \<and> (\<exists>h. (k, h) \<in> set (pr_log p) \<and> s = calculate_score h now (time_add now (i64 (- window))))}"
proof -
  have "set (sort_scores xs) = set xs" for xs using sort_scores_mset [of xs] by (metis set_mset_mset)
  then show ?thesis by (auto simp: hot_scores_def Let_def)
qed

lemma hot_scores_distinct:
  assumes "log_sound p"
  shows "distinct (map fst (hot_scores now p window))"
proof -
  let ?all = "map (\<lambda>(k, h). (k, calculate_score h now (time_add now (i64 (- window))))) (pr_log p)"
  have "map fst ?all = map fst (pr_log p)" by (induction "pr_log p") auto
  then have "distinct (map fst (filter (\<lambda>(k, s). f_lt (Fin 0) s) ?all))"
    using assms unfolding log_sound_def by (metis distinct_map_filter)
  moreover have "mset (map fst (hot_scores now p window)) = mset (map fst (filter (\<lambda>(k, s). f_lt (Fin 0) s) ?all))"
    by (simp add: hot_scores_def Let_def sort_scores_mset)
  ultimately show ?thesis by (metis mset_eq_imp_distinct_iff)
qed

lemma hot_scores_length: "length (hot_scores now p window) \<le> length (pr_log p)"
proof -
  have "length (sort_scores xs) = length xs" for xs using sort_scores_mset [of xs] by (metis size_mset)
  then show ?thesis
    using length_filter_le [of "\<lambda>(k, s). f_lt (Fin 0) s"
        "map (\<lambda>(k, h). (k, calculate_score h now (time_add now (i64 (- window))))) (pr_log p)"]
    by (simp add: hot_scores_def Let_def)
qed

lemma predicted_accessed:
  assumes "log_sound p"
  shows "set (predict_hot_keys now p window limit) \<subseteq> accessed_since p (now + i64 (- window))"
proof
  fix k assume "k \<in> set (predict_hot_keys now p window limit)"
  moreover obtain n where "predict_hot_keys now p window limit = map fst (take n (hot_scores now p window))"
    using predict_take by blast
  ultimately obtain s where "(k, s) \<in> set (hot_scores now p window)" by (auto dest: in_set_takeD)
  then obtain h where h: "(k, h) \<in> set (pr_log p)"
    "f_lt (Fin 0) (calculate_score h now (time_add now (i64 (- window))))"
    by (auto simp: hot_scores_set)
  from score_needs_recent [OF h(2)] h(1) assms show "k \<in> accessed_since p (now + i64 (- window))"
    by (auto simp: accessed_since_def log_sound_def time_add_def)
qed

lemma predicted_distinct: "log_sound p \<Longrightarrow> distinct (predict_hot_keys now p window limit)"
  using predict_take [of now p window limit] hot_scores_distinct [of p now window]
  by (auto simp: take_map [symmetric] intro: distinct_take)

lemma predicted_at_most:
  "int (length (predict_hot_keys now p window limit)) \<le> (if 0 < limit then limit else int (length (pr_log p)))"
  using predict_take [of now p window limit] hot_scores_length [of now p window] by (auto simp: min_def)

lemma predicted_sorted:
  assumes "log_sound p"
  shows "sorted_wrt (\<lambda>k k'. \<not> f_lt (tracked_score p now (time_add now (i64 (- window))) k)
    (tracked_score p now (time_add now (i64 (- window))) k')) (predict_hot_keys now p window limit)"
proof -
  let ?cut = "time_add now (i64 (- window))"
  let ?s = "hot_scores now p window"
  have srt: "sorted_wrt hotter ?s" unfolding hot_scores_def Let_def by (rule sort_scores_sorted) auto
  have score: "snd x = tracked_score p now ?cut (fst x)" if "x \<in> set ?s" for x
    using that assms by (auto simp: hot_scores_set tracked_score_def log_sound_def)
  have "sorted_wrt (\<lambda>x y. \<not> f_lt (tracked_score p now ?cut (fst x)) (tracked_score p now ?cut (fst y))) ?s"
    by (rule sorted_wrt_mono_rel [OF _ srt]) (simp add: score hotter_def)
  moreover obtain n where "predict_hot_keys now p window limit = map fst (take n ?s)"
    using predict_take by blast
  ultimately show ?thesis by (simp add: sorted_wrt_map sorted_wrt_take)
qed

text \<open>The log keeps one history per key.\<close>

lemma log_sound_new: "log_sound new_predictor"
  by (simp add: log_sound_def new_predictor_def)

lemma log_sound_record: "log_sound p \<Longrightarrow> log_sound (pr_record_access now p key)"
  by (simp add: log_sound_def pr_record_access_def Let_def distinct_update)

lemma log_sound_cleanup: "log_sound p \<Longrightarrow> log_sound (fst (pr_cleanup now p d))"
  by (simp add: log_sound_def pr_cleanup_def Let_def distinct_map_filter)

section \<open>The contract of the interface \<open>Predictor\<close>\<close>

text \<open>What the warming service relies on: the predicted keys were accessed in the window, none twice, and a
  positive limit is respected.\<close>

locale hot_key_source =
  fixes sound :: "'p \<Rightarrow> bool"
    and accessed :: "'p \<Rightarrow> time \<Rightarrow> string set"
    and predict :: "time \<Rightarrow> 'p \<Rightarrow> duration \<Rightarrow> int \<Rightarrow> string list"
  assumes predict_accessed: "sound p \<Longrightarrow> set (predict now p window limit) \<subseteq> accessed p (now + i64 (- window))"
    and predict_once: "sound p \<Longrightarrow> distinct (predict now p window limit)"
    and predict_at_most: "sound p \<Longrightarrow> 0 < limit \<Longrightarrow> int (length (predict now p window limit)) \<le> limit"
begin

text \<open>Nothing is predicted for a window without accesses.\<close>

lemma predict_nothing: "sound p \<Longrightarrow> accessed p (now + i64 (- window)) = {} \<Longrightarrow> predict now p window limit = []"
  using predict_accessed [of p now window limit] by simp

end

interpretation default_predictor: hot_key_source log_sound accessed_since predict_hot_keys
proof
  fix p now window and limit :: int
  assume "0 < limit"
  then show "int (length (predict_hot_keys now p window limit)) \<le> limit"
    using predicted_at_most [of now p window limit] by simp
qed (rule predicted_accessed predicted_distinct, assumption)+

interpretation ml_predictor: hot_key_source "\<lambda>_ :: unit. True" "\<lambda>_ _. {}" "\<lambda>now _. ml_predict_hot_keys now"
  by unfold_locales (simp_all add: ml_predict_hot_keys_def)

section \<open>Properties\<close>

text \<open>
  Further result.  Predictions are sound: every predicted key is tracked and was accessed after the start
  of the window, no key is predicted twice, they come hottest first, and there are at most \<open>limit\<close>
  of them when the limit is positive.
\<close>

theorem predictions_recent:
  assumes "distinct (map fst (pr_log p))"
  shows "set (predict_hot_keys now p window limit) \<subseteq>
      {k. \<exists>h t. map_of (pr_log p) k = Some h \<and> t \<in> set (ah_times h) \<and> now + i64 (- window) < t} \<and>
    distinct (predict_hot_keys now p window limit) \<and>
    sorted_wrt (\<lambda>k k'. \<not> f_lt (tracked_score p now (time_add now (i64 (- window))) k)
        (tracked_score p now (time_add now (i64 (- window))) k')) (predict_hot_keys now p window limit) \<and>
    int (length (predict_hot_keys now p window limit)) \<le>
      (if 0 < limit then limit else int (length (pr_log p)))"
  using assms predicted_accessed [of p now window limit] predicted_distinct [of p now window limit]
    predicted_sorted [of p now window limit] predicted_at_most [of now p window limit]
  unfolding log_sound_def accessed_since_def by blast

theorem predictions_recent_witness:
  "distinct (predict_hot_keys 7 (pr_record_access 5 new_predictor ''k'') hour 10)"
  using predictions_recent [of "pr_record_access 5 new_predictor ''k''" 7 hour 10]
  by (simp add: pr_record_access_def new_predictor_def)

end
