(* ===== verification/WarmService.thy ===== *)
theory WarmService
  imports WorkerPool Predictor
begin

text \<open>
  The warming service, \<open>warming/service.go\<close>: the requests that queue tasks, the execution of a task
  with its rate limit, origin fetch, emergency stop and cache write, the pauses between retries,
  status and configuration.

  The origin and the cache client are interfaces, the limiter is \<open>golang.org/x/time/rate\<close>: they are
  fields of an environment on an abstract world.  The call deduplication of
  \<open>golang.org/x/sync/singleflight\<close> is the argument \<open>shared\<close>: the result of another execution for the
  key, if the call is answered by one.
\<close>

section \<open>State\<close>

record warm_config =
  wc_max_rps :: int
  wc_max_batch :: int
  wc_warmers :: int
  wc_ttl :: duration
  wc_origin_timeout :: duration
  wc_retries :: int
  wc_backoff :: duration
  wc_threshold :: duration
  wc_strategy :: string

definition warm_default_config :: warm_config where
  "warm_default_config = \<lparr>wc_max_rps = 100, wc_max_batch = 50, wc_warmers = 10, wc_ttl = 1 * hour,
     wc_origin_timeout = 5 * second, wc_retries = 3, wc_backoff = 100 * millisecond,
     wc_threshold = 2 * second, wc_strategy = ''priority''\<rparr>"

record warm_metrics =
  wm_jobs :: int
  wm_success :: int
  wm_failure :: int
  wm_origin :: int
  wm_writes :: int
  wm_rate_hits :: int
  wm_stops :: int
  wm_duration :: int

definition warm_metrics_zero :: warm_metrics where
  "warm_metrics_zero = \<lparr>wm_jobs = 0, wm_success = 0, wm_failure = 0, wm_origin = 0, wm_writes = 0,
     wm_rate_hits = 0, wm_stops = 0, wm_duration = 0\<rparr>"

record warm_completed_event =
  we_key :: string
  we_status :: string
  we_duration_ms :: int
  we_strategy :: string
  we_at :: time

record scheduled_job =
  sj_id :: string
  sj_name :: string
  sj_schedule :: string
  sj_strategy :: string
  sj_pattern :: string
  sj_limit :: int
  sj_priority :: int
  sj_enabled :: bool
  sj_last_run :: "time option"
  sj_next_run :: "time option"
  sj_runs :: int
  sj_fails :: int

record 'w warm_env =
  limiter_wait :: "'w \<Rightarrow> int \<times> int \<Rightarrow> 'w \<times> go_error option"
  fetch_origin :: "'w \<Rightarrow> string \<Rightarrow> 'w \<times> (string \<times> duration) go_result"
  client_set :: "'w \<Rightarrow> string \<Rightarrow> string \<Rightarrow> duration \<Rightarrow> 'w \<times> go_error option"

text \<open>\<open>ws_limiter\<close> holds the rate and the burst the limiter was made with, \<open>ws_events\<close> the completion
  events handed to the topic, \<open>ws_jobs\<close> and \<open>ws_sched_stopped\<close> are the scheduler.\<close>

record 'w warm_service =
  ws_cfg :: warm_config
  ws_strategies :: "(string \<times> strategy) list"
  ws_predictor :: predictor
  ws_has_fetcher :: bool
  ws_has_client :: bool
  ws_jobs :: "(string \<times> scheduled_job) list"
  ws_sched_stopped :: bool
  ws_pool :: worker_pool
  ws_metrics :: warm_metrics
  ws_limiter :: "int \<times> int"
  ws_stop :: bool
  ws_events :: "warm_completed_event list"
  ws_world :: 'w

definition warm_strategies :: "(string \<times> strategy) list" where
  "warm_strategies = [(''selective'', Selective), (''breadth'', Breadth), (''priority'', Priority)]"

definition warm_init :: "'w \<Rightarrow> 'w warm_service go_result" where
  "warm_init w =
     (case new_worker_pool (wc_warmers warm_default_config) of
        Inl e \<Rightarrow> Inl e
      | Inr pool \<Rightarrow> Inr \<lparr>ws_cfg = warm_default_config, ws_strategies = warm_strategies,
          ws_predictor = new_predictor, ws_has_fetcher = False, ws_has_client = False, ws_jobs = [],
          ws_sched_stopped = False, ws_pool = pool, ws_metrics = warm_metrics_zero,
          ws_limiter = (wc_max_rps warm_default_config, wc_max_rps warm_default_config), ws_stop = False,
          ws_events = [], ws_world = w\<rparr>)"

definition set_origin_fetcher :: "bool \<Rightarrow> 'w warm_service \<Rightarrow> 'w warm_service" where
  "set_origin_fetcher present s = s\<lparr>ws_has_fetcher := present\<rparr>"

definition set_cache_client :: "bool \<Rightarrow> 'w warm_service \<Rightarrow> 'w warm_service" where
  "set_cache_client present s = s\<lparr>ws_has_client := present\<rparr>"

abbreviation ws_count :: "(warm_metrics \<Rightarrow> warm_metrics) \<Rightarrow> 'w warm_service \<Rightarrow> 'w warm_service" where
  "ws_count f s \<equiv> s\<lparr>ws_metrics := f (ws_metrics s)\<rparr>"

definition add_jobs :: "int \<Rightarrow> warm_metrics \<Rightarrow> warm_metrics" where
  "add_jobs n m = m\<lparr>wm_jobs := add64 (wm_jobs m) n\<rparr>"
definition inc_success :: "warm_metrics \<Rightarrow> warm_metrics" where
  "inc_success m = m\<lparr>wm_success := add64 (wm_success m) 1\<rparr>"
definition inc_failure :: "warm_metrics \<Rightarrow> warm_metrics" where
  "inc_failure m = m\<lparr>wm_failure := add64 (wm_failure m) 1\<rparr>"
definition inc_origin :: "warm_metrics \<Rightarrow> warm_metrics" where
  "inc_origin m = m\<lparr>wm_origin := add64 (wm_origin m) 1\<rparr>"
definition inc_writes :: "warm_metrics \<Rightarrow> warm_metrics" where
  "inc_writes m = m\<lparr>wm_writes := add64 (wm_writes m) 1\<rparr>"
definition inc_rate_hits :: "warm_metrics \<Rightarrow> warm_metrics" where
  "inc_rate_hits m = m\<lparr>wm_rate_hits := add64 (wm_rate_hits m) 1\<rparr>"
definition inc_stops :: "warm_metrics \<Rightarrow> warm_metrics" where
  "inc_stops m = m\<lparr>wm_stops := add64 (wm_stops m) 1\<rparr>"
definition add_duration :: "int \<Rightarrow> warm_metrics \<Rightarrow> warm_metrics" where
  "add_duration ms m = m\<lparr>wm_duration := add64 (wm_duration m) ms\<rparr>"

lemmas ws_incs = add_jobs_def inc_success_def inc_failure_def inc_origin_def inc_writes_def
  inc_rate_hits_def inc_stops_def add_duration_def

section \<open>Requests\<close>

text \<open>The outcome of a request: a response, an error, or a run-time panic.\<close>

datatype 'a outcome = Returned 'a | Failed go_error | Panicked string

record warm_key_request =
  wkr_keys :: "string list"
  wkr_priority :: int
  wkr_strategy :: string

record warm_key_response =
  wkp_success :: bool
  wkp_queued :: int
  wkp_keys :: "string list"
  wkp_job :: string
  wkp_estimate :: int

record warm_pattern_request =
  wpr_pattern :: string
  wpr_limit :: int
  wpr_priority :: int
  wpr_strategy :: string
  wpr_keys :: "string list"

record warm_pattern_response =
  wpp_success :: bool
  wpp_pattern :: string
  wpp_queued :: int
  wpp_matched :: "string list"
  wpp_job :: string
  wpp_estimate :: int

definition generate_job_id :: "time \<Rightarrow> time \<Rightarrow> string" where
  "generate_job_id now1 now2 =
     ''warm-'' @ int_dec (i64 now1) @ ''-'' @ int_dec ((now2 mod second) mod 1000)"

definition stop_error :: go_error where
  "stop_error = ErrMsg ''warming service in emergency stop mode''"

text \<open>The common end of the queueing requests: the division by the number of warmers comes last.\<close>

definition queue_and_estimate ::
    "warm_task list \<Rightarrow> (int \<Rightarrow> int \<Rightarrow> 'a) \<Rightarrow> 'w warm_service \<Rightarrow> 'w warm_service \<times> 'a outcome" where
  "queue_and_estimate tasks resp s =
     (let (pool, queued) = queue_tasks (ws_pool s) tasks;
          s = ws_count (add_jobs queued) (s\<lparr>ws_pool := pool\<rparr>)
      in if wc_warmers (ws_cfg s) = 0 then (s, Panicked ''integer divide by zero'')
         else (s, Returned (resp queued (go_div (queued * 50) (wc_warmers (ws_cfg s))))))"

definition key_tasks :: "warm_config \<Rightarrow> warm_key_request \<Rightarrow> warm_task list" where
  "key_tasks cfg req =
     (let priority = (if wkr_priority req = 0 then 50 else wkr_priority req)
      in map (\<lambda>key. \<lparr>wt_key = key, wt_priority = priority, wt_cost = 50, wt_ttl = wc_ttl cfg,
           wt_strategy = wkr_strategy req, wt_meta = []\<rparr>) (wkr_keys req))"

definition warm_key ::
    "(nat \<Rightarrow> time) \<Rightarrow> 'w warm_service \<Rightarrow> warm_key_request \<Rightarrow> 'w warm_service \<times> warm_key_response outcome" where
  "warm_key clock s req =
     (if wkr_keys req = [] then (s, Failed (ErrMsg ''keys cannot be empty''))
      else if ws_stop s then (s, Failed stop_error)
      else queue_and_estimate (key_tasks (ws_cfg s) req)
        (\<lambda>queued estimate. \<lparr>wkp_success = True, wkp_queued = queued, wkp_keys = wkr_keys req,
           wkp_job = generate_job_id (clock 0) (clock 1), wkp_estimate = estimate\<rparr>) s)"

definition filter_by_pattern :: "string list \<Rightarrow> string \<Rightarrow> string list" where
  "filter_by_pattern keys pattern =
     (if pattern = ''*'' then keys
      else
        (let prefix = (if pattern \<noteq> [] \<and> last pattern = CHR ''*'' then butlast pattern else pattern)
         in filter (\<lambda>key. length key \<ge> length prefix \<and> take (length prefix) key = prefix) keys))"

definition pattern_keys :: "time \<Rightarrow> 'w warm_service \<Rightarrow> warm_pattern_request \<Rightarrow> string list" where
  "pattern_keys now s req =
     (let keys = (if wpr_keys req \<noteq> [] then wpr_keys req
        else filter_by_pattern (predict_hot_keys now (ws_predictor s) (1 * hour) 100) (wpr_pattern req))
      in if wpr_limit req > 0 \<and> int (length keys) > wpr_limit req
         then take (nat (wpr_limit req)) keys else keys)"

definition warm_pattern ::
    "(nat \<Rightarrow> time) \<Rightarrow> 'w warm_service \<Rightarrow> warm_pattern_request \<Rightarrow>
     'w warm_service \<times> warm_pattern_response outcome" where
  "warm_pattern clock s req =
     (if wpr_pattern req = [] then (s, Failed (ErrMsg ''pattern cannot be empty''))
      else if ws_stop s then (s, Failed stop_error)
      else
        (let keys = pattern_keys (clock 0) s req;
             name = (if wpr_strategy req = [] then wc_strategy (ws_cfg s) else wpr_strategy req)
         in case map_of (ws_strategies s) name of
              None \<Rightarrow> (s, Failed (ErrMsg (''unknown strategy: '' @ name)))
            | Some strategy \<Rightarrow>
                queue_and_estimate
                  (plan strategy \<lparr>po_keys = keys, po_priority = wpr_priority req, po_limit = wpr_limit req\<rparr>)
                  (\<lambda>queued estimate. \<lparr>wpp_success = True, wpp_pattern = wpr_pattern req, wpp_queued = queued,
                     wpp_matched = keys, wpp_job = generate_job_id (clock 1) (clock 2),
                     wpp_estimate = estimate\<rparr>) s))"

text \<open>A missing \<open>priority\<close> strategy would be a call on a nil interface.\<close>

definition trigger_predictive ::
    "(nat \<Rightarrow> time) \<Rightarrow> 'w warm_service \<Rightarrow> 'w warm_service \<times> warm_key_response outcome" where
  "trigger_predictive clock s =
     (if ws_stop s then (s, Failed stop_error)
      else
        (let keys = predict_hot_keys (clock 0) (ws_predictor s) (1 * hour) 100 in
         if keys = [] then
           (s, Returned \<lparr>wkp_success = True, wkp_queued = 0, wkp_keys = [], wkp_job = [], wkp_estimate = 0\<rparr>)
         else
           (case map_of (ws_strategies s) ''priority'' of
              None \<Rightarrow> (s, Panicked ''nil pointer dereference'')
            | Some strategy \<Rightarrow>
                queue_and_estimate (plan strategy \<lparr>po_keys = keys, po_priority = 80, po_limit = 0\<rparr>)
                  (\<lambda>queued estimate. \<lparr>wkp_success = True, wkp_queued = queued, wkp_keys = keys,
                     wkp_job = generate_job_id (clock 1) (clock 2), wkp_estimate = estimate\<rparr>) s)))"

section \<open>Status and configuration\<close>

record metrics_snapshot =
  mn_jobs :: int
  mn_success :: int
  mn_failure :: int
  mn_success_rate :: f64
  mn_origin :: int
  mn_writes :: int
  mn_rate_hits :: int
  mn_stops :: int
  mn_avg_duration :: f64

record status_response =
  st_active :: int
  st_queued :: int
  st_workers :: "worker list"
  st_stop :: bool
  st_metrics :: metrics_snapshot

definition get_status :: "'w warm_service \<Rightarrow> status_response" where
  "get_status s =
     (let m = ws_metrics s;
          rate = (if wm_jobs m > 0 then f_div (f_of_int (wm_success m)) (f_of_int (wm_jobs m)) else Fin 0);
          avg = (if wm_success m > 0
            then f_div (f_of_int (wm_duration m)) (f_of_int (wm_success m)) else Fin 0)
      in \<lparr>st_active = active_count (ws_pool s), st_queued = queue_size (ws_pool s),
          st_workers = get_worker_status (ws_pool s), st_stop = ws_stop s,
          st_metrics = \<lparr>mn_jobs = wm_jobs m, mn_success = wm_success m, mn_failure = wm_failure m,
            mn_success_rate = rate, mn_origin = wm_origin m, mn_writes = wm_writes m,
            mn_rate_hits = wm_rate_hits m, mn_stops = wm_stops m, mn_avg_duration = avg\<rparr>\<rparr>)"

record config_view =
  cv_max_rps :: int
  cv_max_batch :: int
  cv_warmers :: int
  cv_ttl :: string
  cv_origin_timeout :: string
  cv_retries :: int
  cv_backoff :: string
  cv_threshold :: string
  cv_strategy :: string

definition config_to_view :: "warm_config \<Rightarrow> config_view" where
  "config_to_view c = \<lparr>cv_max_rps = wc_max_rps c, cv_max_batch = wc_max_batch c, cv_warmers = wc_warmers c,
     cv_ttl = dur_string (wc_ttl c), cv_origin_timeout = dur_string (wc_origin_timeout c),
     cv_retries = wc_retries c, cv_backoff = dur_string (wc_backoff c),
     cv_threshold = dur_string (wc_threshold c), cv_strategy = wc_strategy c\<rparr>"

definition get_config :: "'w warm_service \<Rightarrow> config_view" where
  "get_config s = config_to_view (ws_cfg s)"

record update_config_request =
  uc_max_rps :: "int option"
  uc_max_batch :: "int option"
  uc_warmers :: "int option"
  uc_strategy :: string

text \<open>The fields are assigned one after the other; the strategy is checked last.\<close>

definition update_config ::
    "'w warm_service \<Rightarrow> update_config_request \<Rightarrow> 'w warm_service \<times> config_view go_result" where
  "update_config s req =
     (let s = (case uc_max_rps req of None \<Rightarrow> s
            | Some n \<Rightarrow> s\<lparr>ws_cfg := (ws_cfg s)\<lparr>wc_max_rps := n\<rparr>, ws_limiter := (n, n)\<rparr>);
          s = (case uc_max_batch req of None \<Rightarrow> s
            | Some n \<Rightarrow> s\<lparr>ws_cfg := (ws_cfg s)\<lparr>wc_max_batch := n\<rparr>\<rparr>);
          s = (case uc_warmers req of None \<Rightarrow> s
            | Some n \<Rightarrow> s\<lparr>ws_cfg := (ws_cfg s)\<lparr>wc_warmers := n\<rparr>\<rparr>)
      in if uc_strategy req = [] then (s, Inr (config_to_view (ws_cfg s)))
         else if uc_strategy req \<notin> fst ` set (ws_strategies s)
         then (s, Inl (ErrMsg (''unknown strategy: '' @ uc_strategy req)))
         else (let s = s\<lparr>ws_cfg := (ws_cfg s)\<lparr>wc_strategy := uc_strategy req\<rparr>\<rparr>
               in (s, Inr (config_to_view (ws_cfg s)))))"

section \<open>The execution of a task\<close>

text \<open>\<open>clock 0\<close> is the reading inside \<open>time.Now().Add(...)\<close>, \<open>clock 1\<close> the one of \<open>time.Since\<close>.\<close>

definition execute_warm_task_internal ::
    "'w warm_env \<Rightarrow> (nat \<Rightarrow> time) \<Rightarrow> 'w warm_service \<Rightarrow> warm_task \<Rightarrow> 'w warm_service \<times> go_error option" where
  "execute_warm_task_internal env clock s task =
     (let (w, err) = limiter_wait env (ws_world s) (ws_limiter s); s = s\<lparr>ws_world := w\<rparr> in
      case err of Some e \<Rightarrow> (ws_count inc_rate_hits s, Some (ErrWrap ''rate limit: '' e))
      | None \<Rightarrow>
        (if \<not> ws_has_fetcher s then (s, Some (ErrMsg ''origin fetcher not configured''))
         else
           (let (w, res) = fetch_origin env (ws_world s) (wt_key task); s = s\<lparr>ws_world := w\<rparr> in
            case res of Inl e \<Rightarrow> (s, Some (ErrWrap ''origin fetch failed: '' e))
            | Inr (value, ttl) \<Rightarrow>
              (let s = ws_count inc_origin s;
                   fetch_duration =
                     time_sub (clock 1) (time_add (clock 0) (i64 (- wc_origin_timeout (ws_cfg s))))
               in if fetch_duration > wc_threshold (ws_cfg s)
                  then (ws_count inc_stops (s\<lparr>ws_stop := True\<rparr>),
                    Some (ErrMsg ''emergency stop triggered due to high origin latency''))
                  else
                    (let ttl = (if ttl = 0 then wt_ttl task else ttl) in
                     if ws_has_client s then
                       (let (w, err) = client_set env (ws_world s) (wt_key task) value ttl;
                            s = s\<lparr>ws_world := w\<rparr>
                        in case err of Some e \<Rightarrow> (s, Some (ErrWrap ''cache write failed: '' e))
                           | None \<Rightarrow> (ws_count inc_writes s, None))
                     else (s, None))))))"

definition publish_warm_completion ::
    "string \<Rightarrow> string \<Rightarrow> duration \<Rightarrow> string \<Rightarrow> time \<Rightarrow> 'w warm_service \<Rightarrow> 'w warm_service" where
  "publish_warm_completion key status d strategy now s =
     s\<lparr>ws_events := ws_events s @ [\<lparr>we_key = key, we_status = status, we_duration_ms = dur_ms d,
        we_strategy = strategy, we_at = now\<rparr>]\<rparr>"

text \<open>\<open>ExecuteWarmTask\<close> with the result of the deduplicated call, if another execution supplies it.\<close>

definition execute_warm_task ::
    "'w warm_env \<Rightarrow> (nat \<Rightarrow> time) \<Rightarrow> go_error option option \<Rightarrow> 'w warm_service \<Rightarrow> warm_task \<Rightarrow>
     'w warm_service \<times> go_error option" where
  "execute_warm_task env clock shared s task =
     (let start = clock 0 in
      if ws_stop s then (s, Some (ErrMsg ''emergency stop active''))
      else
        (let (s, err) = (case shared of
               None \<Rightarrow> execute_warm_task_internal env (\<lambda>i. clock (i + 1)) s task
             | Some r \<Rightarrow> (s, r));
             d = time_sub (clock 3) start;
             s = ws_count (add_duration (dur_ms d)) s
         in case err of Some e \<Rightarrow> (ws_count inc_failure s, Some e)
            | None \<Rightarrow>
                (publish_warm_completion (wt_key task) ''success'' d (wt_strategy task) (clock 4)
                   (ws_count inc_success s), None)))"

text \<open>The pause before attempt number \<open>attempt\<close>; the remainder by zero panics.\<close>

definition retry_pause :: "duration \<Rightarrow> nat \<Rightarrow> time \<Rightarrow> duration option" where
  "retry_pause backoff attempt now =
     (let sleep_time = i64 (backoff * i64 (2 ^ (attempt - 1))); half = go_div sleep_time 2 in
      if half = 0 then None
      else Some (i64 (sleep_time + (i64 now - go_div (i64 now) half * half))))"

definition warm_shutdown :: "'w warm_service \<Rightarrow> 'w warm_service go_result" where
  "warm_shutdown s =
     (case wp_shutdown (ws_pool s) of
        Inl e \<Rightarrow> Inl e
      | Inr pool \<Rightarrow>
          (let s = s\<lparr>ws_pool := pool\<rparr> in
           if ws_sched_stopped s then Inl (ErrMsg ''close of closed channel'')
           else Inr (s\<lparr>ws_sched_stopped := True\<rparr>)))"

section \<open>What a pattern request queues\<close>

lemma queue_and_estimate_queue:
  assumes "queue_and_estimate tasks resp s = (s', Returned r)"
  shows "\<exists>n. wp_queue (ws_pool s') = wp_queue (ws_pool s) @ take n tasks \<and>
    r = resp (int (length (take n tasks))) (go_div (int (length (take n tasks)) * 50) (wc_warmers (ws_cfg s)))"
  using assms
  by (auto simp: queue_and_estimate_def queue_tasks_room Let_def min.commute split: if_splits)

lemma filter_by_pattern_scope:
  "k \<in> set (filter_by_pattern keys pattern) \<Longrightarrow>
     k \<in> set keys \<and> (pattern = ''*'' \<or> has_prefix k (trim_suffix pattern ''*''))"
  by (auto simp: filter_by_pattern_def Let_def has_prefix_def has_suffix_star trim_suffix_star trim_suffix_def
      butlast_conv_take split: if_splits)

lemma pattern_keys_scope:
  "wpr_keys req = [] \<Longrightarrow> k \<in> set (pattern_keys now s req) \<Longrightarrow>
     k \<in> set (predict_hot_keys now (ws_predictor s) (1 * hour) 100) \<and>
     (wpr_pattern req = ''*'' \<or> has_prefix k (trim_suffix (wpr_pattern req) ''*''))"
  by (auto simp: pattern_keys_def Let_def dest: in_set_takeD filter_by_pattern_scope split: if_splits)

text \<open>
  Further result.  A request to warm a pattern queues only keys it reports: the new tasks are appended to the
  queue, as many as reported, each for a key that was matched; without explicit keys every matched key
  is one the predictor considers hot and begins with the pattern up to its final star (a pattern
  without star is a prefix as well).
\<close>

theorem pattern_warming_scope:
  assumes "warm_pattern clock s req = (s', Returned resp)"
  shows "\<exists>new. wp_queue (ws_pool s') = wp_queue (ws_pool s) @ new \<and> wpp_queued resp = int (length new) \<and>
    wt_key ` set new \<subseteq> set (wpp_matched resp) \<and>
    (wpr_keys req = [] \<longrightarrow> set (wpp_matched resp) \<subseteq>
      {k \<in> set (predict_hot_keys (clock 0) (ws_predictor s) (1 * hour) 100).
        wpr_pattern req = ''*'' \<or> has_prefix k (trim_suffix (wpr_pattern req) ''*'')})"
proof -
  let ?keys = "pattern_keys (clock 0) s req"
  obtain strategy where q: "queue_and_estimate
      (plan strategy \<lparr>po_keys = ?keys, po_priority = wpr_priority req, po_limit = wpr_limit req\<rparr>)
      (\<lambda>queued estimate. \<lparr>wpp_success = True, wpp_pattern = wpr_pattern req, wpp_queued = queued,
         wpp_matched = ?keys, wpp_job = generate_job_id (clock 1) (clock 2), wpp_estimate = estimate\<rparr>) s =
      (s', Returned resp)"
    using assms by (auto simp: warm_pattern_def Let_def split: if_splits option.splits)
  let ?opts = "\<lparr>po_keys = ?keys, po_priority = wpr_priority req, po_limit = wpr_limit req\<rparr>"
  obtain n where n: "wp_queue (ws_pool s') = wp_queue (ws_pool s) @ take n (plan strategy ?opts)"
    "wpp_queued resp = int (length (take n (plan strategy ?opts)))" "wpp_matched resp = ?keys"
    using queue_and_estimate_queue [OF q] by auto
  moreover have "wt_key ` set (take n (plan strategy ?opts)) \<subseteq> set ?keys"
    using any_strategy.keys_given [of strategy ?opts] set_take_subset [of n "plan strategy ?opts"] by auto
  ultimately show ?thesis using pattern_keys_scope [of req _ "clock 0" s] by (intro exI [of _ "take n (plan strategy ?opts)"]) auto
qed

theorem pattern_warming_scope_witness:
  "\<exists>s' resp. warm_pattern (\<lambda>_. 0) (projr (warm_init (0 :: nat)))
      \<lparr>wpr_pattern = ''user:*'', wpr_limit = 0, wpr_priority = 80, wpr_strategy = ''selective'', wpr_keys = [''user:1'']\<rparr> =
      (s', Returned resp) \<and> wpp_matched resp = [''user:1''] \<and>
    wt_key ` set (wp_queue (ws_pool s')) \<subseteq> {''user:1''} \<and> wpp_queued resp = int (length (wp_queue (ws_pool s')))"
proof -
  let ?req = "\<lparr>wpr_pattern = ''user:*'', wpr_limit = 0, wpr_priority = 80, wpr_strategy = ''selective'',
    wpr_keys = [''user:1'']\<rparr>"
  let ?s = "projr (warm_init (0 :: nat))"
  obtain s' resp where r: "warm_pattern (\<lambda>_. 0) ?s ?req = (s', Returned resp)" "wpp_matched resp = [''user:1'']"
    by (simp add: warm_pattern_def pattern_keys_def warm_init_def new_worker_pool_def warm_default_config_def
        warm_strategies_def queue_and_estimate_def queue_tasks_room Let_def)
  moreover have "wp_queue (ws_pool ?s) = []"
    by (simp add: warm_init_def new_worker_pool_def warm_default_config_def)
  ultimately show ?thesis using pattern_warming_scope [OF r(1)] by auto
qed

end
