(* ===== verification/Scheduler.thy ===== *)
theory Scheduler
  imports WarmService
begin

text \<open>
  The scheduler and the cron endpoints of the warming service, \<open>warming/cron.go\<close>.  The cron library
  calls the endpoints; a registered job is run by \<open>executeJob\<close>, and its record is the caller's.
\<close>

section \<open>Cron endpoints\<close>

text \<open>An endpoint returns only the error of the request it makes.\<close>

fun outcome_error :: "'a outcome \<Rightarrow> unit outcome" where
  "outcome_error (Returned _) = Returned ()"
| "outcome_error (Failed e) = Failed e"
| "outcome_error (Panicked m) = Panicked m"

definition daily_warmup :: "(nat \<Rightarrow> time) \<Rightarrow> 'w warm_service \<Rightarrow> 'w warm_service \<times> unit outcome" where
  "daily_warmup clock s = (let (s, r) = trigger_predictive clock s in (s, outcome_error r))"

definition warm_predicted ::
    "duration \<Rightarrow> int \<Rightarrow> int \<Rightarrow> (nat \<Rightarrow> time) \<Rightarrow> 'w warm_service \<Rightarrow> 'w warm_service \<times> unit outcome" where
  "warm_predicted window limit priority clock s =
     (let keys = predict_hot_keys (clock 0) (ws_predictor s) window limit in
      if keys = [] then (s, Returned ())
      else
        (let (s, r) = warm_key (\<lambda>i. clock (i + 1)) s
               \<lparr>wkr_keys = keys, wkr_priority = priority, wkr_strategy = ''priority''\<rparr>
         in (s, outcome_error r)))"

definition hourly_refresh :: "(nat \<Rightarrow> time) \<Rightarrow> 'w warm_service \<Rightarrow> 'w warm_service \<times> unit outcome" where
  "hourly_refresh = warm_predicted (1 * hour) 50 70"

definition peak_hours_warmup :: "(nat \<Rightarrow> time) \<Rightarrow> 'w warm_service \<Rightarrow> 'w warm_service \<times> unit outcome" where
  "peak_hours_warmup = warm_predicted (2 * hour) 100 90"

section \<open>Jobs\<close>

definition register_job :: "'w warm_service \<Rightarrow> scheduled_job \<Rightarrow> 'w warm_service \<times> go_error option" where
  "register_job s job =
     (if sj_id job \<in> fst ` set (ws_jobs s)
      then (s, Some (ErrMsg (''job '' @ sj_id job @ '' already exists'')))
      else (s\<lparr>ws_jobs := AList.update (sj_id job) job (ws_jobs s)\<rparr>, None))"

definition unregister_job :: "'w warm_service \<Rightarrow> string \<Rightarrow> 'w warm_service \<times> go_error option" where
  "unregister_job s job_id =
     (if job_id \<notin> fst ` set (ws_jobs s) then (s, Some (ErrMsg (''job '' @ job_id @ '' not found'')))
      else (s\<lparr>ws_jobs := AList.delete job_id (ws_jobs s)\<rparr>, None))"

definition list_jobs :: "'w warm_service \<Rightarrow> scheduled_job list" where
  "list_jobs s = map snd (ws_jobs s)"

definition scheduler_stop :: "'w warm_service \<Rightarrow> 'w warm_service go_result" where
  "scheduler_stop s = (if ws_sched_stopped s then Inl (ErrMsg ''close of closed channel'')
     else Inr (s\<lparr>ws_sched_stopped := True\<rparr>))"

definition execute_job ::
    "(nat \<Rightarrow> time) \<Rightarrow> 'w warm_service \<Rightarrow> scheduled_job \<Rightarrow>
     'w warm_service \<times> scheduled_job \<times> go_error option" where
  "execute_job clock s job =
     (if \<not> sj_enabled job then (s, job, None)
      else
        (let job = job\<lparr>sj_last_run := Some (clock 0)\<rparr> in
         case map_of (ws_strategies s) (sj_strategy job) of
           None \<Rightarrow> (s, job\<lparr>sj_fails := add64 (sj_fails job) 1\<rparr>,
             Some (ErrMsg (''unknown strategy: '' @ sj_strategy job)))
         | Some strategy \<Rightarrow>
             (let keys = (if sj_pattern job \<noteq> []
                    then filter_by_pattern (predict_hot_keys (clock 1) (ws_predictor s) (1 * hour) (sj_limit job))
                      (sj_pattern job)
                    else [])
              in if keys = [] then (s, job, None)
                 else
                   (let (pool, queued) = queue_tasks (ws_pool s)
                          (plan strategy \<lparr>po_keys = keys, po_priority = sj_priority job, po_limit = sj_limit job\<rparr>);
                        s = s\<lparr>ws_pool := pool\<rparr>
                    in if queued > 0
                       then (ws_count (add_jobs queued) s, job\<lparr>sj_runs := add64 (sj_runs job) 1\<rparr>, None)
                       else (s, job, None)))))"

section \<open>Lemmas\<close>

text \<open>A job is found after registration and gone after its removal; the ids stay distinct.\<close>

lemma register_distinct:
  "distinct (map fst (ws_jobs s)) \<Longrightarrow> distinct (map fst (ws_jobs (fst (register_job s job))))"
  by (simp add: register_job_def distinct_update)

lemma unregister_distinct:
  "distinct (map fst (ws_jobs s)) \<Longrightarrow> distinct (map fst (ws_jobs (fst (unregister_job s k))))"
  by (simp add: unregister_job_def al_delete_distinct)

lemma unregister_registered:
  assumes "sj_id job \<notin> fst ` set (ws_jobs s)"
  shows "unregister_job (fst (register_job s job)) (sj_id job) = (s, None)"
proof -
  have "filter (\<lambda>(k, v). sj_id job \<noteq> k) (ws_jobs s) = ws_jobs s"
    using assms by (force simp: filter_id_conv)
  with assms show ?thesis
    by (simp add: register_job_def unregister_job_def al_update_new AList.delete_eq)
qed

end
