(* ===== verification/WarmRuns.thy ===== *)
theory WarmRuns
  imports Scheduler
begin

text \<open>
  The whole warming service as a transition system: its steps are requests, cron endpoints and single
  executions of tasks by the workers (\<open>runWorker\<close> and \<open>retryTask\<close> of \<open>warming/worker_pool.go\<close>).
\<close>

section \<open>Workers\<close>

text \<open>What a worker is doing: attempt 0 is the one of \<open>runWorker\<close>, the later ones are those of
  \<open>retryTask\<close>.\<close>

datatype wk_pc = WkIdle | WkTry warm_task nat | WkDone | WkStopped

text \<open>After an attempt: done when it succeeded, the next one while attempts are left, and a failure event
  after the last retry.\<close>

definition after_attempt ::
    "time \<Rightarrow> warm_task \<Rightarrow> nat \<Rightarrow> 'w warm_service \<times> go_error option \<Rightarrow> 'w warm_service \<times> wk_pc" where
  "after_attempt now task attempt = (\<lambda>(s, err).
     let max_retries = wc_retries (ws_cfg s) in
     if err = None then (s, WkDone)
     else if int attempt + 1 \<le> max_retries then (s, WkTry task (attempt + 1))
     else if 1 \<le> attempt
       then (publish_warm_completion (wt_key task) ''failure'' 0 (wt_strategy task) now s, WkDone)
     else (s, WkDone))"

section \<open>The service as a transition system\<close>

text \<open>The state is the service, what each worker does, and the results that executions of the
  deduplicated function have had so far, by key: a call answered by another execution gets one of
  them.  The clock does not run backwards.\<close>

type_synonym 'w warm_state =
  "'w warm_service \<times> (nat \<Rightarrow> wk_pc) \<times> (string \<times> go_error option) list"

inductive warm_step :: "'w warm_env \<Rightarrow> 'w warm_state \<Rightarrow> 'w warm_state \<Rightarrow> bool" for env where
  ws_warm_key: "warm_step env (s, pc, hist) (fst (warm_key clock s kreq), pc, hist)"
| ws_warm_pattern: "warm_step env (s, pc, hist) (fst (warm_pattern clock s preq), pc, hist)"
| ws_predictive: "warm_step env (s, pc, hist) (fst (trigger_predictive clock s), pc, hist)"
| ws_update: "warm_step env (s, pc, hist) (fst (update_config s ureq), pc, hist)"
| ws_fetcher: "warm_step env (s, pc, hist) (set_origin_fetcher b s, pc, hist)"
| ws_client: "warm_step env (s, pc, hist) (set_cache_client b s, pc, hist)"
| ws_access: "warm_step env (s, pc, hist)
    (s\<lparr>ws_predictor := pr_record_access now (ws_predictor s) key\<rparr>, pc, hist)"
| ws_cleanup: "warm_step env (s, pc, hist)
    (s\<lparr>ws_predictor := fst (pr_cleanup now (ws_predictor s) d)\<rparr>, pc, hist)"
| ws_take: "i < length (wp_workers (ws_pool s)) \<Longrightarrow> pc i = WkIdle \<Longrightarrow>
    worker_take now i (ws_pool s) = Some (pool, task) \<Longrightarrow>
    warm_step env (s, pc, hist) (s\<lparr>ws_pool := pool\<rparr>, pc(i := WkTry task 0), hist)"
| ws_run: "pc i = WkTry task k \<Longrightarrow> mono clock \<Longrightarrow> res = execute_warm_task env clock None s task \<Longrightarrow>
    after_attempt now task k res = (s', p') \<Longrightarrow>
    warm_step env (s, pc, hist)
      (s', pc(i := p'), if ws_stop s then hist else (wt_key task, snd res) # hist)"
| ws_shared: "pc i = WkTry task k \<Longrightarrow> mono clock \<Longrightarrow> (wt_key task, r) \<in> set hist \<Longrightarrow>
    after_attempt now task k (execute_warm_task env clock (Some r) s task) = (s', p') \<Longrightarrow>
    warm_step env (s, pc, hist) (s', pc(i := p'), hist)"
| ws_job: "warm_step env (s, pc, hist) (fst (execute_job clock s job), pc, hist)"
| ws_hourly: "warm_step env (s, pc, hist) (fst (hourly_refresh clock s), pc, hist)"
| ws_peak: "warm_step env (s, pc, hist) (fst (peak_hours_warmup clock s), pc, hist)"
| ws_daily: "warm_step env (s, pc, hist) (fst (daily_warmup clock s), pc, hist)"
| ws_register: "warm_step env (s, pc, hist) (fst (register_job s job), pc, hist)"
| ws_unregister: "warm_step env (s, pc, hist) (fst (unregister_job s key), pc, hist)"
| ws_finish: "i < length (wp_workers (ws_pool s)) \<Longrightarrow> pc i = WkDone \<Longrightarrow>
    warm_step env (s, pc, hist) (s\<lparr>ws_pool := worker_finish i (ws_pool s)\<rparr>, pc(i := WkIdle), hist)"
| ws_leave: "i < length (wp_workers (ws_pool s)) \<Longrightarrow> pc i = WkIdle \<Longrightarrow> wp_stopped (ws_pool s) \<Longrightarrow>
    warm_step env (s, pc, hist) (s\<lparr>ws_pool := worker_stop i (ws_pool s)\<rparr>, pc(i := WkStopped), hist)"
| ws_shutdown: "warm_shutdown s = Inr s' \<Longrightarrow> warm_step env (s, pc, hist) (s', pc, hist)"

abbreviation warm_steps :: "'w warm_env \<Rightarrow> 'w warm_state \<Rightarrow> 'w warm_state \<Rightarrow> bool" where
  "warm_steps env \<equiv> (warm_step env)\<^sup>*\<^sup>*"

definition warm_start :: "'w \<Rightarrow> 'w warm_state" where
  "warm_start w = (projr (warm_init w), \<lambda>_. WkIdle, [])"

section \<open>What requests leave alone\<close>

text \<open>The part of the service that only executions of tasks change, and the fixed part of the
  configuration.\<close>

definition exec_view :: "'w warm_service \<Rightarrow> _" where
  "exec_view s = ((wm_success (ws_metrics s), wm_writes (ws_metrics s), wm_origin (ws_metrics s),
     wm_failure (ws_metrics s)), ws_stop s, ws_events s,
     (wc_origin_timeout (ws_cfg s), wc_threshold (ws_cfg s), wc_retries (ws_cfg s)))"

lemma queue_and_estimate_view [simp]: "exec_view (fst (queue_and_estimate ts f s)) = exec_view s"
  by (simp add: queue_and_estimate_def exec_view_def case_prod_beta Let_def ws_incs)

lemma warm_key_view [simp]: "exec_view (fst (warm_key clock s req)) = exec_view s"
  by (simp add: warm_key_def)

lemma warm_pattern_view [simp]: "exec_view (fst (warm_pattern clock s req)) = exec_view s"
  by (simp add: warm_pattern_def Let_def split: option.split)

lemma trigger_view [simp]: "exec_view (fst (trigger_predictive clock s)) = exec_view s"
  by (simp add: trigger_predictive_def Let_def split: option.split)

lemma update_view [simp]: "exec_view (fst (update_config s req)) = exec_view s"
  by (simp add: update_config_def Let_def exec_view_def split: option.split)

lemma daily_view [simp]: "exec_view (fst (daily_warmup clock s)) = exec_view s"
  by (simp add: daily_warmup_def case_prod_beta Let_def)

lemma warm_predicted_view [simp]: "exec_view (fst (warm_predicted w l p clock s)) = exec_view s"
  by (simp add: warm_predicted_def case_prod_beta Let_def)

lemma execute_job_view [simp]: "exec_view (fst (execute_job clock s job)) = exec_view s"
  by (simp add: execute_job_def case_prod_beta Let_def exec_view_def ws_incs split: option.split)

lemma other_views [simp]:
  "exec_view (set_origin_fetcher b s) = exec_view s" "exec_view (set_cache_client b s) = exec_view s"
  "exec_view (s\<lparr>ws_predictor := p\<rparr>) = exec_view s" "exec_view (s\<lparr>ws_pool := q\<rparr>) = exec_view s"
  "exec_view (fst (register_job s job)) = exec_view s" "exec_view (fst (unregister_job s k)) = exec_view s"
  "exec_view (fst (hourly_refresh clock s)) = exec_view s"
  "exec_view (fst (peak_hours_warmup clock s)) = exec_view s"
  by (simp_all add: set_origin_fetcher_def set_cache_client_def register_job_def unregister_job_def
      hourly_refresh_def peak_hours_warmup_def) (simp_all add: exec_view_def)

lemma shutdown_view: "warm_shutdown s = Inr s' \<Longrightarrow> exec_view s' = exec_view s"
  by (auto simp: warm_shutdown_def wp_shutdown_def exec_view_def Let_def split: if_splits)

section \<open>Executions under the default time limits\<close>

text \<open>The measured time starts at \<open>now - OriginTimeout\<close>, so it is at least the origin timeout.\<close>

lemma fetch_duration_long:
  assumes "t0 \<le> t1"
  shows "2 * second < time_sub t1 (time_add t0 (i64 (- (5 * second))))"
  using assms by (simp add: time_sub_def time_add_def in_i64_def second_def max_duration_def min_duration_def)

definition default_limits :: "'w warm_service \<Rightarrow> bool" where
  "default_limits s \<longleftrightarrow> wc_origin_timeout (ws_cfg s) = 5 * second \<and> wc_threshold (ws_cfg s) = 2 * second"

lemma internal_default:
  assumes "default_limits s" "clock 0 \<le> clock (Suc 0)"
    and "execute_warm_task_internal env clock s task = (s', err)"
  shows "err \<noteq> None" and "ws_cfg s' = ws_cfg s" and "ws_events s' = ws_events s"
    and "wm_success (ws_metrics s') = wm_success (ws_metrics s)"
    and "wm_writes (ws_metrics s') = wm_writes (ws_metrics s)"
    and "ws_stop s \<longrightarrow> ws_stop s'" and "wm_origin (ws_metrics s') \<noteq> wm_origin (ws_metrics s) \<longrightarrow> ws_stop s'"
    and "execute_warm_task_internal (env\<lparr>client_set := f\<rparr>) clock s task = (s', err)"
  using assms(3) fetch_duration_long [OF assms(2)] assms(1)
  by (auto simp: execute_warm_task_internal_def default_limits_def case_prod_beta Let_def ws_incs
      split: option.splits sum.splits if_splits)

lemma execute_default:
  assumes "default_limits s" "mono clock" "shared \<noteq> Some None"
    and "execute_warm_task env clock shared s task = (s', err)"
  shows "err \<noteq> None" and "ws_cfg s' = ws_cfg s" and "ws_events s' = ws_events s"
    and "wm_success (ws_metrics s') = wm_success (ws_metrics s)"
    and "wm_writes (ws_metrics s') = wm_writes (ws_metrics s)"
    and "ws_stop s \<longrightarrow> ws_stop s'" and "wm_origin (ws_metrics s') \<noteq> wm_origin (ws_metrics s) \<longrightarrow> ws_stop s'"
    and "execute_warm_task (env\<lparr>client_set := f\<rparr>) clock shared s task = (s', err)"
proof -
  obtain s1 e1 where i: "execute_warm_task_internal env (\<lambda>i. clock (i + 1)) s task = (s1, e1)"
    by (cases "execute_warm_task_internal env (\<lambda>i. clock (i + 1)) s task") auto
  have "clock (0 + 1) \<le> clock (Suc 0 + 1)" using assms(2) by (simp add: mono_def)
  note d = internal_default(1-7) [OF assms(1) this i] internal_default(8) [OF assms(1) this i, of f]
  note eqs = assms(3,4) d i
  show "err \<noteq> None" "ws_cfg s' = ws_cfg s" "ws_events s' = ws_events s"
    "wm_success (ws_metrics s') = wm_success (ws_metrics s)"
    "wm_writes (ws_metrics s') = wm_writes (ws_metrics s)" "ws_stop s \<longrightarrow> ws_stop s'"
    "wm_origin (ws_metrics s') \<noteq> wm_origin (ws_metrics s) \<longrightarrow> ws_stop s'"
    "execute_warm_task (env\<lparr>client_set := f\<rparr>) clock shared s task = (s', err)"
    using eqs by (auto simp: execute_warm_task_def Let_def ws_incs split: if_splits option.splits)
qed

text \<open>A failed attempt may add a failure event, nothing else.\<close>

lemma after_attempt_failed:
  assumes "err \<noteq> None" "after_attempt now task k (s1, err) = (s', p)"
  shows "ws_cfg s' = ws_cfg s1" "ws_metrics s' = ws_metrics s1" "ws_stop s' = ws_stop s1"
    "ws_pool s' = ws_pool s1"
    "\<forall>e \<in> set (ws_events s') - set (ws_events s1). we_status e = ''failure''"
  using assms by (auto simp: after_attempt_def publish_warm_completion_def Let_def split: if_splits)

section \<open>The invariant of a run\<close>

fun never_warmed :: "'w warm_state \<Rightarrow> bool" where
  "never_warmed (s, pc, hist) \<longleftrightarrow>
     default_limits s \<and> wm_success (ws_metrics s) = 0 \<and> wm_writes (ws_metrics s) = 0 \<and>
     (wm_origin (ws_metrics s) \<noteq> 0 \<longrightarrow> ws_stop s) \<and>
     (\<forall>e \<in> set (ws_events s). we_status e \<noteq> ''success'') \<and> (\<forall>(k, r) \<in> set hist. r \<noteq> None)"

lemma never_warmed_view:
  assumes "exec_view s' = exec_view s" "never_warmed (s, pc, hist)"
  shows "never_warmed (s', pc', hist)"
  using assms by (auto simp: exec_view_def default_limits_def)

lemma never_warmed_attempt:
  assumes "never_warmed (s, pc, hist)" "mono clock" "shared \<noteq> Some None"
    and "after_attempt now task k (execute_warm_task env clock shared s task) = (s', p)"
  shows "never_warmed (s', pc', hist)" "snd (execute_warm_task env clock shared s task) \<noteq> None"
proof -
  obtain s1 err where x: "execute_warm_task env clock shared s task = (s1, err)"
    by (cases "execute_warm_task env clock shared s task") auto
  have lim: "default_limits s" using assms(1) by simp
  note d = execute_default(1-7) [OF lim assms(2,3) x]
  show "snd (execute_warm_task env clock shared s task) \<noteq> None" using d(1) x by simp
  note a = after_attempt_failed [OF d(1) assms(4) [unfolded x]]
  have "we_status e \<noteq> ''success''" if "e \<in> set (ws_events s')" for e
    using a(5) that d(3) assms(1) by (cases "e \<in> set (ws_events s)") auto
  then show "never_warmed (s', pc', hist)"
    using assms(1) d a by (auto simp: default_limits_def)
qed

text \<open>A step is a request, which leaves the executions' part alone, or an attempt of a worker.\<close>

lemma warm_step_kinds:
  assumes step: "warm_step env (s, pc, hist) y"
  obtains (request) s' pc' where "y = (s', pc', hist)" "exec_view s' = exec_view s"
  | (attempt) i task k clock shared now s' p' where
      "pc i = WkTry task k" "mono clock" "\<And>r. shared = Some r \<Longrightarrow> (wt_key task, r) \<in> set hist"
      "after_attempt now task k (execute_warm_task env clock shared s task) = (s', p')"
      "y = (s', pc(i := p'), if shared = None \<and> \<not> ws_stop s
         then (wt_key task, snd (execute_warm_task env clock shared s task)) # hist else hist)"
  using step
proof (cases rule: warm_step.cases)
  case (ws_run i task k clock res now s' p')
  then show thesis by (intro attempt [of i task k clock None now s' p']) simp_all
next
  case (ws_shared i task k clock r now s' p')
  then show thesis by (intro attempt [of i task k clock "Some r" now s' p']) simp_all
qed (erule request, simp add: shutdown_view)+

lemma never_warmed_step:
  assumes "warm_step env x y" "never_warmed x"
  shows "never_warmed y"
proof -
  obtain s pc hist where x: "x = (s, pc, hist)" by (cases x) auto
  note inv = assms(2) [unfolded x]
  from assms(1) [unfolded x] show ?thesis
  proof (cases rule: warm_step_kinds)
    case (request s' pc')
    then show ?thesis using never_warmed_view inv by metis
  next
    case (attempt i task k clock shared now s' p')
    have "shared \<noteq> Some None" using attempt(3) inv by auto
    note a = never_warmed_attempt [OF inv attempt(2) this attempt(4)]
    show ?thesis using a(1) [of "pc(i := p')"] a(2) attempt(5) by auto
  qed
qed

text \<open>The step does not depend on the cache client.\<close>

lemma warm_step_client:
  assumes "warm_step env x y" "never_warmed x"
  shows "warm_step (env\<lparr>client_set := f\<rparr>) x y"
  using assms(1)
proof (cases rule: warm_step.cases)
  case (ws_run pc i task k clock res s now s' p' hist)
  have "execute_warm_task (env\<lparr>client_set := f\<rparr>) clock None s task = res"
    using execute_default(8) [where f = f, of s clock None env task "fst res" "snd res"] ws_run assms(2) by simp
  with ws_run show ?thesis using warm_step.ws_run [of pc i task k clock res "env\<lparr>client_set := f\<rparr>"] by simp
next
  case (ws_shared pc i task k clock r hist now s s' p')
  have r: "r \<noteq> None" using ws_shared assms(2) by auto
  obtain s1 err where x: "execute_warm_task env clock (Some r) s task = (s1, err)"
    by (cases "execute_warm_task env clock (Some r) s task") auto
  have "execute_warm_task (env\<lparr>client_set := f\<rparr>) clock (Some r) s task = (s1, err)"
    using execute_default(8) [where f = f, of s clock "Some r" env task s1 err] ws_shared(1,4) assms(2) r x by simp
  with ws_shared x show ?thesis
    using warm_step.ws_shared [of pc i task k clock r hist now "env\<lparr>client_set := f\<rparr>" s s' p'] by simp
qed (auto intro: warm_step.intros)

lemma never_warmed_steps:
  assumes "warm_steps env x y" "never_warmed x"
  shows "never_warmed y \<and> warm_steps (env\<lparr>client_set := f\<rparr>) x y"
  using assms
proof (induction rule: rtranclp_induct)
  case (step y z)
  then show ?case using never_warmed_step warm_step_client by (metis rtranclp.rtrancl_into_rtrancl)
qed simp

lemma warm_start_never: "never_warmed (warm_start w)"
  by (simp add: warm_start_def warm_init_def new_worker_pool_def warm_default_config_def
      default_limits_def warm_metrics_zero_def)

section \<open>The emergency stop\<close>

lemma execute_keeps_stop:
  "ws_stop s \<Longrightarrow> after_attempt now task k (execute_warm_task env clock shared s task) = (s', p) \<Longrightarrow> ws_stop s'"
  by (auto simp: execute_warm_task_def after_attempt_def publish_warm_completion_def Let_def split: if_splits)

lemma stop_step: "warm_step env x y \<Longrightarrow> ws_stop (fst x) \<Longrightarrow> ws_stop (fst y)"
proof -
  assume "warm_step env x y" and stop: "ws_stop (fst x)"
  moreover obtain s pc hist where x: "x = (s, pc, hist)" by (cases x) auto
  ultimately have "warm_step env (s, pc, hist) y" by simp
  then show ?thesis
  proof (cases rule: warm_step_kinds)
    case (request s' pc')
    then show ?thesis using stop x by (simp add: exec_view_def)
  next
    case (attempt i task k clock shared now s' p')
    then show ?thesis using stop x execute_keeps_stop [of s] by simp
  qed
qed

lemma stop_steps: "warm_steps env x y \<Longrightarrow> ws_stop (fst x) \<Longrightarrow> ws_stop (fst y)"
  by (induction rule: rtranclp_induct) (simp_all add: stop_step)

section \<open>The accounting of the pool\<close>

definition busy_pc :: "wk_pc \<Rightarrow> bool" where
  "busy_pc p \<longleftrightarrow> (case p of WkTry _ _ \<Rightarrow> True | WkDone \<Rightarrow> True | _ \<Rightarrow> False)"

lemma busy_pc_simps [simp]: "\<not> busy_pc WkIdle" "busy_pc (WkTry t k)" "busy_pc WkDone" "\<not> busy_pc WkStopped"
  by (simp_all add: busy_pc_def)

definition pool_sound :: "worker_pool \<Rightarrow> (nat \<Rightarrow> wk_pc) \<Rightarrow> bool" where
  "pool_sound p pc \<longleftrightarrow> length (wp_queue p) \<le> queue_capacity \<and>
     wp_active p = int (card {i. i < length (wp_workers p) \<and> busy_pc (pc i)}) \<and>
     (\<forall>i < length (wp_workers p). (wk_state (wp_workers p ! i) = ''busy'') = busy_pc (pc i)) \<and>
     (\<forall>i \<ge> length (wp_workers p). pc i = WkIdle)"

lemma card_busy_flip:
  fixes i n :: nat
  assumes "i < n" "busy_pc (pc i) \<noteq> busy_pc p"
  shows "int (card {j. j < n \<and> busy_pc ((pc(i := p)) j)}) =
    int (card {j. j < n \<and> busy_pc (pc j)}) + (if busy_pc p then 1 else - 1)"
proof -
  let ?A = "{j. j < n \<and> busy_pc (pc j)}" and ?B = "{j. j < n \<and> busy_pc ((pc(i := p)) j)}"
  have fin: "finite ?A" "finite ?B" by simp_all
  show ?thesis
  proof (cases "busy_pc p")
    case True
    then have B: "?B = insert i ?A" and "i \<notin> ?A" using assms by auto
    then have "card ?B = Suc (card ?A)" unfolding B using fin by (intro card_insert_disjoint)
    with True show ?thesis by simp
  next
    case False
    then have A: "?A = insert i ?B" and "i \<notin> ?B" using assms by auto
    then have "card ?A = Suc (card ?B)" using card_insert_disjoint [OF fin(2), of i] by metis
    with False show ?thesis by simp
  qed
qed

lemma busy_same: "busy_pc (pc i) = busy_pc p \<Longrightarrow> (\<lambda>j. busy_pc ((pc(i := p)) j)) = (\<lambda>j. busy_pc (pc j))"
  by auto

text \<open>Three ways in which the pool is changed.\<close>

lemma pool_sound_queue:
  "pool_sound p pc \<Longrightarrow> pool_sound (fst (queue_tasks p tasks)) pc"
  by (simp add: pool_sound_def queue_tasks_others queue_tasks_bound)

lemma pool_sound_take:
  assumes "pool_sound p pc" "i < length (wp_workers p)" "pc i = WkIdle"
    and "worker_take now i p = Some (p', task)"
  shows "pool_sound p' (pc(i := WkTry task 0))"
proof -
  obtain rest where p: "wp_queue p = task # rest" "p' = p\<lparr>wp_queue := rest,
      wp_workers := (wp_workers p)[i := start_task now (wt_key task) (wp_workers p ! i)],
      wp_active := wp_active p + 1\<rparr>"
    using assms(4) by (auto simp: worker_take_def split: list.splits)
  have "int (card {j. j < length (wp_workers p) \<and> busy_pc ((pc(i := WkTry task 0)) j)}) =
      wp_active p + 1"
    using card_busy_flip [of i "length (wp_workers p)" pc "WkTry task 0"] assms(1-3)
    by (simp add: pool_sound_def)
  then show ?thesis
    using assms(1-3) p by (auto simp: pool_sound_def start_task_def nth_list_update)
qed

lemma pool_sound_finish:
  assumes "pool_sound p pc" "i < length (wp_workers p)" "pc i = WkDone"
  shows "pool_sound (worker_finish i p) (pc(i := WkIdle))"
proof -
  have "int (card {j. j < length (wp_workers p) \<and> busy_pc ((pc(i := WkIdle)) j)}) = wp_active p - 1"
    using card_busy_flip [of i "length (wp_workers p)" pc WkIdle] assms by (simp add: pool_sound_def)
  then show ?thesis
    using assms by (auto simp: pool_sound_def worker_finish_def finish_task_def nth_list_update)
qed

lemma pool_sound_same:
  assumes "pool_sound p pc" "busy_pc (pc i) = busy_pc q" "i < length (wp_workers p)"
  shows "pool_sound p (pc(i := q))"
  using assms(1,3) busy_same [of pc i q, OF assms(2)] unfolding pool_sound_def by (simp add: fun_eq_iff)

lemma pool_sound_stop:
  assumes "pool_sound p pc" "i < length (wp_workers p)" "pc i = WkIdle"
  shows "pool_sound (worker_stop i p) (pc(i := WkStopped))"
  using pool_sound_same [OF assms(1), of i WkStopped] assms
  by (auto simp: pool_sound_def worker_stop_def set_state_def nth_list_update)

text \<open>Requests reach the pool only through the queue.\<close>

definition queues_only :: "worker_pool \<Rightarrow> worker_pool \<Rightarrow> bool" where
  "queues_only p p' \<longleftrightarrow> (\<exists>tasks. p' = fst (queue_tasks p tasks))"

lemma queues_only_refl [simp]: "queues_only p p"
  unfolding queues_only_def by (rule exI [of _ "[]"]) simp

lemma queues_only_fst [simp]: "queues_only p (fst (queue_tasks p tasks))"
  unfolding queues_only_def by blast

lemma queue_and_estimate_pool [simp]: "queues_only (ws_pool s) (ws_pool (fst (queue_and_estimate ts f s)))"
  by (simp add: queue_and_estimate_def case_prod_beta Let_def)

lemma request_pools [simp]:
  "queues_only (ws_pool s) (ws_pool (fst (warm_key clock s kreq)))"
  "queues_only (ws_pool s) (ws_pool (fst (warm_pattern clock s preq)))"
  "queues_only (ws_pool s) (ws_pool (fst (trigger_predictive clock s)))"
  "queues_only (ws_pool s) (ws_pool (fst (update_config s ureq)))"
  "queues_only (ws_pool s) (ws_pool (fst (execute_job clock s job)))"
  "queues_only (ws_pool s) (ws_pool (fst (register_job s job)))"
  "queues_only (ws_pool s) (ws_pool (fst (unregister_job s k)))"
  "queues_only (ws_pool s) (ws_pool (set_origin_fetcher b s))"
  "queues_only (ws_pool s) (ws_pool (set_cache_client b s))"
  by (simp_all add: warm_key_def warm_pattern_def trigger_predictive_def update_config_def execute_job_def
      register_job_def unregister_job_def set_origin_fetcher_def set_cache_client_def Let_def
      case_prod_beta split: option.split)

lemma cron_pools [simp]:
  "queues_only (ws_pool s) (ws_pool (fst (hourly_refresh clock s)))"
  "queues_only (ws_pool s) (ws_pool (fst (peak_hours_warmup clock s)))"
  "queues_only (ws_pool s) (ws_pool (fst (daily_warmup clock s)))"
  by (simp_all add: hourly_refresh_def peak_hours_warmup_def daily_warmup_def warm_predicted_def Let_def
      case_prod_beta)

lemma pool_sound_queues: "queues_only p p' \<Longrightarrow> pool_sound p pc \<Longrightarrow> pool_sound p' pc"
  by (auto simp: queues_only_def pool_sound_queue)

lemmas requests_sound = request_pools [THEN pool_sound_queues] cron_pools [THEN pool_sound_queues]

lemma pool_sound_shutdown: "warm_shutdown s = Inr s' \<Longrightarrow> pool_sound (ws_pool s) pc \<Longrightarrow> pool_sound (ws_pool s') pc"
  by (auto simp: warm_shutdown_def wp_shutdown_def Let_def pool_sound_def split: if_splits)

text \<open>An attempt leaves the pool alone, and its worker stays busy.\<close>

lemma execute_pool: "ws_pool (fst (execute_warm_task env clock shared s task)) = ws_pool s"
  by (auto simp: execute_warm_task_def execute_warm_task_internal_def publish_warm_completion_def Let_def
      case_prod_beta split: option.split sum.split)

lemma after_attempt_pool:
  "after_attempt now task k x = (s', p) \<Longrightarrow> ws_pool s' = ws_pool (fst x) \<and> busy_pc p"
  by (auto simp: after_attempt_def publish_warm_completion_def Let_def split: if_splits prod.splits)

lemma pool_sound_attempt:
  assumes "pool_sound (ws_pool s) pc" "pc i = WkTry task k"
    and "after_attempt now task k (execute_warm_task env clock shared s task) = (s', p)"
  shows "pool_sound (ws_pool s') (pc(i := p))"
proof -
  have "i < length (wp_workers (ws_pool s))"
    using assms(1,2) by (cases "i < length (wp_workers (ws_pool s))") (simp_all add: pool_sound_def)
  moreover have "ws_pool s' = ws_pool s" "busy_pc p"
    using after_attempt_pool [OF assms(3)] by (simp_all add: execute_pool)
  ultimately show ?thesis using pool_sound_same [OF assms(1), of i p] assms(2) by simp
qed

lemma pool_sound_step:
  assumes "warm_step env x y" "pool_sound (ws_pool (fst x)) (fst (snd x))"
  shows "pool_sound (ws_pool (fst y)) (fst (snd y))"
  using assms
  by (cases rule: warm_step.cases)
    (auto simp: requests_sound pool_sound_take pool_sound_attempt pool_sound_finish pool_sound_stop
      pool_sound_shutdown)

lemma pool_sound_steps:
  assumes "warm_steps env x y" "pool_sound (ws_pool (fst x)) (fst (snd x))"
  shows "pool_sound (ws_pool (fst y)) (fst (snd y))"
  using assms by (induction rule: rtranclp_induct) (simp_all add: pool_sound_step)

lemma warm_start_sound: "pool_sound (ws_pool (fst (warm_start w))) (fst (snd (warm_start w)))"
  by (simp add: warm_start_def warm_init_def new_worker_pool_def warm_default_config_def pool_sound_def
      queue_capacity_def)

section \<open>Properties\<close>

text \<open>
  Property C25.  The service never warms anything.  The latency that decides on the emergency stop is
  measured from \<open>now - OriginTimeout\<close>, hence at least five seconds against a threshold of two: in every
  run from the initial state, whatever the requests, the origin, the limiter and the interleaving of
  the workers, no task succeeds and no value is ever written to the cache (the run is the same with any
  other cache client), and as soon as one fetch has succeeded the service is in emergency stop.
\<close>

theorem default_service_never_warms:
  assumes "warm_steps env (warm_start w) (s, pc, hist)"
  shows "wm_success (ws_metrics s) = 0 \<and> wm_writes (ws_metrics s) = 0 \<and>
    (\<forall>e \<in> set (ws_events s). we_status e \<noteq> ''success'') \<and>
    warm_steps (env\<lparr>client_set := f\<rparr>) (warm_start w) (s, pc, hist) \<and>
    (wm_origin (ws_metrics s) \<noteq> 0 \<longrightarrow> ws_stop s)"
  using never_warmed_steps [OF assms warm_start_never, of f] by simp

definition happy_env :: "nat warm_env" where
  "happy_env = \<lparr>limiter_wait = \<lambda>w _. (w, None), fetch_origin = \<lambda>w k. (w, Inr (''v'', 0)),
     client_set = \<lambda>w _ _ _. (w + 1, None)\<rparr>"

text \<open>A run with a healthy origin, limiter and cache client: one key is requested and fetched.\<close>

lemma happy_run:
  "\<exists>s pc hist. warm_steps happy_env (warm_start 0) (s, pc, hist) \<and> wm_origin (ws_metrics s) = 1 \<and> ws_stop s"
proof -
  let ?s0 = "projr (warm_init (0 :: nat))"
  let ?req = "\<lparr>wkr_keys = [''k''], wkr_priority = 0, wkr_strategy = []\<rparr>"
  let ?s1 = "set_cache_client True (set_origin_fetcher True ?s0)"
  let ?s2 = "fst (warm_key (\<lambda>_. 0) ?s1 ?req)"
  let ?pc = "(\<lambda>_. WkIdle) :: nat \<Rightarrow> wk_pc"
  note defs = warm_init_def new_worker_pool_def warm_default_config_def warm_metrics_zero_def
    set_cache_client_def set_origin_fetcher_def warm_key_def queue_and_estimate_def key_tasks_def
    queue_tasks_room queue_capacity_def
  have a: "warm_step happy_env (?s0, ?pc, []) (set_origin_fetcher True ?s0, ?pc, [])"
    by (rule ws_fetcher)
  have b: "warm_step happy_env (set_origin_fetcher True ?s0, ?pc, []) (?s1, ?pc, [])"
    by (rule ws_client)
  have c: "warm_step happy_env (?s1, ?pc, []) (?s2, ?pc, [])" by (rule ws_warm_key)
  obtain pool task where t: "worker_take 0 0 (ws_pool ?s2) = Some (pool, task)" "wt_key task = ''k''"
    by (simp add: defs worker_take_def)
  let ?s3 = "?s2\<lparr>ws_pool := pool\<rparr>"
  have d: "warm_step happy_env (?s2, ?pc, []) (?s3, ?pc(0 := WkTry task 0), [])"
    by (rule ws_take [OF _ _ t(1)]) (simp_all add: defs)
  obtain s' p' where r: "after_attempt 0 task 0 (execute_warm_task happy_env (\<lambda>_. 0) None ?s3 task) = (s', p')"
    by (cases "after_attempt 0 task 0 (execute_warm_task happy_env (\<lambda>_. 0) None ?s3 task)") auto
  obtain pc' hist' where e: "warm_step happy_env (?s3, ?pc(0 := WkTry task 0), []) (s', pc', hist')"
    using ws_run [OF _ _ refl r, of "?pc(0 := WkTry task 0)" 0 "[]"] by (auto simp: mono_def)
  have "wm_origin (ws_metrics s') = 1 \<and> ws_stop s'"
    using r fetch_duration_long [of 0 0]
    by (auto simp: execute_warm_task_def execute_warm_task_internal_def after_attempt_def happy_env_def defs
        Let_def ws_incs add64_def in_i64_def split: if_splits)
  moreover have st: "warm_steps happy_env x z" if "warm_step happy_env x y" "warm_steps happy_env y z" for x y z
    using that by (rule converse_rtranclp_into_rtranclp)
  have "warm_steps happy_env (warm_start 0) (s', pc', hist')"
    unfolding warm_start_def by (rule st [OF a st [OF b st [OF c st [OF d st [OF e rtranclp.rtrancl_refl]]]]])
  ultimately show ?thesis by blast
qed

theorem default_service_never_warms_witness:
  "\<exists>s pc hist. warm_steps happy_env (warm_start 0) (s, pc, hist) \<and> wm_origin (ws_metrics s) = 1 \<and>
     wm_writes (ws_metrics s) = 0 \<and> ws_stop s"
proof -
  obtain s pc hist where "warm_steps happy_env (warm_start 0) (s, pc, hist)" "wm_origin (ws_metrics s) = 1"
    using happy_run by blast
  with default_service_never_warms [of happy_env 0 s pc hist "\<lambda>w _ _ _. (w, None)"] show ?thesis by auto
qed

text \<open>
  Further result.  The emergency stop is permanent: no operation of the service clears it, so after it every
  request to warm keys, a pattern or the predicted keys is refused and changes nothing, and every
  execution of a task that is still queued fails without a fetch.
\<close>

theorem emergency_stop_permanent:
  assumes "warm_steps env (s, pc, hist) (s', pc', hist')" and "ws_stop s"
  shows "ws_stop s' \<and>
    (wkr_keys kreq \<noteq> [] \<longrightarrow> warm_key clock s' kreq = (s', Failed stop_error)) \<and>
    (wpr_pattern preq \<noteq> [] \<longrightarrow> warm_pattern clock s' preq = (s', Failed stop_error)) \<and>
    trigger_predictive clock s' = (s', Failed stop_error) \<and>
    execute_warm_task env clock shared s' task = (s', Some (ErrMsg ''emergency stop active''))"
proof -
  have "ws_stop s'" using stop_steps [OF assms(1)] assms(2) by simp
  then show ?thesis
    by (simp add: warm_key_def warm_pattern_def trigger_predictive_def execute_warm_task_def Let_def)
qed

theorem emergency_stop_permanent_witness:
  "\<exists>s pc hist. warm_steps happy_env (warm_start 0) (s, pc, hist) \<and>
     trigger_predictive (\<lambda>_. 0) s = (s, Failed stop_error)"
proof -
  obtain s pc hist where "warm_steps happy_env (warm_start 0) (s, pc, hist)" "ws_stop s"
    using happy_run by blast
  with emergency_stop_permanent [of happy_env s pc hist s pc hist _ "\<lambda>_. 0"] show ?thesis by blast
qed



text \<open>
  Further result.  A request to warm keys, on every branch: without keys or in emergency stop it is refused
  and changes nothing; otherwise the tasks that fit into the queue are appended in order and counted,
  and only then the estimate is divided by the configured number of warmers, so with none configured
  the request panics although its tasks are queued.
\<close>

theorem warm_key_branches:
  "warm_key clock s req =
     (if wkr_keys req = [] then (s, Failed (ErrMsg ''keys cannot be empty''))
      else if ws_stop s then (s, Failed stop_error)
      else
        (let room = queue_capacity - length (wp_queue (ws_pool s));
             n = int (min (length (wkr_keys req)) room);
             s' = s\<lparr>ws_pool := (ws_pool s)\<lparr>wp_queue := wp_queue (ws_pool s) @ take room (key_tasks (ws_cfg s) req)\<rparr>,
               ws_metrics := add_jobs n (ws_metrics s)\<rparr>
         in (s', if wc_warmers (ws_cfg s) = 0 then Panicked ''integer divide by zero''
             else Returned \<lparr>wkp_success = True, wkp_queued = n, wkp_keys = wkr_keys req,
               wkp_job = generate_job_id (clock 0) (clock 1),
               wkp_estimate = go_div (n * 50) (wc_warmers (ws_cfg s))\<rparr>))) \<and>
   map wt_key (key_tasks (ws_cfg s) req) = wkr_keys req"
  by (simp add: warm_key_def queue_and_estimate_def queue_tasks_room Let_def key_tasks_def comp_def)

text \<open>
  Further result.  \<open>UpdateConfig\<close> is not atomic: a request with an unknown strategy is answered with an error,
  but the limits it carries are already in force, and the limiter has been replaced.
\<close>

theorem update_config_partial:
  assumes "uc_strategy req \<noteq> []" and "uc_strategy req \<notin> fst ` set (ws_strategies s)"
    and "uc_max_rps req = Some n" and "uc_warmers req = Some m"
  shows "\<exists>s' e. update_config s req = (s', Inl e) \<and> wc_max_rps (ws_cfg s') = n \<and>
    ws_limiter s' = (n, n) \<and> wc_warmers (ws_cfg s') = m \<and> wc_strategy (ws_cfg s') = wc_strategy (ws_cfg s)"
  using assms by (simp add: update_config_def Let_def split: option.split)

theorem update_config_partial_witness:
  "\<exists>s' e. update_config (projr (warm_init (0 :: nat)))
      \<lparr>uc_max_rps = Some 0, uc_max_batch = None, uc_warmers = Some 0, uc_strategy = ''hot''\<rparr> = (s', Inl e) \<and>
    ws_limiter s' = (0, 0)"
  using update_config_partial [of "\<lparr>uc_max_rps = Some 0, uc_max_batch = None, uc_warmers = Some 0,
      uc_strategy = ''hot''\<rparr>" "projr (warm_init (0 :: nat))" 0 0]
  by (auto simp: warm_init_def new_worker_pool_def warm_default_config_def warm_strategies_def)

end
