(* ===== verification/Percentile.thy ===== *)
theory Percentile
  imports Float64 "HOL-Library.Multiset"
begin

text \<open>
  Sorting and percentiles of samples, which \<open>pkg/models/metrics.go\<close> and \<open>monitoring/metrics.go\<close> compute
  by the same interpolation, one on durations and one on doubles.
\<close>

section \<open>More of the double-precision library\<close>

fun f_floor :: "f64 \<Rightarrow> f64" where
  "f_floor (Fin x) = Fin (of_int \<lfloor>x\<rfloor>)"
| "f_floor x = x"

fun f_ceil :: "f64 \<Rightarrow> f64" where
  "f_ceil (Fin x) = Fin (of_int \<lceil>x\<rceil>)"
| "f_ceil x = x"

fun f_abs :: "f64 \<Rightarrow> f64" where
  "f_abs (Fin x) = Fin \<bar>x\<bar>"
| "f_abs NInf = PInf"
| "f_abs x = x"

text \<open>\<open>math.MaxFloat64\<close>.\<close>

definition max_float64 :: f64 where
  "max_float64 = Fin ((2 ^ 53 - 1) * 2 ^ 971)"

text \<open>\<open>math.Sqrt\<close>, correctly rounded: \<open>q = s * 4 ^ k\<close> is scaled so that the root of \<open>s\<close> has 53 bits in front
  of the point, and rounded to the nearest integer (a tie cannot be reached by a double).\<close>

function isqrt_between :: "nat \<Rightarrow> nat \<Rightarrow> nat \<Rightarrow> nat" where
  "isqrt_between n lo hi = (if lo + 1 < hi
     then let m = (lo + hi) div 2 in if m * m \<le> n then isqrt_between n m hi else isqrt_between n lo m
     else lo)"
  by auto
termination
  by (relation "measure (\<lambda>(n, lo, hi). hi - lo)") auto

declare isqrt_between.simps [simp del]

definition isqrt :: "nat \<Rightarrow> nat" where
  "isqrt n = isqrt_between n 0 (n + 1)"

lemma isqrt_between_root:
  "lo * lo \<le> n \<Longrightarrow> n < hi * hi \<Longrightarrow>
   isqrt_between n lo hi * isqrt_between n lo hi \<le> n \<and>
   n < Suc (isqrt_between n lo hi) * Suc (isqrt_between n lo hi)"
proof (induction n lo hi rule: isqrt_between.induct)
  case (1 n lo hi)
  show ?case
  proof (cases "lo + 1 < hi")
    case True
    with 1 show ?thesis
      by (subst (1 2 3 4) isqrt_between.simps) (auto simp: Let_def not_le)
  next
    case False
    have "lo < hi" using "1.prems" by (metis leD le_less_trans mult_le_mono not_le_imp_less)
    with False have "hi = Suc lo" by simp
    with False 1 show ?thesis by (subst (1 2 3 4) isqrt_between.simps) simp
  qed
qed

lemma isqrt_root: "isqrt n * isqrt n \<le> n \<and> n < Suc (isqrt n) * Suc (isqrt n)"
  unfolding isqrt_def by (rule isqrt_between_root) simp_all

fun f_sqrt :: "f64 \<Rightarrow> f64" where
  "f_sqrt (Fin q) =
     (if q < 0 then NaN
      else if q = 0 then Fin 0
      else
        (let k = (binade q) div 2 - 52;
             s = q / (pow2 k * pow2 k);
             r = isqrt (nat \<lfloor>s\<rfloor>);
             h = of_nat r + 1 / 2
         in Fin (of_nat (if h * h < s then r + 1 else r) * pow2 k)))"
| "f_sqrt NInf = NaN"
| "f_sqrt x = x"

section \<open>Sorting\<close>

text \<open>\<open>sort.Float64s\<close> puts NaN first.\<close>

definition f_sort_less :: "f64 \<Rightarrow> f64 \<Rightarrow> bool" where
  "f_sort_less x y \<longleftrightarrow> f_lt x y \<or> (x = NaN \<and> y \<noteq> NaN)"

fun f_insert :: "f64 \<Rightarrow> f64 list \<Rightarrow> f64 list" where
  "f_insert x [] = [x]"
| "f_insert x (y # ys) = (if f_sort_less x y then x # y # ys else y # f_insert x ys)"

definition sort_floats :: "f64 list \<Rightarrow> f64 list" where
  "sort_floats xs = fold f_insert xs []"

lemma f_insert_mset: "mset (f_insert x ys) = add_mset x (mset ys)"
  by (induction ys) auto

lemma f_insert_set: "set (f_insert x ys) = insert x (set ys)"
  by (induction ys) auto

lemma sort_floats_mset: "mset (sort_floats xs) = mset xs"
proof -
  have "mset (fold f_insert xs ys) = mset xs + mset ys" for ys
    by (induction xs arbitrary: ys) (auto simp: f_insert_mset)
  then show ?thesis by (simp add: sort_floats_def)
qed

lemma f_sort_less_total: "\<not> f_sort_less x y \<Longrightarrow> \<not> f_sort_less y z \<Longrightarrow> \<not> f_sort_less x z"
  by (cases x; cases y; cases z) (auto simp: f_sort_less_def)

lemma f_sort_less_asym: "f_sort_less x y \<Longrightarrow> \<not> f_sort_less y x"
  by (cases x; cases y) (auto simp: f_sort_less_def)

definition f_sorted :: "f64 list \<Rightarrow> bool" where
  "f_sorted = sorted_wrt (\<lambda>x y. \<not> f_sort_less y x)"

lemma f_insert_sorted: "f_sorted ys \<Longrightarrow> f_sorted (f_insert x ys)"
proof (induction ys)
  case (Cons y ys)
  show ?case
  proof (cases "f_sort_less x y")
    case True
    then have "\<not> f_sort_less z x" if "z \<in> set ys" for z
      using that Cons.prems f_sort_less_asym f_sort_less_total by (metis f_sorted_def sorted_wrt.simps(2))
    with True Cons.prems show ?thesis by (simp add: f_sorted_def f_sort_less_asym)
  next
    case False
    with Cons show ?thesis by (auto simp: f_sorted_def f_insert_set)
  qed
qed (simp add: f_sorted_def)

lemma sort_floats_sorted: "f_sorted (sort_floats xs)"
proof -
  have "f_sorted ys \<Longrightarrow> f_sorted (fold f_insert xs ys)" for ys
    by (induction xs arbitrary: ys) (auto simp: f_insert_sorted)
  then show ?thesis by (simp add: sort_floats_def f_sorted_def)
qed

section \<open>Percentiles\<close>

text \<open>The position of the \<open>p\<close>-th percentile among \<open>n\<close> samples: the two neighbours and the weight.\<close>

definition percentile_index :: "nat \<Rightarrow> rat \<Rightarrow> f64" where
  "percentile_index n p = f_mul (f_const p) (f_of_int (int n - 1))"

definition interpolate :: "f64 \<Rightarrow> f64 \<Rightarrow> f64 \<Rightarrow> f64" where
  "interpolate lo hi weight = f_add (f_mul lo (f_sub (Fin 1) weight)) (f_mul hi weight)"

definition percentile :: "f64 list \<Rightarrow> rat \<Rightarrow> f64" where
  "percentile values p =
     (if values = [] then Fin 0
      else
        (let index = percentile_index (length values) p;
             lower = f_to_int (f_floor index);
             upper = f_to_int (f_ceil index)
         in if lower = upper then values ! nat lower
            else interpolate (values ! nat lower) (values ! nat upper) (f_sub index (f_of_int lower))))"

definition percentile_duration :: "duration list \<Rightarrow> rat \<Rightarrow> duration" where
  "percentile_duration samples p =
     (if samples = [] then 0
      else
        (let index = percentile_index (length samples) p;
             lower = f_to_int (f_floor index);
             upper = f_to_int (f_ceil index)
         in if lower = upper then samples ! nat lower
            else f_to_int (interpolate (f_of_int (samples ! nat lower)) (f_of_int (samples ! nat upper))
              (f_sub index (f_of_int lower)))))"

text \<open>The indices are always in range.\<close>

lemma percentile_index_range:
  assumes "0 < n" "n \<le> 2 ^ 53" "0 \<le> p" "p \<le> 1"
  shows "\<exists>x. percentile_index n p = Fin x \<and> 0 \<le> x \<and> x \<le> of_nat n - 1"
proof -
  obtain y where y: "f_const p = Fin y" "0 \<le> y" "y \<le> 1"
    using fl_between [of 0 p 1] assms(3,4) by (auto simp: f_const_def)
  have m: "\<bar>int n - 1\<bar> < 2 ^ 53" using assms(1,2) by simp
  have "0 \<le> y * of_int (int n - 1)" "y * of_int (int n - 1) \<le> of_int (int n - 1)"
    using y assms(1) by (auto intro: mult_left_le_one_le)
  then have "\<exists>x. fl (y * of_int (int n - 1)) = Fin x \<and> 0 \<le> x \<and> x \<le> of_int (int n - 1)"
    using fl_between [of 0 "y * of_int (int n - 1)" "int n - 1"] m by auto
  then show ?thesis using y(1) m by (simp add: percentile_index_def f_of_int_small)
qed

lemma percentile_in_range:
  assumes "0 < n" "n \<le> 2 ^ 53" "0 \<le> p" "p \<le> 1"
  shows "f_to_int (f_floor (percentile_index n p)) \<in> {0..<int n} \<and>
    f_to_int (f_ceil (percentile_index n p)) \<in> {0..<int n}"
proof -
  obtain x where x: "percentile_index n p = Fin x" "0 \<le> x" "x \<le> of_nat n - 1"
    using percentile_index_range [OF assms] by blast
  have f: "0 \<le> \<lfloor>x\<rfloor>" "\<lfloor>x\<rfloor> < int n" "0 \<le> \<lceil>x\<rceil>" "\<lceil>x\<rceil> < int n"
    using x(2,3) by (auto simp: floor_less_iff ceiling_less_iff intro: order_le_less_trans)
  have "int n \<le> 2 ^ 53" using assms(2) by (metis of_nat_le_iff of_nat_numeral of_nat_power)
  then have "in_i64 z" if "0 \<le> z" "z < int n" for z using that by (simp add: in_i64_def)
  then have "in_i64 \<lfloor>x\<rfloor>" "in_i64 \<lceil>x\<rceil>" using f by simp_all
  with f x(2) show ?thesis by (simp add: x(1) rat_trunc_def)
qed

section \<open>Medians\<close>

text \<open>Halves of integers below \<open>2 ^ 52\<close> are doubles.\<close>

lemma fl_half:
  assumes "\<bar>n\<bar> < 2 ^ 53"
  shows "fl (of_int n / 2) = Fin (of_int n / 2)"
proof -
  have r: "rnd (of_int m / 2) = of_int m / 2" if m: "0 < m" "m < 2 ^ 53" for m :: int
  proof (rule rnd_multiple [where k = "- 1" and n = m])
    have "(of_int m :: rat) < of_int (2 ^ 53)" unfolding of_int_less_iff by (rule m(2))
    then show "of_int m / 2 < pow2 (- 1 + 53)" by (simp add: pow2_def)
  qed (use m in \<open>simp_all add: pow2_def\<close>)
  consider "n = 0" | "0 < n" | "0 < - n" by linarith
  then have "rnd (of_int n / 2) = of_int n / 2"
  proof cases
    case 3
    then have "rnd (of_int (- n) / 2) = of_int (- n) / 2" using assms by (intro r) simp_all
    then show ?thesis using rnd_minus [of "of_int n / 2"] by simp
  qed (use assms r [of n] in \<open>simp_all add: rnd_def [of 0]\<close>)
  moreover have "\<bar>of_int n\<bar> < (2 ^ 53 :: rat)"
    using assms by (metis of_int_abs of_int_less_iff of_int_numeral of_int_power)
  moreover have "(2 ^ 53 :: rat) \<le> pow2 1024" using pow2_mono [of 53 1024] by (simp add: pow2_def)
  ultimately show ?thesis by (simp add: fl_def abs_if split: if_splits)
qed

lemma fl_half_const: "f_const (1 / 2) = Fin (1 / 2)"
  using fl_half [of 1] by (simp add: f_const_def)

lemma percentile_index_half:
  assumes "0 < n" "n \<le> 2 ^ 53"
  shows "percentile_index n (1 / 2) = Fin (of_int (int n - 1) / 2)"
proof -
  have "\<bar>int n - 1\<bar> < 2 ^ 53" using assms by simp
  with fl_half [of "int n - 1"] show ?thesis
    by (simp add: percentile_index_def fl_half_const f_of_int_small)
qed

text \<open>The median: the middle sample, or the mean of the two middle samples, truncated.\<close>

lemma median_odd:
  assumes "length xs = 2 * k + 1" "length xs \<le> 2 ^ 53"
  shows "percentile_duration xs (1 / 2) = xs ! k"
proof -
  have "percentile_index (length xs) (1 / 2) = Fin (of_int (int k))"
    using percentile_index_half [of "length xs"] assms by simp
  moreover have "in_i64 (int k)"
    using assms by (simp add: in_i64_def)
  ultimately show ?thesis using assms(1) by (auto simp: percentile_duration_def Let_def rat_trunc_def)
qed

lemma median_even:
  assumes "length xs = 2 * k + 2" "length xs \<le> 2 ^ 53"
    and "\<forall>x \<in> set xs. 0 \<le> x \<and> x < 2 ^ 52"
  shows "percentile_duration xs (1 / 2) = (xs ! k + xs ! (k + 1)) div 2"
proof -
  let ?a = "xs ! k" and ?b = "xs ! (k + 1)"
  have ab: "0 \<le> ?a" "?a < 2 ^ 52" "0 \<le> ?b" "?b < 2 ^ 52" using assms(1,3) by auto
  have idx: "percentile_index (length xs) (1 / 2) = Fin (of_int (int k) + 1 / 2)"
    using percentile_index_half [of "length xs"] assms(1,2) by (simp add: add_divide_distrib)
  have fl: "\<lfloor>of_int (int k) + 1 / 2 :: rat\<rfloor> = int k" "\<lceil>of_int (int k) + 1 / 2 :: rat\<rceil> = int k + 1"
    by linarith+
  have k: "in_i64 (int k)" "in_i64 (int k + 1)" "\<bar>int k\<bar> < 2 ^ 53"
    using assms by (simp_all add: in_i64_def)
  have lower: "f_to_int (f_floor (Fin (of_int (int k) + 1 / 2))) = int k"
    using k fl by (simp add: rat_trunc_def)
  have upper: "f_to_int (f_ceil (Fin (of_int (int k) + 1 / 2))) = int k + 1"
    using k fl(2) by (simp add: rat_trunc_def)
  have w: "f_sub (Fin (of_int (int k) + 1 / 2)) (f_of_int (int k)) = Fin (1 / 2)"
    using fl_half [of 1] k(3) by (simp add: f_sub_def f_of_int_small)
  have half: "f_mul (f_of_int c) (Fin (1 / 2)) = Fin (of_int c / 2)" if "0 \<le> c" "c < 2 ^ 52" for c
    using fl_half [of c] that by (simp add: f_of_int_small)
  have "interpolate (f_of_int ?a) (f_of_int ?b) (Fin (1 / 2)) = Fin (of_int (?a + ?b) / 2)"
    using half [of ?a] half [of ?b] fl_half [of 1] fl_half [of "?a + ?b"] ab
    by (simp add: interpolate_def f_sub_def add_divide_distrib)
  moreover have "\<lfloor>of_int (?a + ?b) / (2 :: rat)\<rfloor> = (?a + ?b) div 2"
    by (metis floor_divide_of_int_eq of_int_numeral)
  ultimately have "f_to_int (interpolate (f_of_int ?a) (f_of_int ?b) (Fin (1 / 2))) = (?a + ?b) div 2"
  proof -
    assume i: "interpolate (f_of_int ?a) (f_of_int ?b) (Fin (1 / 2)) = Fin (of_int (?a + ?b) / 2)"
      "\<lfloor>of_int (?a + ?b) / (2 :: rat)\<rfloor> = (?a + ?b) div 2"
    have "0 \<le> (?a + ?b) div 2" "(?a + ?b) div 2 < 2 ^ 52" using ab by linarith+
    then have "in_i64 ((?a + ?b) div 2)" by (simp add: in_i64_def)
    moreover have "0 \<le> of_int (?a + ?b) / (2 :: rat)" using ab by simp
    ultimately show ?thesis using i by (simp add: rat_trunc_def)
  qed
  moreover have "xs \<noteq> []" "nat (int k) = k" "nat (int k + 1) = k + 1" "int k \<noteq> int k + 1"
    using assms(1) by auto
  ultimately show ?thesis
    unfolding percentile_duration_def Let_def idx lower upper w by (simp del: f_to_int.simps)
qed

end
