(* ===== verification/PkgModels.thy ===== *)
theory PkgModels
  imports Percentile "HOL-Library.AList"
begin

text \<open>
  The data models of package \<open>models\<close>: cache entries with their expiry and access tracking
  (\<open>pkg/models/cache.go\<close>), metric snapshots and latency summaries (\<open>pkg/models/metrics.go\<close>).
\<close>

section \<open>Unsigned 64-bit counters\<close>

definition u64 :: "int \<Rightarrow> int" where
  "u64 x = x mod 2 ^ 64"

lemma u64_id [simp]: "0 \<le> x \<Longrightarrow> x < 2 ^ 64 \<Longrightarrow> u64 x = x"
  by (simp add: u64_def)

lemma u64_word: "u64 x = uint (word_of_int x :: 64 word)"
  by (simp add: u64_def uint_word_of_int)

lemma u64_add: "u64 (u64 x + y) = u64 (x + y)" "u64 (x + u64 y) = u64 (x + y)"
  by (simp_all add: u64_def mod_simps)

section \<open>Entries\<close>

record entry =
  en_key :: string
  en_value :: string
  en_created :: time
  en_last_access :: time
  en_ttl :: duration
  en_count :: int
  en_meta :: "(string \<times> string) list option"

definition default_ttl :: duration where
  "default_ttl = 1 * hour"

definition new_entry_with_ttl :: "time \<Rightarrow> string \<Rightarrow> string \<Rightarrow> duration \<Rightarrow> entry" where
  "new_entry_with_ttl now key v ttl = \<lparr>en_key = key, en_value = v, en_created = now,
     en_last_access = now, en_ttl = ttl, en_count = 0, en_meta = Some []\<rparr>"

definition new_entry :: "time \<Rightarrow> string \<Rightarrow> string \<Rightarrow> entry" where
  "new_entry now key v = \<lparr>en_key = key, en_value = v, en_created = now,
     en_last_access = now, en_ttl = default_ttl, en_count = 0, en_meta = Some []\<rparr>"

definition is_expired :: "entry \<Rightarrow> time \<Rightarrow> bool" where
  "is_expired e now \<longleftrightarrow>
     (if en_ttl e = 0 then False else time_after now (time_add (en_created e) (en_ttl e)))"

definition expires_at :: "entry \<Rightarrow> time" where
  "expires_at e = (if en_ttl e = 0 then zero_time else time_add (en_created e) (en_ttl e))"

definition time_until_expiry :: "entry \<Rightarrow> time \<Rightarrow> duration" where
  "time_until_expiry e now =
     (if en_ttl e = 0 then max_duration
      else
        (let remaining = time_sub (time_add (en_created e) (en_ttl e)) now
         in if remaining < 0 then 0 else remaining))"

definition touch :: "time \<Rightarrow> entry \<Rightarrow> entry" where
  "touch now e = e\<lparr>en_last_access := now, en_count := u64 (en_count e + 1)\<rparr>"

definition get_access_count :: "entry \<Rightarrow> int" where
  "get_access_count e = en_count e"

definition reset_access_count :: "entry \<Rightarrow> entry" where
  "reset_access_count e = e\<lparr>en_count := 0\<rparr>"

definition meta_pairs :: "entry \<Rightarrow> (string \<times> string) list" where
  "meta_pairs e = (case en_meta e of None \<Rightarrow> [] | Some m \<Rightarrow> m)"

definition entry_size :: "entry \<Rightarrow> int" where
  "entry_size e =
     fold (\<lambda>(k, v) sz. sz + int (length k + length v)) (meta_pairs e)
       (int (length (en_key e) + length (en_value e))) + 64"

definition clone :: "entry \<Rightarrow> entry" where
  "clone e = \<lparr>en_key = en_key e, en_value = en_value e, en_created = en_created e,
     en_last_access = en_last_access e, en_ttl = en_ttl e, en_count = en_count e,
     en_meta = Some (fold (\<lambda>(k, v) m. AList.update k v m) (meta_pairs e) [])\<rparr>"

definition set_metadata :: "string \<Rightarrow> string \<Rightarrow> entry \<Rightarrow> entry" where
  "set_metadata key v e = e\<lparr>en_meta := Some (AList.update key v (meta_pairs e))\<rparr>"

definition get_metadata :: "string \<Rightarrow> entry \<Rightarrow> string \<times> bool" where
  "get_metadata key e =
     (case en_meta e of None \<Rightarrow> ([], False)
      | Some m \<Rightarrow> (case map_of m key of None \<Rightarrow> ([], False) | Some v \<Rightarrow> (v, True)))"

record entry_stats =
  es_key :: string
  es_size :: int
  es_age :: duration
  es_ttl :: duration
  es_count :: int
  es_since_access :: duration
  es_frequency :: f64

text \<open>\<open>Duration.Seconds\<close>.\<close>

definition seconds_of :: "duration \<Rightarrow> f64" where
  "seconds_of d = f_add (f_of_int (go_div d second))
     (f_div (f_of_int (d - go_div d second * second)) (f_of_int 1000000000))"

definition get_entry_stats :: "entry \<Rightarrow> time \<Rightarrow> entry_stats" where
  "get_entry_stats e now =
     (let age = time_sub now (en_created e);
          frequency = (if f_lt (Fin 0) (seconds_of age)
            then f_div (f_of_int (en_count e)) (seconds_of age) else Fin 0)
      in \<lparr>es_key = en_key e, es_size = entry_size e, es_age = age, es_ttl = en_ttl e,
          es_count = en_count e, es_since_access = time_sub now (en_last_access e),
          es_frequency = frequency\<rparr>)"

section \<open>Latency summaries\<close>

record latency_summary =
  ls_count :: int
  ls_sum :: duration
  ls_min :: duration
  ls_max :: duration
  ls_p50 :: duration
  ls_p90 :: duration
  ls_p95 :: duration
  ls_p99 :: duration

definition empty_summary :: latency_summary where
  "empty_summary = \<lparr>ls_count = 0, ls_sum = 0, ls_min = 0, ls_max = 0, ls_p50 = 0, ls_p90 = 0,
     ls_p95 = 0, ls_p99 = 0\<rparr>"

definition min_duration_of :: "duration \<Rightarrow> duration \<Rightarrow> duration" where
  "min_duration_of a b = (if a < b then a else b)"

definition max_duration_of :: "duration \<Rightarrow> duration \<Rightarrow> duration" where
  "max_duration_of a b = (if a > b then a else b)"

definition weighted :: "duration \<Rightarrow> f64 \<Rightarrow> duration \<Rightarrow> f64 \<Rightarrow> duration" where
  "weighted a wa b wb = f_to_int (f_add (f_mul (f_of_int a) wa) (f_mul (f_of_int b) wb))"

definition merge_latency_summaries :: "latency_summary \<Rightarrow> latency_summary \<Rightarrow> latency_summary" where
  "merge_latency_summaries a b =
     (if ls_count a = 0 then b
      else if ls_count b = 0 then a
      else
        (let tot = u64 (ls_count a + ls_count b);
             wa = f_div (f_of_int (ls_count a)) (f_of_int tot);
             wb = f_div (f_of_int (ls_count b)) (f_of_int tot)
         in \<lparr>ls_count = tot, ls_sum = i64 (ls_sum a + ls_sum b),
             ls_min = min_duration_of (ls_min a) (ls_min b), ls_max = max_duration_of (ls_max a) (ls_max b),
             ls_p50 = weighted (ls_p50 a) wa (ls_p50 b) wb, ls_p90 = weighted (ls_p90 a) wa (ls_p90 b) wb,
             ls_p95 = weighted (ls_p95 a) wa (ls_p95 b) wb, ls_p99 = weighted (ls_p99 a) wa (ls_p99 b) wb\<rparr>))"

definition update_latency :: "latency_summary \<Rightarrow> duration \<Rightarrow> latency_summary" where
  "update_latency s sample =
     (let s = (if ls_count s = 0 then s\<lparr>ls_min := sample, ls_max := sample\<rparr>
            else s\<lparr>ls_min := (if sample < ls_min s then sample else ls_min s),
              ls_max := (if sample > ls_max s then sample else ls_max s)\<rparr>)
      in s\<lparr>ls_count := u64 (ls_count s + 1), ls_sum := i64 (ls_sum s + sample)\<rparr>)"

definition calculate_latency_summary :: "duration list \<Rightarrow> latency_summary" where
  "calculate_latency_summary samples =
     (if samples = [] then empty_summary
      else
        (let sorted = sort samples;
             tot = fold (\<lambda>x acc. i64 (acc + x)) sorted 0
         in \<lparr>ls_count = u64 (int (length sorted)), ls_sum = tot, ls_min = sorted ! 0,
             ls_max = sorted ! (length sorted - 1), ls_p50 = percentile_duration sorted (1 / 2),
             ls_p90 = percentile_duration sorted (9 / 10), ls_p95 = percentile_duration sorted (95 / 100),
             ls_p99 = percentile_duration sorted (99 / 100)\<rparr>))"

definition avg_latency :: "latency_summary \<Rightarrow> duration" where
  "avg_latency s = (if ls_count s = 0 then 0 else go_div (ls_sum s) (i64 (ls_count s)))"

section \<open>Metric snapshots\<close>

record metric_snapshot =
  ms_timestamp :: time
  ms_hits :: int
  ms_misses :: int
  ms_sets :: int
  ms_deletes :: int
  ms_evictions :: int
  ms_l1_size :: int
  ms_l2_size :: int
  ms_total_size :: int
  ms_latency :: latency_summary
  ms_hit_rate :: f64
  ms_miss_rate :: f64

text \<open>Both constructors compute the rates from the wrapped total.\<close>

definition request_rate :: "int \<Rightarrow> int \<Rightarrow> f64" where
  "request_rate part tot = (if tot > 0 then f_div (f_of_int part) (f_of_int tot) else Fin 0)"

definition new_metric_snapshot ::
    "time \<Rightarrow> int \<Rightarrow> int \<Rightarrow> int \<Rightarrow> int \<Rightarrow> int \<Rightarrow> latency_summary \<Rightarrow> metric_snapshot" where
  "new_metric_snapshot now hits misses sets deletes evictions latency =
     (let tot = u64 (hits + misses)
      in \<lparr>ms_timestamp = now, ms_hits = hits, ms_misses = misses, ms_sets = sets, ms_deletes = deletes,
          ms_evictions = evictions, ms_l1_size = 0, ms_l2_size = 0, ms_total_size = 0,
          ms_latency = latency, ms_hit_rate = request_rate hits tot, ms_miss_rate = request_rate misses tot\<rparr>)"

definition total_requests :: "metric_snapshot \<Rightarrow> int" where
  "total_requests m = u64 (ms_hits m + ms_misses m)"

definition eviction_rate :: "metric_snapshot \<Rightarrow> f64" where
  "eviction_rate m = (if total_requests m = 0 then Fin 0
     else f_div (f_of_int (ms_evictions m)) (f_of_int (total_requests m)))"

definition merge_snapshots :: "time \<Rightarrow> metric_snapshot \<Rightarrow> metric_snapshot \<Rightarrow> metric_snapshot" where
  "merge_snapshots now a b =
     (let hits = u64 (ms_hits a + ms_hits b);
          misses = u64 (ms_misses a + ms_misses b);
          tot = u64 (hits + misses)
      in \<lparr>ms_timestamp = now, ms_hits = hits, ms_misses = misses, ms_sets = u64 (ms_sets a + ms_sets b),
          ms_deletes = u64 (ms_deletes a + ms_deletes b), ms_evictions = u64 (ms_evictions a + ms_evictions b),
          ms_l1_size = u64 (ms_l1_size a + ms_l1_size b), ms_l2_size = u64 (ms_l2_size a + ms_l2_size b),
          ms_total_size = u64 (ms_total_size a + ms_total_size b),
          ms_latency = merge_latency_summaries (ms_latency a) (ms_latency b),
          ms_hit_rate = request_rate hits tot, ms_miss_rate = request_rate misses tot\<rparr>)"

definition snapshot_to_prometheus :: "metric_snapshot \<Rightarrow> string \<Rightarrow> (string \<times> f64) list" where
  "snapshot_to_prometheus s prefix =
     (let ms = (\<lambda>d. f_of_int (dur_ms d)); l = ms_latency s in
      fold (\<lambda>(name, v) m. AList.update (prefix @ name) v m)
        [(''_hits_total'', f_of_int (ms_hits s)), (''_misses_total'', f_of_int (ms_misses s)),
         (''_sets_total'', f_of_int (ms_sets s)), (''_deletes_total'', f_of_int (ms_deletes s)),
         (''_evictions_total'', f_of_int (ms_evictions s)),
         (''_hit_rate'', ms_hit_rate s), (''_miss_rate'', ms_miss_rate s),
         (''_l1_size'', f_of_int (ms_l1_size s)), (''_l2_size'', f_of_int (ms_l2_size s)),
         (''_latency_avg_ms'', ms (avg_latency l)), (''_latency_min_ms'', ms (ls_min l)),
         (''_latency_max_ms'', ms (ls_max l)), (''_latency_p50_ms'', ms (ls_p50 l)),
         (''_latency_p90_ms'', ms (ls_p90 l)), (''_latency_p95_ms'', ms (ls_p95 l)),
         (''_latency_p99_ms'', ms (ls_p99 l))] [])"

section \<open>Lemmas on entries\<close>

text \<open>Expiry and remaining time agree, except at the deadline itself, where nothing remains and the
  entry is not expired.\<close>

lemma expired_no_time: "is_expired e now \<Longrightarrow> time_until_expiry e now = 0"
  by (auto simp: is_expired_def time_until_expiry_def time_after_def time_sub_def min_duration_def
      max_duration_def split: if_splits)

lemma time_left_not_expired: "0 < time_until_expiry e now \<Longrightarrow> \<not> is_expired e now"
  by (metis expired_no_time less_irrefl)

lemma touch_count: "0 \<le> en_count e \<Longrightarrow> en_count e < 2 ^ 64 - 1 \<Longrightarrow> en_count (touch now e) = en_count e + 1"
  by (simp add: touch_def)

lemma get_set_metadata: "get_metadata k (set_metadata k v e) = (v, True)"
  by (simp add: get_metadata_def set_metadata_def meta_pairs_def al_update_map_of)

lemma get_set_metadata_other: "k \<noteq> k' \<Longrightarrow> get_metadata k (set_metadata k' v e) = get_metadata k e"
  by (auto simp: get_metadata_def set_metadata_def meta_pairs_def al_update_map_of split: option.split)

lemma clone_metadata:
  assumes "distinct (map fst (meta_pairs e))"
  shows "get_metadata k (clone e) = get_metadata k e"
proof -
  have "fold (\<lambda>(k, v) m. AList.update k v m) ps acc = acc @ ps"
    if "distinct (map fst (acc @ ps))" for ps acc :: "(string \<times> string) list"
    using that by (induction ps arbitrary: acc) (auto simp: al_update_new)
  then show ?thesis
    using assms by (auto simp: get_metadata_def clone_def meta_pairs_def split: option.split)
qed

section \<open>Lemmas on summaries\<close>

lemma fold_sum_i64: "fold (\<lambda>x acc. i64 (acc + x)) xs (i64 acc) = i64 (acc + sum_list xs)"
proof (induction xs arbitrary: acc)
  case (Cons x xs)
  have "i64 (i64 acc + x) = i64 (acc + x)" by (rule i64_add_left)
  with Cons [of "acc + x"] show ?case by (simp add: add.assoc)
qed simp

lemma summary_sum: "fold (\<lambda>x acc. i64 (acc + x)) xs 0 = i64 (sum_list xs)"
  using fold_sum_i64 [of xs 0] by (simp add: in_i64_def)

lemma sum_list_sort: "sum_list (sort xs) = sum_list (xs :: int list)"
  by (metis mset_sort sum_mset_sum_list)

text \<open>The exact part of a summary, as a reference for samples.\<close>

definition exact_part :: "latency_summary \<Rightarrow> int \<times> duration \<times> duration \<times> duration" where
  "exact_part s = (ls_count s, ls_sum s, ls_min s, ls_max s)"

definition exact_of :: "duration list \<Rightarrow> int \<times> duration \<times> duration \<times> duration" where
  "exact_of xs = (if xs = [] then (0, 0, 0, 0)
     else (u64 (int (length xs)), i64 (sum_list xs), Min (set xs), Max (set xs)))"

lemma sorted_nth_0_Min:
  fixes xs :: "int list"
  assumes "xs \<noteq> []"
  shows "sort xs ! 0 = Min (set xs)"
proof (rule Min_eqI [symmetric])
  show "sort xs ! 0 \<in> set xs" using nth_mem [of 0 "sort xs"] assms by simp
  show "sort xs ! 0 \<le> y" if "y \<in> set xs" for y
  proof -
    have "y \<in> set (sort xs)" using that by simp
    then obtain i where "i < length (sort xs)" "sort xs ! i = y" unfolding in_set_conv_nth by blast
    then show ?thesis using sorted_nth_mono [of "sort xs" 0 i] by simp
  qed
qed simp

lemma sorted_nth_last_Max:
  fixes xs :: "int list"
  assumes "xs \<noteq> []"
  shows "sort xs ! (length xs - Suc 0) = Max (set xs)"
proof (rule Max_eqI [symmetric])
  show "sort xs ! (length xs - Suc 0) \<in> set xs"
    using nth_mem [of "length xs - Suc 0" "sort xs"] assms by simp
  show "y \<le> sort xs ! (length xs - Suc 0)" if "y \<in> set xs" for y
  proof -
    have "y \<in> set (sort xs)" using that by simp
    then obtain i where "i < length (sort xs)" "sort xs ! i = y" unfolding in_set_conv_nth by blast
    then show ?thesis using sorted_nth_mono [of "sort xs" i "length xs - Suc 0"] by simp
  qed
qed simp

lemma calculate_exact: "exact_part (calculate_latency_summary xs) = exact_of xs"
  by (simp add: exact_part_def calculate_latency_summary_def empty_summary_def exact_of_def Let_def summary_sum
      sum_list_sort sorted_nth_0_Min sorted_nth_last_Max)

lemma exact_count:
  "exact_part s = exact_of xs \<Longrightarrow> int (length xs) < 2 ^ 64 \<Longrightarrow> ls_count s = int (length xs)"
  by (simp add: exact_part_def exact_of_def split: if_splits)

lemma if_less_min: "(if x < m then x else m) = min m x" "(if M < x then x else M) = max M x"
  for x m M :: int
  by (simp_all add: min_def max_def)

lemma duration_min_max: "min_duration_of a b = min a b" "max_duration_of a b = max a b"
  by (simp_all add: min_duration_of_def max_duration_of_def min_def max_def)

lemma update_parts:
  "exact_part s = (c, t, m, M) \<Longrightarrow> c \<noteq> 0 \<Longrightarrow>
   exact_part (update_latency s x) = (u64 (c + 1), i64 (t + x), min m x, max M x)"
  by (auto simp: exact_part_def update_latency_def Let_def if_less_min)

lemma merge_parts:
  "exact_part a = (c, t, m, M) \<Longrightarrow> exact_part b = (c', t', m', M') \<Longrightarrow> c \<noteq> 0 \<Longrightarrow> c' \<noteq> 0 \<Longrightarrow>
   exact_part (merge_latency_summaries a b) = (u64 (c + c'), i64 (t + t'), min m m', max M M')"
  by (auto simp: exact_part_def merge_latency_summaries_def Let_def duration_min_max)

lemma exact_of_append:
  assumes "xs \<noteq> []" "ys \<noteq> []" "exact_of xs = (c, t, m, M)" "exact_of ys = (c', t', m', M')"
    and "int (length xs + length ys) < 2 ^ 64"
  shows "exact_of (xs @ ys) = (u64 (c + c'), i64 (t + t'), min m m', max M M') \<and> c \<noteq> 0 \<and> c' \<noteq> 0"
proof -
  have "Min (set xs \<union> set ys) = min (Min (set xs)) (Min (set ys))"
    "Max (set xs \<union> set ys) = max (Max (set xs)) (Max (set ys))"
    using assms(1,2) by (simp_all add: Min_Un Max_Un)
  moreover have "i64 (i64 (sum_list xs) + i64 (sum_list ys)) = i64 (sum_list xs + sum_list ys)"
    by (simp add: i64_add_left i64_add_right)
  moreover have "u64 (int (length xs)) = int (length xs)" "u64 (int (length ys)) = int (length ys)"
    using assms(5) by simp_all
  ultimately show ?thesis using assms by (auto simp: exact_of_def)
qed

lemma exact_of_snoc:
  assumes "int (length xs) < 2 ^ 64 - 1" "exact_part s = exact_of xs"
  shows "exact_part (update_latency s x) = exact_of (xs @ [x])"
proof (cases "xs = []")
  case True
  with assms(2) show ?thesis by (simp add: exact_part_def exact_of_def update_latency_def Let_def)
next
  case False
  obtain c t m M where c: "exact_of xs = (c, t, m, M)" by (cases "exact_of xs") auto
  have "exact_of [x] = (1, i64 x, x, x)" by (simp add: exact_of_def)
  from exact_of_append [OF False _ c this] update_parts [of s c t m M x] assms c show ?thesis
    by (simp add: i64_add_right)
qed

lemma update_exact:
  assumes "int (length xs) < 2 ^ 64"
  shows "exact_part (fold (\<lambda>x s. update_latency s x) xs empty_summary) = exact_of xs"
  using assms
proof (induction xs rule: rev_induct)
  case (snoc x xs)
  then show ?case using exact_of_snoc [of xs] by simp
qed (simp add: exact_part_def exact_of_def empty_summary_def)

lemma merge_exact:
  assumes "exact_part a = exact_of xs" "exact_part b = exact_of ys" "int (length xs + length ys) < 2 ^ 64"
  shows "exact_part (merge_latency_summaries a b) = exact_of (xs @ ys)"
proof (cases "xs = [] \<or> ys = []")
  case True
  have "ls_count a = 0 \<longleftrightarrow> xs = []" "ls_count b = 0 \<longleftrightarrow> ys = []"
    using exact_count [OF assms(1)] exact_count [OF assms(2)] assms(3) by simp_all
  with True assms show ?thesis by (auto simp: merge_latency_summaries_def)
next
  case False
  obtain c t m M where c: "exact_of xs = (c, t, m, M)" by (cases "exact_of xs") auto
  obtain c' t' m' M' where c': "exact_of ys = (c', t', m', M')" by (cases "exact_of ys") auto
  from exact_of_append [OF _ _ c c'] merge_parts [of a c t m M b c' t' m' M'] False assms c c' show ?thesis
    by simp
qed

section \<open>Properties\<close>

text \<open>
  Further result.  Latency summaries agree on their exact part however they are built: from all samples at
  once, by one update per sample, or by merging the summaries of two parts, count, sum, minimum and
  maximum are those of the samples (only the percentiles of a merge are approximations).
\<close>

theorem summaries_exact:
  assumes "int (length xs + length ys) < 2 ^ 64"
  shows "exact_part (calculate_latency_summary (xs @ ys)) = exact_of (xs @ ys) \<and>
    exact_part (fold (\<lambda>x s. update_latency s x) (xs @ ys) empty_summary) = exact_of (xs @ ys) \<and>
    exact_part (merge_latency_summaries (calculate_latency_summary xs) (calculate_latency_summary ys)) =
      exact_of (xs @ ys)"
  using merge_exact [OF calculate_exact calculate_exact assms] update_exact [of "xs @ ys"] assms
  by (simp add: calculate_exact)

theorem summaries_exact_witness:
  "exact_part (merge_latency_summaries (calculate_latency_summary [5, 1]) (calculate_latency_summary [9])) =
     (3, 15, 1, 9)"
  using summaries_exact [of "[5, 1]" "[9]"] by (simp add: exact_of_def in_i64_def)

text \<open>
  Further result.  The median of a summary is the middle sample, or the truncated mean of the two middle
  samples, exactly, although it is computed in double precision.
\<close>

theorem summary_median:
  assumes "samples \<noteq> []" and "length samples \<le> 2 ^ 53" and "\<forall>x \<in> set samples. 0 \<le> x \<and> x < 2 ^ 52"
  shows "ls_p50 (calculate_latency_summary samples) =
    (let n = length samples; s = sort samples in
     if odd n then s ! (n div 2) else (s ! (n div 2 - 1) + s ! (n div 2)) div 2)"
proof (cases "odd (length samples)")
  case True
  then obtain k where k: "length samples = 2 * k + 1" by (metis oddE)
  then have "percentile_duration (sort samples) (1 / 2) = sort samples ! k"
    using assms(2) by (intro median_odd) simp_all
  with k assms(1) show ?thesis by (simp add: calculate_latency_summary_def Let_def)
next
  case False
  then obtain j where "length samples = 2 * j" by (metis evenE)
  with assms(1) obtain k where k: "length samples = 2 * k + 2" by (cases j) auto
  then have "percentile_duration (sort samples) (1 / 2) = (sort samples ! k + sort samples ! (k + 1)) div 2"
    using assms(2,3) by (intro median_even) simp_all
  with k assms(1) show ?thesis by (simp add: calculate_latency_summary_def Let_def)
qed

theorem summary_median_witness:
  "ls_p50 (calculate_latency_summary [9, 1, 4, 2]) = 3"
  using summary_median [of "[9, 1, 4, 2]"] by (simp add: Let_def)

text \<open>
  Further result.  Expiry, remaining time and absolute deadline of an entry agree: for a lifetime other than
  zero an entry is expired exactly after its deadline, then no time remains, and before it the
  remaining time is positive; with lifetime zero it never expires.  At the deadline itself no time
  remains although the entry is not expired.
\<close>

theorem entry_expiry:
  "if en_ttl e = 0 then \<not> is_expired e now \<and> time_until_expiry e now = max_duration
   else is_expired e now = (expires_at e < now) \<and>
     (time_until_expiry e now = 0) = (expires_at e \<le> now) \<and>
     (0 < time_until_expiry e now) = (now < expires_at e)"
  by (auto simp: is_expired_def time_until_expiry_def expires_at_def time_after_def time_sub_def
      min_duration_def max_duration_def Let_def)

end
