(* ===== verification/PkgEvents.thy ===== *)
theory PkgEvents
  imports Prelude
begin

text \<open>
  The canonical event types and topics of package \<open>pubsub\<close> (\<open>pkg/pubsub/events.go\<close>, \<open>topics.go\<close>) and the
  checked encoding helpers (\<open>pkg/utils/encoding.go\<close>).  The JSON codec itself is \<open>encoding/json\<close>: two
  functions on the event type, which the encoders take as arguments.
\<close>

section \<open>Events\<close>

record pkg_inval_event =
  pie_version :: int
  pie_service :: string
  pie_keys :: "string list"
  pie_pattern :: string
  pie_at :: time
  pie_meta :: "(string \<times> string) list"
  pie_request :: string

record pkg_refresh_event =
  pre_version :: int
  pre_service :: string
  pre_keys :: "string list"
  pre_priority :: int
  pre_at :: time
  pre_meta :: "(string \<times> string) list"
  pre_request :: string

record pkg_warm_event =
  pwe_version :: int
  pwe_service :: string
  pwe_status :: string
  pwe_duration :: duration
  pwe_warmed :: int
  pwe_failed :: int
  pwe_error :: string
  pwe_at :: time
  pwe_meta :: "(string \<times> string) list"
  pwe_request :: string

definition event_version1 :: int where
  "event_version1 = 1"

definition is_zero_time :: "time \<Rightarrow> bool" where
  "is_zero_time t \<longleftrightarrow> t = zero_time"

section \<open>Validation\<close>

definition validate_invalidation :: "pkg_inval_event \<Rightarrow> go_error option" where
  "validate_invalidation e =
     (if pie_version e \<noteq> event_version1
      then Some (ErrMsg (''unsupported event version: '' @ int_dec (pie_version e)))
      else if pie_service e = [] then Some (ErrMsg ''service field is required'')
      else if pie_keys e = [] \<and> pie_pattern e = []
      then Some (ErrMsg ''at least one of keys or pattern must be set'')
      else if is_zero_time (pie_at e) then Some (ErrMsg ''triggered_at cannot be zero'')
      else if pie_request e = [] then Some (ErrMsg ''request_id is required for tracing'')
      else None)"

definition validate_refresh :: "pkg_refresh_event \<Rightarrow> go_error option" where
  "validate_refresh e =
     (if pre_version e \<noteq> event_version1
      then Some (ErrMsg (''unsupported event version: '' @ int_dec (pre_version e)))
      else if pre_service e = [] then Some (ErrMsg ''service field is required'')
      else if pre_keys e = [] then Some (ErrMsg ''keys cannot be empty'')
      else if is_zero_time (pre_at e) then Some (ErrMsg ''triggered_at cannot be zero'')
      else if pre_request e = [] then Some (ErrMsg ''request_id is required for tracing'')
      else None)"

definition valid_statuses :: "string list" where
  "valid_statuses = [''success'', ''partial'', ''failed'']"

definition validate_warm_completed :: "pkg_warm_event \<Rightarrow> go_error option" where
  "validate_warm_completed e =
     (if pwe_version e \<noteq> event_version1
      then Some (ErrMsg (''unsupported event version: '' @ int_dec (pwe_version e)))
      else if pwe_service e = [] then Some (ErrMsg ''service field is required'')
      else if pwe_status e \<notin> set valid_statuses
      then Some (ErrMsg (''invalid status: '' @ pwe_status e @ '' (must be success, partial, or failed)''))
      else if pwe_duration e < 0 then Some (ErrMsg ''duration cannot be negative'')
      else if pwe_warmed e < 0 \<or> pwe_failed e < 0
      then Some (ErrMsg ''keys_warmed and keys_failed cannot be negative'')
      else if is_zero_time (pwe_at e) then Some (ErrMsg ''completed_at cannot be zero'')
      else if pwe_request e = [] then Some (ErrMsg ''request_id is required for tracing'')
      else None)"

section \<open>Topics\<close>

definition topic_cache_invalidate :: string where
  "topic_cache_invalidate = ''cache.invalidate''"
definition topic_cache_refresh :: string where
  "topic_cache_refresh = ''cache.refresh''"
definition topic_cache_warm_completed :: string where
  "topic_cache_warm_completed = ''cache.warm.completed''"

definition all_topics :: "string list" where
  "all_topics = [topic_cache_invalidate, topic_cache_refresh, topic_cache_warm_completed]"

definition is_valid_topic :: "string \<Rightarrow> bool" where
  "is_valid_topic topic = list_ex (\<lambda>t. t = topic) all_topics"

record topic_metadata =
  tm_name :: string
  tm_description :: string
  tm_event :: string

definition get_topic_metadata :: "topic_metadata list" where
  "get_topic_metadata =
     [\<lparr>tm_name = topic_cache_invalidate,
        tm_description = ''Cache invalidation events for key or pattern-based clearing'',
        tm_event = ''InvalidationEvent''\<rparr>,
      \<lparr>tm_name = topic_cache_refresh, tm_description = ''Cache refresh events to reload specific entries'',
        tm_event = ''RefreshEvent''\<rparr>,
      \<lparr>tm_name = topic_cache_warm_completed,
        tm_description = ''Cache warming completion notifications with status'',
        tm_event = ''WarmCompletedEvent''\<rparr>]"

text \<open>The names under which the services create their topics (\<open>pubsub.NewTopic\<close>).\<close>

definition invalidate_topic_name :: string where
  "invalidate_topic_name = ''cache-invalidate''"
definition refresh_topic_name :: string where
  "refresh_topic_name = ''cache-refresh''"
definition warm_completed_topic_name :: string where
  "warm_completed_topic_name = ''cache-warm-completed''"
definition cache_metrics_topic_name :: string where
  "cache_metrics_topic_name = ''cache-metrics''"
definition invalidation_metrics_topic_name :: string where
  "invalidation_metrics_topic_name = ''invalidation-metrics''"

definition service_topics :: "string list" where
  "service_topics = [invalidate_topic_name, refresh_topic_name, warm_completed_topic_name,
     cache_metrics_topic_name, invalidation_metrics_topic_name]"

section \<open>Encoding\<close>

text \<open>A pointer or interface value that may be nil is an option; the codec is a pair of functions.\<close>

definition marshal_entry_checked :: "('e \<Rightarrow> string go_result) \<Rightarrow> 'e option \<Rightarrow> string go_result" where
  "marshal_entry_checked marshal e =
     (case e of None \<Rightarrow> Inl (ErrMsg ''cannot marshal nil entry'') | Some e \<Rightarrow> marshal e)"

definition unmarshal_with :: "string \<Rightarrow> (string \<Rightarrow> 'e go_result) \<Rightarrow> string \<Rightarrow> 'e go_result" where
  "unmarshal_with context unmarshal data =
     (if data = [] then Inl (ErrMsg ''cannot unmarshal empty data'')
      else (case unmarshal data of Inl e \<Rightarrow> Inl (ErrWrap context e) | Inr v \<Rightarrow> Inr v))"

definition unmarshal_entry_checked :: "(string \<Rightarrow> 'e go_result) \<Rightarrow> string \<Rightarrow> 'e go_result" where
  "unmarshal_entry_checked = unmarshal_with ''failed to unmarshal entry: ''"

definition marshal_event :: "('e \<Rightarrow> string go_result) \<Rightarrow> 'e option \<Rightarrow> string go_result" where
  "marshal_event marshal e =
     (case e of None \<Rightarrow> Inl (ErrMsg ''cannot marshal nil event'')
      | Some e \<Rightarrow> (case marshal e of Inl err \<Rightarrow> Inl (ErrWrap ''failed to marshal event: '' err)
                 | Inr data \<Rightarrow> Inr data))"

definition unmarshal_event :: "(string \<Rightarrow> 'e go_result) \<Rightarrow> bool \<Rightarrow> string \<Rightarrow> 'e go_result" where
  "unmarshal_event unmarshal target_nil data =
     (if data = [] then Inl (ErrMsg ''cannot unmarshal empty data'')
      else if target_nil then Inl (ErrMsg ''event pointer cannot be nil'')
      else (case unmarshal data of Inl e \<Rightarrow> Inl (ErrWrap ''failed to unmarshal event: '' e) | Inr v \<Rightarrow> Inr v))"

definition marshal_json :: "('e \<Rightarrow> string go_result) \<Rightarrow> 'e \<Rightarrow> string go_result" where
  "marshal_json marshal v =
     (case marshal v of Inl err \<Rightarrow> Inl (ErrWrap ''failed to marshal JSON: '' err) | Inr data \<Rightarrow> Inr data)"

definition unmarshal_json :: "(string \<Rightarrow> 'e go_result) \<Rightarrow> string \<Rightarrow> 'e go_result" where
  "unmarshal_json = unmarshal_with ''failed to unmarshal JSON: ''"

text \<open>Decoding into a raw message only checks the document; decoding into an \<open>interface{}\<close> builds a value.\<close>

definition compact_json :: "(string \<Rightarrow> 'r go_result) \<Rightarrow> ('r \<Rightarrow> string go_result) \<Rightarrow> string \<Rightarrow> string go_result" where
  "compact_json unmarshal_raw marshal_raw data =
     (case unmarshal_raw data of Inl e \<Rightarrow> Inl (ErrWrap ''invalid JSON: '' e) | Inr raw \<Rightarrow> marshal_raw raw)"

definition pretty_json :: "(string \<Rightarrow> 'v go_result) \<Rightarrow> ('v \<Rightarrow> string go_result) \<Rightarrow> string \<Rightarrow> string go_result" where
  "pretty_json unmarshal marshal_indent data =
     (case unmarshal data of
        Inl e \<Rightarrow> Inl (ErrWrap ''invalid JSON: '' e)
      | Inr v \<Rightarrow> (case marshal_indent v of
          Inl e \<Rightarrow> Inl (ErrWrap ''failed to format JSON: '' e) | Inr pretty \<Rightarrow> Inr pretty))"

definition estimate_encoded_size :: "('e \<Rightarrow> string go_result) \<Rightarrow> 'e \<Rightarrow> int" where
  "estimate_encoded_size marshal v =
     (case marshal v of Inl _ \<Rightarrow> 0 | Inr data \<Rightarrow> int (length data))"

definition event_to_json :: "('e \<Rightarrow> string go_result) \<Rightarrow> 'e \<Rightarrow> string go_result" where
  "event_to_json marshal e = marshal e"

definition inval_event_from_json :: "(string \<Rightarrow> pkg_inval_event go_result) \<Rightarrow> string \<Rightarrow> pkg_inval_event go_result" where
  "inval_event_from_json unmarshal data =
     (case unmarshal data of Inl e \<Rightarrow> Inl (ErrWrap ''failed to unmarshal InvalidationEvent: '' e) | Inr v \<Rightarrow> Inr v)"

definition refresh_event_from_json ::
    "(string \<Rightarrow> pkg_refresh_event go_result) \<Rightarrow> string \<Rightarrow> pkg_refresh_event go_result" where
  "refresh_event_from_json unmarshal data =
     (case unmarshal data of Inl e \<Rightarrow> Inl (ErrWrap ''failed to unmarshal RefreshEvent: '' e) | Inr v \<Rightarrow> Inr v)"

definition warm_event_from_json :: "(string \<Rightarrow> pkg_warm_event go_result) \<Rightarrow> string \<Rightarrow> pkg_warm_event go_result" where
  "warm_event_from_json unmarshal data =
     (case unmarshal data of Inl e \<Rightarrow> Inl (ErrWrap ''failed to unmarshal WarmCompletedEvent: '' e) | Inr v \<Rightarrow> Inr v)"

text \<open>With a codec that decodes what it encodes and never produces empty data, which is what
  \<open>encoding/json\<close> documents for these types, the helpers are inverse to each other.\<close>

lemma encoding_round_trip:
  assumes decode: "\<And>e data. marshal e = Inr data \<Longrightarrow> unmarshal data = Inr e"
    and nonempty: "\<And>e data. marshal e = Inr data \<Longrightarrow> data \<noteq> []"
  shows "marshal_event marshal (Some e) = Inr data \<Longrightarrow> unmarshal_event unmarshal False data = Inr e"
    and "marshal_entry_checked marshal (Some e) = Inr data \<Longrightarrow> unmarshal_entry_checked unmarshal data = Inr e"
    and "marshal_json marshal e = Inr data \<Longrightarrow> unmarshal_json unmarshal data = Inr e"
  using assms
  by (auto simp: marshal_event_def unmarshal_event_def marshal_entry_checked_def unmarshal_entry_checked_def
      unmarshal_with_def marshal_json_def unmarshal_json_def split: sum.splits)

section \<open>Properties\<close>

text \<open>
  Further result.  Validation accepts exactly the well-formed events of each kind, and the checks are made in
  order: an invalidation event with an unknown version is reported as such whatever else is wrong.
\<close>

theorem validation_exact:
  "(validate_invalidation e = None) =
     (pie_version e = 1 \<and> pie_service e \<noteq> [] \<and> (pie_keys e, pie_pattern e) \<noteq> ([], []) \<and>
      pie_at e \<noteq> zero_time \<and> pie_request e \<noteq> []) \<and>
   (validate_refresh r = None) =
     (pre_version r = 1 \<and> pre_service r \<noteq> [] \<and> pre_keys r \<noteq> [] \<and> pre_at r \<noteq> zero_time \<and> pre_request r \<noteq> []) \<and>
   (validate_warm_completed w = None) =
     (pwe_version w = 1 \<and> pwe_service w \<noteq> [] \<and> pwe_status w \<in> {''success'', ''partial'', ''failed''} \<and>
      0 \<le> pwe_duration w \<and> 0 \<le> pwe_warmed w \<and> 0 \<le> pwe_failed w \<and> pwe_at w \<noteq> zero_time \<and> pwe_request w \<noteq> [])"
  by (auto simp: validate_invalidation_def validate_refresh_def validate_warm_completed_def event_version1_def
      is_zero_time_def valid_statuses_def)

text \<open>
  Further result.  The services do not use the topics of the package: none of the topic names they create is
  recognised by \<open>IsValidTopic\<close>, and no recognised topic is created by a service.
\<close>

theorem service_topics_unknown:
  "filter is_valid_topic service_topics = [] \<and> set all_topics \<inter> set service_topics = {}"
  by (simp add: is_valid_topic_def all_topics_def topic_cache_invalidate_def topic_cache_refresh_def
      topic_cache_warm_completed_def service_topics_def invalidate_topic_name_def refresh_topic_name_def
      warm_completed_topic_name_def cache_metrics_topic_name_def invalidation_metrics_topic_name_def)

end
