(* ===== verification/Logging.thy ===== *)
theory Logging
  imports Prelude
begin

text \<open>
  The request logger, \<open>pkg/middleware/logging.go\<close>: the request identifier that travels through header,
  context and log, the response writer that records status and size, and the level of the log line.
  A handler is the list of calls it makes on the response writer, given the request with its context; the
  wrapped writer answers each \<open>Write\<close> with the number of bytes it took.  The generator of identifiers
  (\<open>google/uuid\<close>) is an argument.  The JSON text of an entry is left abstract: an entry is a record.
\<close>

section \<open>Requests, handlers and the response writer\<close>

record log_request =
  lr_method :: string
  lr_path :: string
  lr_query :: string
  lr_remote :: string
  lr_agent :: string
  lr_request_id :: string                 \<comment> \<open>the \<open>X-Request-ID\<close> header\<close>
  lr_context :: "string option"           \<comment> \<open>the value under the context key\<close>

datatype writer_call = CallWriteHeader int | CallWrite string | CallFlush

record response_writer =
  rw_status :: int
  rw_bytes :: int
  rw_sent :: "writer_call list"           \<comment> \<open>what the wrapped writer received\<close>

definition write_header :: "int \<Rightarrow> response_writer \<Rightarrow> response_writer" where
  "write_header code rw = rw\<lparr>rw_status := code, rw_sent := rw_sent rw @ [CallWriteHeader code]\<rparr>"

text \<open>\<open>taken\<close> is the number of bytes that the wrapped writer reports.\<close>

definition write_body :: "(string \<Rightarrow> int) \<Rightarrow> string \<Rightarrow> response_writer \<Rightarrow> response_writer" where
  "write_body taken b rw =
     rw\<lparr>rw_bytes := i64 (rw_bytes rw + taken b), rw_sent := rw_sent rw @ [CallWrite b]\<rparr>"

definition flush :: "bool \<Rightarrow> response_writer \<Rightarrow> response_writer" where
  "flush is_flusher rw = (if is_flusher then rw\<lparr>rw_sent := rw_sent rw @ [CallFlush]\<rparr> else rw)"

fun run_call :: "(string \<Rightarrow> int) \<Rightarrow> bool \<Rightarrow> writer_call \<Rightarrow> response_writer \<Rightarrow> response_writer" where
  "run_call taken fl (CallWriteHeader code) rw = write_header code rw"
| "run_call taken fl (CallWrite b) rw = write_body taken b rw"
| "run_call taken fl CallFlush rw = flush fl rw"

section \<open>The logger\<close>

definition with_request_id :: "string \<Rightarrow> log_request \<Rightarrow> log_request" where
  "with_request_id rid r = r\<lparr>lr_context := Some rid\<rparr>"

definition request_id_from_ctx :: "log_request \<Rightarrow> string" where
  "request_id_from_ctx r = (case lr_context r of Some rid \<Rightarrow> rid | None \<Rightarrow> [])"

record log_entry =
  le_level :: string
  le_id :: string
  le_method :: string
  le_path :: string
  le_query :: string
  le_status :: int
  le_duration_ms :: int
  le_bytes :: int
  le_remote :: string
  le_agent :: string

definition log_level :: "int \<Rightarrow> string" where
  "log_level code = (if code \<ge> 500 then ''ERROR'' else if code \<ge> 400 then ''WARN'' else ''INFO'')"

definition log_request_entry :: "string \<Rightarrow> log_request \<Rightarrow> int \<Rightarrow> int \<Rightarrow> duration \<Rightarrow> log_entry" where
  "log_request_entry rid r code n d = \<lparr>le_level = log_level code, le_id = rid, le_method = lr_method r,
     le_path = lr_path r, le_query = lr_query r, le_status = code, le_duration_ms = dur_ms d, le_bytes = n,
     le_remote = lr_remote r, le_agent = lr_agent r\<rparr>"

text \<open>The result: the identifier in the response header, what the wrapped writer received, and the log entry.\<close>

definition request_logger ::
    "string \<Rightarrow> (string \<Rightarrow> int) \<Rightarrow> bool \<Rightarrow> time \<Rightarrow> time \<Rightarrow> (log_request \<Rightarrow> writer_call list) \<Rightarrow> log_request \<Rightarrow>
     string \<times> writer_call list \<times> log_entry" where
  "request_logger new_id taken fl t0 t1 handler r =
     (let rid = (if lr_request_id r = [] then new_id else lr_request_id r);
          r = r\<lparr>lr_context := Some rid\<rparr>;
          rw = fold (run_call taken fl) (handler r) \<lparr>rw_status = 200, rw_bytes = 0, rw_sent = []\<rparr>
      in (rid, rw_sent rw, log_request_entry rid r (rw_status rw) (rw_bytes rw) (time_sub t1 t0)))"

text \<open>
  A line for a message with additional fields, which are merged over the three fixed ones.  The values
  are JSON values; \<open>text\<close> makes one of a string, and \<open>describe\<close> is the text of an encoder's error.
\<close>

definition log_with_request_id ::
    "(string \<Rightarrow> 'v) \<Rightarrow> ((string \<times> 'v) list \<Rightarrow> string go_result) \<Rightarrow> (go_error \<Rightarrow> string) \<Rightarrow> string \<Rightarrow>
     log_request \<Rightarrow> string \<Rightarrow> (string \<times> 'v) list \<Rightarrow> string" where
  "log_with_request_id text marshal describe timestamp ctx message extra =
     (let entry = [(''timestamp'', text timestamp), (''request_id'', text (request_id_from_ctx ctx)),
            (''message'', text message)];
          entry = fold (\<lambda>(k, v) al. AList.update k v al) extra entry
      in case marshal entry of
           Inl e \<Rightarrow> ''[ERROR] Failed to marshal log entry: '' @ describe e
         | Inr data \<Rightarrow> ''[INFO] '' @ data)"

section \<open>Lemmas\<close>

text \<open>An additional field named \<open>request_id\<close> hides the identifier of the request.\<close>

lemma log_fields_override:
  "log_with_request_id id (\<lambda>al. case map_of al ''request_id'' of Some v \<Rightarrow> Inr v | None \<Rightarrow> Inr []) describe ts ctx msg
     [(''request_id'', other)] = ''[INFO] '' @ other"
  by (simp add: log_with_request_id_def)

definition header_codes :: "writer_call list \<Rightarrow> int list" where
  "header_codes cs = List.map_filter (\<lambda>c. case c of CallWriteHeader n \<Rightarrow> Some n | _ \<Rightarrow> None) cs"

definition body_bytes :: "(string \<Rightarrow> int) \<Rightarrow> writer_call list \<Rightarrow> int" where
  "body_bytes taken cs = sum_list (map (\<lambda>c. case c of CallWrite b \<Rightarrow> taken b | _ \<Rightarrow> 0) cs)"

lemma run_calls:
  "rw_status (fold (run_call taken fl) cs rw) = (if header_codes cs = [] then rw_status rw else last (header_codes cs)) \<and>
   i64 (rw_bytes (fold (run_call taken fl) cs rw)) = i64 (rw_bytes rw + body_bytes taken cs) \<and>
   filter (\<lambda>c. c \<noteq> CallFlush) (rw_sent (fold (run_call taken fl) cs rw)) =
     filter (\<lambda>c. c \<noteq> CallFlush) (rw_sent rw @ cs)"
proof (induction cs arbitrary: rw)
  case (Cons c cs)
  show ?case
  proof (cases c)
    case (CallWrite b)
    have "i64 (i64 (rw_bytes rw + taken b) + body_bytes taken cs) = i64 (rw_bytes rw + taken b + body_bytes taken cs)"
      by (rule i64_add_left)
    with CallWrite Cons [of "write_body taken b rw"] show ?thesis
      by (simp add: write_body_def header_codes_def map_filter_def body_bytes_def add.assoc)
  qed (use Cons in \<open>simp_all add: write_header_def flush_def header_codes_def map_filter_def body_bytes_def\<close>)
qed (simp add: header_codes_def map_filter_def body_bytes_def)

section \<open>Properties\<close>

text \<open>
  Further result.  One identifier identifies a request everywhere: the one of the client, or a new one, is in the
  response header, in the context the handler sees, and in the log entry.  The handler's calls reach
  the wrapped writer unchanged, and the entry has the status of the last \<open>WriteHeader\<close> (200 without one)
  and the level that belongs to it.
\<close>

theorem request_logger_faithful:
  "case request_logger new_id taken fl t0 t1 handler r of (rid, sent, entry) \<Rightarrow>
     rid = (if lr_request_id r = [] then new_id else lr_request_id r) \<and>
     request_id_from_ctx (with_request_id rid r) = rid \<and>
     filter (\<lambda>c. c \<noteq> CallFlush) sent = filter (\<lambda>c. c \<noteq> CallFlush) (handler (with_request_id rid r)) \<and>
     le_id entry = rid \<and>
     le_status entry = (case header_codes (handler (with_request_id rid r)) of [] \<Rightarrow> 200 | cs \<Rightarrow> last cs) \<and>
     i64 (le_bytes entry) = i64 (body_bytes taken (handler (with_request_id rid r))) \<and>
     le_level entry = log_level (le_status entry)"
  using run_calls [of taken fl "handler (with_request_id (if lr_request_id r = [] then new_id else lr_request_id r) r)"
      "\<lparr>rw_status = 200, rw_bytes = 0, rw_sent = []\<rparr>"]
  by (auto simp: request_logger_def Let_def with_request_id_def request_id_from_ctx_def log_request_entry_def
      split: list.split)

end
