(* ===== verification/Collector.thy ===== *)
theory Collector
  imports Percentile "HOL-Library.AList"
begin

text \<open>
  The metrics collector of the monitoring service, \<open>monitoring/metrics.go\<close>: counters, the ring buffer of
  latency samples, latency statistics and the time series of one-second buckets.  Calls are made one
  after the other; the compare-and-swap of \<open>RingBuffer.Add\<close> then succeeds at once.
\<close>

section \<open>Events and counters\<close>

datatype metric_type =
  MetricCacheHit | MetricCacheMiss | MetricCacheSet | MetricCacheDelete | MetricCacheEviction |
  MetricInvalidation | MetricWarming | MetricError | MetricLatency

record metric_event =
  me_type :: metric_type
  me_value :: f64
  me_at :: time
  me_source :: string
  me_labels :: "(string \<times> string) list"

record counters =
  ct_hits :: int
  ct_misses :: int
  ct_sets :: int
  ct_deletes :: int
  ct_evictions :: int
  ct_invalidations :: int
  ct_warmings :: int
  ct_errors :: int

definition counters_zero :: counters where
  "counters_zero = \<lparr>ct_hits = 0, ct_misses = 0, ct_sets = 0, ct_deletes = 0, ct_evictions = 0,
     ct_invalidations = 0, ct_warmings = 0, ct_errors = 0\<rparr>"

section \<open>The ring buffer\<close>

record sample =
  sm_value :: f64
  sm_at :: time

record ring_buffer =
  rb_buffer :: "sample list"
  rb_head :: nat
  rb_tail :: nat
  rb_size :: nat

definition new_ring_buffer :: "nat \<Rightarrow> ring_buffer" where
  "new_ring_buffer sz = \<lparr>rb_buffer = replicate sz \<lparr>sm_value = Fin 0, sm_at = zero_time\<rparr>, rb_head = 0,
     rb_tail = 0, rb_size = sz\<rparr>"

definition ring_add :: "sample \<Rightarrow> ring_buffer \<Rightarrow> ring_buffer" where
  "ring_add x rb =
     (let head = rb_head rb; next_head = (head + 1) mod rb_size rb
      in rb\<lparr>rb_head := next_head, rb_buffer := (rb_buffer rb)[head := x],
            rb_tail := (if next_head > rb_tail rb then next_head else rb_tail rb)\<rparr>)"

text \<open>The loop from the tail to the head; the fuel is the number of slots, and the loop always ends.\<close>

fun ring_walk :: "nat \<Rightarrow> ring_buffer \<Rightarrow> nat \<Rightarrow> sample list option" where
  "ring_walk fuel rb i =
     (if i = rb_head rb then Some []
      else (case fuel of 0 \<Rightarrow> None
        | Suc fuel' \<Rightarrow>
            map_option (\<lambda>xs. rb_buffer rb ! i # xs) (ring_walk fuel' rb ((i + 1) mod rb_size rb))))"

declare ring_walk.simps [simp del]

definition ring_get_all :: "ring_buffer \<Rightarrow> sample list option" where
  "ring_get_all rb =
     (if rb_head rb = rb_tail rb then Some [] else ring_walk (rb_size rb) rb (rb_tail rb))"

definition ring_get_recent :: "time \<Rightarrow> duration \<Rightarrow> ring_buffer \<Rightarrow> sample list option" where
  "ring_get_recent now d rb =
     map_option (filter (\<lambda>x. time_after (sm_at x) (time_add now (i64 (- d))))) (ring_get_all rb)"

section \<open>Latency statistics\<close>

record latency_stats =
  lt_min :: f64
  lt_max :: f64
  lt_avg :: f64
  lt_p50 :: f64
  lt_p90 :: f64
  lt_p95 :: f64
  lt_p99 :: f64
  lt_count :: int

definition empty_latency_stats :: latency_stats where
  "empty_latency_stats = \<lparr>lt_min = Fin 0, lt_max = Fin 0, lt_avg = Fin 0, lt_p50 = Fin 0, lt_p90 = Fin 0,
     lt_p95 = Fin 0, lt_p99 = Fin 0, lt_count = 0\<rparr>"

definition calculate_latency_stats :: "sample list \<Rightarrow> latency_stats" where
  "calculate_latency_stats samples =
     (if samples = [] then empty_latency_stats
      else
        (let values = map sm_value samples;
             (s, lo, hi) = fold (\<lambda>v (s, lo, hi). (f_add s v, if f_lt v lo then v else lo, if f_lt hi v then v else hi))
               values (Fin 0, max_float64, Fin 0);
             sorted = sort_floats values
         in \<lparr>lt_min = lo, lt_max = hi, lt_avg = f_div s (f_of_int (int (length sorted))),
             lt_p50 = percentile sorted (1 / 2), lt_p90 = percentile sorted (9 / 10),
             lt_p95 = percentile sorted (95 / 100), lt_p99 = percentile sorted (99 / 100),
             lt_count = int (length sorted)\<rparr>))"

section \<open>The time series\<close>

record bucket_1s =
  bu_at :: time
  bu_events :: "metric_event list"
  bu_hits :: int
  bu_misses :: int
  bu_latencies :: "f64 list"
  bu_errors :: int
  bu_invalidations :: int
  bu_warmings :: int

record time_series =
  ts_buckets :: "(int \<times> bucket_1s) list"
  ts_retention :: duration
  ts_last_cleanup :: time

definition new_time_series :: "time \<Rightarrow> duration \<Rightarrow> time_series" where
  "new_time_series now retention = \<lparr>ts_buckets = [], ts_retention = retention, ts_last_cleanup = now\<rparr>"

definition bucket_add :: "metric_event \<Rightarrow> bucket_1s \<Rightarrow> bucket_1s" where
  "bucket_add e b =
     (let b = b\<lparr>bu_events := bu_events b @ [e]\<rparr> in
      case me_type e of
        MetricCacheHit \<Rightarrow> b\<lparr>bu_hits := add64 (bu_hits b) 1\<rparr>
      | MetricCacheMiss \<Rightarrow> b\<lparr>bu_misses := add64 (bu_misses b) 1\<rparr>
      | MetricLatency \<Rightarrow> b\<lparr>bu_latencies := bu_latencies b @ [me_value e]\<rparr>
      | MetricError \<Rightarrow> b\<lparr>bu_errors := add64 (bu_errors b) 1\<rparr>
      | MetricInvalidation \<Rightarrow> b\<lparr>bu_invalidations := add64 (bu_invalidations b) 1\<rparr>
      | MetricWarming \<Rightarrow> b\<lparr>bu_warmings := add64 (bu_warmings b) 1\<rparr>
      | _ \<Rightarrow> b)"

definition ts_cleanup :: "time \<Rightarrow> time_series \<Rightarrow> time_series" where
  "ts_cleanup now ts =
     (let cutoff = unix_seconds (time_add now (i64 (- ts_retention ts)))
      in ts\<lparr>ts_buckets := filter (\<lambda>(key, b). \<not> key < cutoff) (ts_buckets ts)\<rparr>)"

text \<open>Three clock readings: \<open>time.Since\<close>, the one in \<open>cleanup\<close>, and the new \<open>lastCleanup\<close>.\<close>

definition ts_add :: "(nat \<Rightarrow> time) \<Rightarrow> metric_event \<Rightarrow> time_series \<Rightarrow> time_series" where
  "ts_add clock e ts =
     (let key = unix_seconds (me_at e);
          b = (case map_of (ts_buckets ts) key of Some b \<Rightarrow> b
            | None \<Rightarrow> \<lparr>bu_at = key * second, bu_events = [], bu_hits = 0, bu_misses = 0, bu_latencies = [],
                bu_errors = 0, bu_invalidations = 0, bu_warmings = 0\<rparr>);
          ts = ts\<lparr>ts_buckets := AList.update key (bucket_add e b) (ts_buckets ts)\<rparr>
      in if time_sub (clock 0) (ts_last_cleanup ts) > 1 * minute
         then (ts_cleanup (clock 1) ts)\<lparr>ts_last_cleanup := clock 2\<rparr>
         else ts)"

definition ts_get_range :: "time \<Rightarrow> time \<Rightarrow> time_series \<Rightarrow> bucket_1s list" where
  "ts_get_range start stop ts =
     sort_key bu_at (map snd
       (filter (\<lambda>(key, b). key \<ge> unix_seconds start \<and> key \<le> unix_seconds stop) (ts_buckets ts)))"

section \<open>The collector\<close>

record collector =
  mc_counters :: counters
  mc_latency :: ring_buffer
  mc_series :: time_series

definition new_metrics_collector :: "time \<Rightarrow> duration \<Rightarrow> collector" where
  "new_metrics_collector now retention = \<lparr>mc_counters = counters_zero, mc_latency = new_ring_buffer 10000,
     mc_series = new_time_series now retention\<rparr>"

definition count_event :: "metric_event \<Rightarrow> counters \<Rightarrow> counters" where
  "count_event e c =
     (let n = f_to_int (me_value e) in
      case me_type e of
        MetricCacheHit \<Rightarrow> c\<lparr>ct_hits := add64 (ct_hits c) n\<rparr>
      | MetricCacheMiss \<Rightarrow> c\<lparr>ct_misses := add64 (ct_misses c) n\<rparr>
      | MetricCacheSet \<Rightarrow> c\<lparr>ct_sets := add64 (ct_sets c) n\<rparr>
      | MetricCacheDelete \<Rightarrow> c\<lparr>ct_deletes := add64 (ct_deletes c) n\<rparr>
      | MetricCacheEviction \<Rightarrow> c\<lparr>ct_evictions := add64 (ct_evictions c) n\<rparr>
      | MetricInvalidation \<Rightarrow> c\<lparr>ct_invalidations := add64 (ct_invalidations c) n\<rparr>
      | MetricWarming \<Rightarrow> c\<lparr>ct_warmings := add64 (ct_warmings c) n\<rparr>
      | MetricError \<Rightarrow> c\<lparr>ct_errors := add64 (ct_errors c) n\<rparr>
      | MetricLatency \<Rightarrow> c)"

definition record_metric :: "(nat \<Rightarrow> time) \<Rightarrow> metric_event \<Rightarrow> collector \<Rightarrow> collector" where
  "record_metric clock e mc =
     mc\<lparr>mc_counters := count_event e (mc_counters mc),
        mc_latency := (if me_type e = MetricLatency
          then ring_add \<lparr>sm_value = me_value e, sm_at = me_at e\<rparr> (mc_latency mc) else mc_latency mc),
        mc_series := ts_add clock e (mc_series mc)\<rparr>"

definition get_counters :: "collector \<Rightarrow> counters" where
  "get_counters mc = mc_counters mc"

definition get_latency_stats :: "collector \<Rightarrow> latency_stats option" where
  "get_latency_stats mc =
     map_option (\<lambda>samples. if samples = [] then empty_latency_stats else calculate_latency_stats samples)
       (ring_get_all (mc_latency mc))"

section \<open>The ring buffer holds almost nothing\<close>

text \<open>What the buffer contains after a sequence of additions: the head is where it should be, and the
  slots hold the latest samples, but the tail never moves back, so it stays at the last slot.\<close>

definition ring_holds :: "sample list \<Rightarrow> ring_buffer \<Rightarrow> bool" where
  "ring_holds xs rb \<longleftrightarrow> 0 < rb_size rb \<and> length (rb_buffer rb) = rb_size rb \<and>
     rb_head rb = length xs mod rb_size rb \<and> rb_tail rb = min (length xs) (rb_size rb - 1) \<and>
     (\<forall>j < length xs. length xs \<le> j + rb_size rb \<longrightarrow> rb_buffer rb ! (j mod rb_size rb) = xs ! j)"

lemma ring_holds_new: "0 < sz \<Longrightarrow> ring_holds [] (new_ring_buffer sz)"
  by (simp add: ring_holds_def new_ring_buffer_def)

lemma mod_window_inj:
  fixes i j m :: nat
  assumes "i < j" "j < i + m"
  shows "i mod m \<noteq> j mod m"
proof
  assume "i mod m = j mod m"
  then have "m dvd j - i" using assms(1) mod_eq_dvd_iff_nat [of i j m] by simp
  then have "m \<le> j - i" using assms(1) by (simp add: dvd_imp_le)
  with assms show False by linarith
qed

lemma ring_holds_add:
  assumes "ring_holds xs rb"
  shows "ring_holds (xs @ [x]) (ring_add x rb)"
proof -
  let ?n = "length xs" and ?m = "rb_size rb"
  have m: "0 < ?m" "length (rb_buffer rb) = ?m" "rb_head rb = ?n mod ?m" "rb_tail rb = min ?n (?m - 1)"
    and at: "\<And>j. j < ?n \<Longrightarrow> ?n \<le> j + ?m \<Longrightarrow> rb_buffer rb ! (j mod ?m) = xs ! j"
    using assms by (auto simp: ring_holds_def)
  have head: "(?n mod ?m + 1) mod ?m = Suc ?n mod ?m" by (simp add: mod_Suc_eq)
  have tail: "(if (?n mod ?m + 1) mod ?m > rb_tail rb then (?n mod ?m + 1) mod ?m else rb_tail rb) =
      min (Suc ?n) (?m - 1)"
  proof (cases "Suc ?n < ?m")
    case True
    then show ?thesis using m(4) head by auto
  next
    case False
    have "Suc ?n mod ?m < ?m" using m(1) by simp
    then have "Suc ?n mod ?m \<le> ?m - 1" by linarith
    moreover have "rb_tail rb = ?m - 1" using False m(4) by simp
    ultimately show ?thesis using False m(1) head by auto
  qed
  have slots: "(rb_buffer rb)[?n mod ?m := x] ! (j mod ?m) = (xs @ [x]) ! j"
    if "j < Suc ?n" "Suc ?n \<le> j + ?m" for j
  proof (cases "j = ?n")
    case True
    then show ?thesis using m by simp
  next
    case False
    then have j: "j < ?n" using that by simp
    then have "j mod ?m \<noteq> ?n mod ?m" using that by (intro mod_window_inj) auto
    with j that at show ?thesis by (simp add: nth_append)
  qed
  show ?thesis
    using m head tail slots by (auto simp: ring_holds_def ring_add_def Let_def split: if_splits)
qed

lemma ring_holds_fold: "0 < sz \<Longrightarrow> ring_holds xs (fold ring_add xs (new_ring_buffer sz))"
  by (induction xs rule: rev_induct) (simp_all add: ring_holds_new ring_holds_add)

lemma ring_size_fold [simp]: "rb_size (fold ring_add xs rb) = rb_size rb"
  by (induction xs arbitrary: rb) (simp_all add: ring_add_def Let_def)

text \<open>The walk from the slot of sample \<open>k\<close> to the head yields the samples from \<open>k\<close> on.\<close>

lemma ring_walk_drop:
  assumes "ring_holds xs rb" "k \<le> length xs" "length xs < k + rb_size rb" "length xs - k \<le> fuel"
  shows "ring_walk fuel rb (k mod rb_size rb) = Some (drop k xs)"
  using assms(2-4)
proof (induction "length xs - k" arbitrary: k fuel)
  case 0
  with assms(1) show ?case by (subst ring_walk.simps) (simp add: ring_holds_def)
next
  case (Suc d)
  let ?m = "rb_size rb"
  have k: "k < length xs" using Suc(2) by linarith
  have "k mod ?m \<noteq> rb_head rb"
    using mod_window_inj [of k "length xs" ?m] k Suc.prems(2) assms(1) by (simp add: ring_holds_def)
  moreover obtain fuel' where f: "fuel = Suc fuel'" using Suc(2) Suc.prems(3) by (cases fuel) auto
  moreover have "ring_walk fuel' rb (Suc k mod ?m) = Some (drop (Suc k) xs)"
    using Suc(1) [of "Suc k" fuel'] Suc(2) Suc.prems f k by simp
  moreover have "rb_buffer rb ! (k mod ?m) = xs ! k"
    using assms(1) k Suc.prems(2) by (simp add: ring_holds_def)
  ultimately show ?case
    using k by (subst ring_walk.simps) (simp add: mod_Suc_eq Cons_nth_drop_Suc)
qed

lemma ring_get_all_exact:
  assumes "ring_holds xs rb"
  shows "ring_get_all rb = Some (if length xs < rb_size rb then []
    else drop (length xs - (length xs + 1) mod rb_size rb) xs)"
proof (cases "length xs < rb_size rb")
  case True
  with assms show ?thesis by (simp add: ring_holds_def ring_get_all_def)
next
  case False
  let ?n = "length xs" and ?m = "rb_size rb"
  have m: "0 < ?m" "rb_head rb = ?n mod ?m" "rb_tail rb = ?m - 1"
    using assms False by (auto simp: ring_holds_def)
  show ?thesis
  proof (cases "?n mod ?m = ?m - 1")
    case True
    then have "Suc ?n mod ?m = 0" using m(1) by (simp add: mod_Suc)
    with True m False show ?thesis by (simp add: ring_get_all_def)
  next
    case no: False
    define c where "c = ?n mod ?m + 1"
    have "?n mod ?m < ?m" using m(1) by simp
    with no have c: "c < ?m" "(?n + 1) mod ?m = c" by (auto simp: c_def mod_Suc)
    have "?n = ?m * (?n div ?m) + ?n mod ?m" by simp
    moreover have "1 \<le> ?n div ?m" using False m(1) by (simp add: Suc_le_eq div_greater_zero_iff)
    ultimately have nc: "?n - c = ?m * (?n div ?m - 1) + (?m - 1)" "c \<le> ?n"
      using m(1) False c(1) by (cases "?n div ?m"; simp add: c_def algebra_simps)+
    have "(?m * q + r) mod ?m = r mod ?m" for q r by simp
    then have "(?n - c) mod ?m = ?m - 1" unfolding nc(1) using m(1) by (metis diff_less mod_less zero_less_one)
    with ring_walk_drop [OF assms, of "?n - c" ?m] c nc(2) m no False show ?thesis
      by (simp add: ring_get_all_def)
  qed
qed

lemma collector_latency:
  "mc_latency (fold (record_metric clock) es mc) =
     fold ring_add (map (\<lambda>e. \<lparr>sm_value = me_value e, sm_at = me_at e\<rparr>)
       (filter (\<lambda>e. me_type e = MetricLatency) es)) (mc_latency mc)"
  by (induction es arbitrary: mc) (simp_all add: record_metric_def)

section \<open>The time series keeps every event\<close>

abbreviation second_of :: "metric_event \<Rightarrow> int" where
  "second_of e \<equiv> unix_seconds (me_at e)"

definition count_type :: "metric_type \<Rightarrow> metric_event list \<Rightarrow> int" where
  "count_type t es = int (length (filter (\<lambda>e. me_type e = t) es))"

definition bucket_holds :: "metric_event list \<Rightarrow> int \<Rightarrow> bucket_1s \<Rightarrow> bool" where
  "bucket_holds es k b \<longleftrightarrow> bu_at b = k * second \<and> bu_events b = filter (\<lambda>e. second_of e = k) es \<and>
     bu_hits b = i64 (count_type MetricCacheHit (bu_events b)) \<and>
     bu_misses b = i64 (count_type MetricCacheMiss (bu_events b)) \<and>
     bu_latencies b = map me_value (filter (\<lambda>e. me_type e = MetricLatency) (bu_events b))"

definition series_holds :: "metric_event list \<Rightarrow> time_series \<Rightarrow> bool" where
  "series_holds es ts \<longleftrightarrow> distinct (map fst (ts_buckets ts)) \<and>
     fst ` set (ts_buckets ts) = second_of ` set es \<and> (\<forall>(k, b) \<in> set (ts_buckets ts). bucket_holds es k b)"

lemma bucket_add_keeps:
  "bu_at (bucket_add e b) = bu_at b" "bu_events (bucket_add e b) = bu_events b @ [e]"
  "bu_hits (bucket_add e b) = (if me_type e = MetricCacheHit then add64 (bu_hits b) 1 else bu_hits b)"
  "bu_misses (bucket_add e b) = (if me_type e = MetricCacheMiss then add64 (bu_misses b) 1 else bu_misses b)"
  "bu_latencies (bucket_add e b) =
     (if me_type e = MetricLatency then bu_latencies b @ [me_value e] else bu_latencies b)"
  by (auto simp: bucket_add_def Let_def split: metric_type.split)

lemma add64_count: "add64 (i64 (count_type t es)) 1 = i64 (count_type t es + 1)"
  by (simp add: add64_def i64_add_left)

lemma bucket_holds_add:
  assumes "bucket_holds es (second_of e) b"
  shows "bucket_holds (es @ [e]) (second_of e) (bucket_add e b)"
  using assms add64_count [of MetricCacheHit] add64_count [of MetricCacheMiss]
  by (simp add: bucket_holds_def bucket_add_keeps) (simp add: count_type_def add.commute)

lemma bucket_holds_other: "bucket_holds es k b \<Longrightarrow> second_of e \<noteq> k \<Longrightarrow> bucket_holds (es @ [e]) k b"
  by (simp add: bucket_holds_def)

lemma series_holds_add:
  assumes "series_holds es ts" "\<not> time_sub (clock 0) (ts_last_cleanup ts) > 1 * minute"
  shows "series_holds (es @ [e]) (ts_add clock e ts) \<and> ts_last_cleanup (ts_add clock e ts) = ts_last_cleanup ts"
proof -
  let ?k = "second_of e"
  define b where "b = (case map_of (ts_buckets ts) ?k of Some b \<Rightarrow> b
    | None \<Rightarrow> \<lparr>bu_at = ?k * second, bu_events = [], bu_hits = 0, bu_misses = 0, bu_latencies = [],
        bu_errors = 0, bu_invalidations = 0, bu_warmings = 0\<rparr>)"
  let ?bs = "AList.update ?k (bucket_add e b) (ts_buckets ts)"
  have dist: "distinct (map fst (ts_buckets ts))" using assms(1) by (simp add: series_holds_def)
  have ts: "ts_add clock e ts = ts\<lparr>ts_buckets := ?bs\<rparr>"
    using assms(2) by (simp add: ts_add_def Let_def b_def)
  have b: "bucket_holds es ?k b"
  proof (cases "map_of (ts_buckets ts) ?k")
    case None
    then have "?k \<notin> second_of ` set es"
      using assms(1) by (simp add: series_holds_def map_of_eq_None_iff)
    then have "filter (\<lambda>x. second_of x = ?k) es = []" by (auto simp: filter_empty_conv image_iff)
    with None show ?thesis by (simp add: b_def bucket_holds_def count_type_def in_i64_def)
  next
    case (Some b')
    then have "(?k, b') \<in> set (ts_buckets ts)" by (rule map_of_SomeD)
    with Some assms(1) show ?thesis by (auto simp: b_def series_holds_def)
  qed
  have dist': "distinct (map fst ?bs)" using dist by (rule distinct_update)
  have ok: "bucket_holds (es @ [e]) k' b'" if "(k', b') \<in> set ?bs" for k' b'
  proof -
    have m: "((map_of (ts_buckets ts))(?k \<mapsto> bucket_add e b)) k' = Some b'"
      using that al_in_map_of [OF dist'] unfolding al_update_map_of by blast
    show ?thesis
    proof (cases "k' = ?k")
      case True
      with m b show ?thesis using bucket_holds_add by auto
    next
      case False
      with m have "(k', b') \<in> set (ts_buckets ts)" by (simp add: map_of_SomeD)
      with assms(1) False show ?thesis by (auto simp: series_holds_def intro: bucket_holds_other)
    qed
  qed
  have "fst ` set ?bs = second_of ` set (es @ [e])"
    using assms(1) by (simp add: series_holds_def dom_update)
  with ok dist show ?thesis by (auto simp: ts series_holds_def distinct_update)
qed

lemma series_holds_fold:
  assumes "\<not> time_sub (clock 0) now > 1 * minute"
  shows "series_holds es (fold (ts_add clock) es (new_time_series now r)) \<and>
    ts_last_cleanup (fold (ts_add clock) es (new_time_series now r)) = now"
proof (induction es rule: rev_induct)
  case (snoc e es)
  then show ?case using series_holds_add [of es _ clock e] assms by simp
qed (simp add: series_holds_def new_time_series_def)

lemma mset_concat_sort: "mset (concat (map f (sort_key g xs))) = mset (concat (map f xs))"
proof -
  have "mset (concat (map f ys)) = sum_mset (image_mset (\<lambda>x. mset (f x)) (mset ys))" for ys
    by (induction ys) simp_all
  then show ?thesis by simp
qed

lemma mset_by_second:
  assumes "distinct ks" "\<And>e. e \<in> set es \<Longrightarrow> P (f e) \<Longrightarrow> f e \<in> set ks" "\<And>k. k \<in> set ks \<Longrightarrow> P k"
  shows "mset (concat (map (\<lambda>k. filter (\<lambda>e. f e = k) es) ks)) = mset (filter (\<lambda>e. P (f e)) es)"
proof -
  have "mset (concat (map (\<lambda>k. filter (\<lambda>e. f e = k) es) ks)) = mset (filter (\<lambda>e. f e \<in> set ks) es)"
    using assms(1)
  proof (induction ks)
    case (Cons k ks)
    have "mset (filter (\<lambda>e. f e = k) xs) + mset (filter (\<lambda>e. f e \<in> set ks) xs) =
        mset (filter (\<lambda>e. f e = k \<or> f e \<in> set ks) xs)" for xs
      using Cons.prems by (induction xs) auto
    with Cons show ?case by simp
  qed simp
  moreover have "filter (\<lambda>e. f e \<in> set ks) es = filter (\<lambda>e. P (f e)) es"
    using assms(2,3) by (intro filter_cong) auto
  ultimately show ?thesis by simp
qed

section \<open>Properties\<close>

text \<open>
  Property C29.  The ring buffer of size \<open>n + 1\<close> loses samples: until it has wrapped around it reports none at
  all, and afterwards it reports the latest \<open>(k + 1) mod (n + 1)\<close> of \<open>k\<close> samples, so once per round it is
  empty again.  The collector therefore reports no latency at all before the 10000th sample.
\<close>

theorem ring_buffer_loses_samples:
  "ring_get_all (fold ring_add xs (new_ring_buffer (Suc n))) =
     Some (if length xs < Suc n then []
       else drop (length xs - (length xs + 1) mod Suc n) xs) \<and>
   (length (filter (\<lambda>e. me_type e = MetricLatency) es) < 10000 \<longrightarrow>
    get_latency_stats (fold (record_metric clock) es (new_metrics_collector now r)) =
      Some empty_latency_stats)"
proof
  let ?ls = "\<lambda>es. map (\<lambda>e. \<lparr>sm_value = me_value e, sm_at = me_at e\<rparr>)
    (filter (\<lambda>e. me_type e = MetricLatency) es)"
  have all: "ring_get_all (fold ring_add xs (new_ring_buffer sz)) =
      Some (if length xs < sz then [] else drop (length xs - (length xs + 1) mod sz) xs)"
    if "0 < sz" for xs sz
    using ring_get_all_exact [OF ring_holds_fold [OF that, of xs]] by (simp add: new_ring_buffer_def)
  show "ring_get_all (fold ring_add xs (new_ring_buffer (Suc n))) = Some (if length xs < Suc n then []
      else drop (length xs - (length xs + 1) mod Suc n) xs)"
    using all [of "Suc n" xs] by simp
  show "length (filter (\<lambda>e. me_type e = MetricLatency) es) < 10000 \<longrightarrow>
    get_latency_stats (fold (record_metric clock) es (new_metrics_collector now r)) =
      Some empty_latency_stats"
    using all [of 10000 "?ls es"]
    by (simp add: get_latency_stats_def collector_latency new_metrics_collector_def)
qed

theorem ring_buffer_loses_samples_witness:
  "get_latency_stats (fold (record_metric (\<lambda>_. 0))
      (replicate 9 \<lparr>me_type = MetricLatency, me_value = Fin 250, me_at = 0, me_source = [], me_labels = []\<rparr>)
      (new_metrics_collector 0 hour)) = Some empty_latency_stats"
  using ring_buffer_loses_samples [of "[]" 0
      "replicate 9 \<lparr>me_type = MetricLatency, me_value = Fin 250, me_at = 0, me_source = [], me_labels = []\<rparr>"
      "\<lambda>_. 0" 0 hour]
  by simp

text \<open>A query after the given events have been recorded with one reading of the clock.\<close>

definition recorded_range ::
    "(nat \<Rightarrow> time) \<Rightarrow> time \<Rightarrow> duration \<Rightarrow> metric_event list \<Rightarrow> time \<Rightarrow> time \<Rightarrow> bucket_1s list" where
  "recorded_range clock now r es start stop =
     ts_get_range start stop (fold (ts_add clock) es (new_time_series now r))"



end
