(* ===== verification/Aggregator.thy ===== *)
theory Aggregator
  imports Collector
begin

text \<open>
  The aggregator of the monitoring service, \<open>monitoring/aggregator.go\<close>: the sliding windows of snapshots,
  statistics of a time range, and the anomaly detector with its rolling statistics.
\<close>

section \<open>Aggregated statistics\<close>

record aggregated_stats =
  as_at :: time
  as_total :: int
  as_hits :: int
  as_misses :: int
  as_hit_rate :: f64
  as_qps :: f64
  as_avg :: f64
  as_p50 :: f64
  as_p90 :: f64
  as_p95 :: f64
  as_p99 :: f64
  as_error_rate :: f64
  as_invalidations :: int
  as_warmings :: int
  as_evictions :: int

definition empty_stats :: aggregated_stats where
  "empty_stats = \<lparr>as_at = zero_time, as_total = 0, as_hits = 0, as_misses = 0, as_hit_rate = Fin 0,
     as_qps = Fin 0, as_avg = Fin 0, as_p50 = Fin 0, as_p90 = Fin 0, as_p95 = Fin 0, as_p99 = Fin 0,
     as_error_rate = Fin 0, as_invalidations = 0, as_warmings = 0, as_evictions = 0\<rparr>"

definition calculate_hit_rate :: "int \<Rightarrow> int \<Rightarrow> f64" where
  "calculate_hit_rate hits misses =
     (let n = add64 hits misses in if n = 0 then Fin 0 else f_div (f_of_int hits) (f_of_int n))"

definition calculate_error_rate :: "int \<Rightarrow> int \<Rightarrow> f64" where
  "calculate_error_rate errors n = (if n = 0 then Fin 0 else f_div (f_of_int errors) (f_of_int n))"

text \<open>\<open>Duration.Seconds\<close>.\<close>

definition in_seconds :: "duration \<Rightarrow> f64" where
  "in_seconds d = f_add (f_of_int (go_div d second))
     (f_div (f_of_int (d - go_div d second * second)) (f_of_int 1000000000))"

definition qps_of :: "int \<Rightarrow> duration \<Rightarrow> f64" where
  "qps_of n d = (if f_lt (Fin 0) (in_seconds d) then f_div (f_of_int n) (in_seconds d) else Fin 0)"

section \<open>Sliding windows\<close>

record sliding_window =
  sw_duration :: duration
  sw_buffer :: "aggregated_stats list"
  sw_capacity :: nat
  sw_head :: nat

definition new_sliding_window :: "duration \<Rightarrow> sliding_window" where
  "new_sliding_window d =
     (let capacity = nat (f_to_int (in_seconds d) + 1)
      in \<lparr>sw_duration = d, sw_buffer = replicate capacity empty_stats, sw_capacity = capacity, sw_head = 0\<rparr>)"

definition sw_add :: "aggregated_stats \<Rightarrow> sliding_window \<Rightarrow> sliding_window" where
  "sw_add st w = w\<lparr>sw_buffer := (sw_buffer w)[sw_head w := st], sw_head := (sw_head w + 1) mod sw_capacity w\<rparr>"

definition sw_get_range :: "time \<Rightarrow> time \<Rightarrow> sliding_window \<Rightarrow> aggregated_stats list" where
  "sw_get_range start stop w =
     filter (\<lambda>st. as_at st \<noteq> zero_time \<and> \<not> time_before (as_at st) start \<and> \<not> time_after (as_at st) stop)
       (sw_buffer w)"

definition sw_get_latest :: "sliding_window \<Rightarrow> aggregated_stats" where
  "sw_get_latest w = sw_buffer w ! ((sw_head w + sw_capacity w - 1) mod sw_capacity w)"

section \<open>Rolling statistics\<close>

record historical_stats =
  hs_values :: "f64 list"
  hs_count :: nat
  hs_index :: nat
  hs_mean :: f64
  hs_m2 :: f64

definition new_historical_stats :: "nat \<Rightarrow> historical_stats" where
  "new_historical_stats capacity = \<lparr>hs_values = replicate capacity (Fin 0), hs_count = 0, hs_index = 0,
     hs_mean = Fin 0, hs_m2 = Fin 0\<rparr>"

definition hs_add :: "f64 \<Rightarrow> historical_stats \<Rightarrow> historical_stats" where
  "hs_add v h =
     (let h = (if hs_count h < length (hs_values h) then h\<lparr>hs_count := hs_count h + 1\<rparr>
            else
              (let old_value = hs_values h ! hs_index h;
                   old_mean = hs_mean h;
                   m = f_sub (hs_mean h) (f_div (f_sub old_value (hs_mean h)) (f_of_int (int (hs_count h))))
               in h\<lparr>hs_mean := m,
                    hs_m2 := f_sub (hs_m2 h) (f_mul (f_sub old_value old_mean) (f_sub old_value m))\<rparr>));
          old_mean = hs_mean h;
          m = f_add (hs_mean h) (f_div (f_sub v (hs_mean h)) (f_of_int (int (hs_count h))))
      in h\<lparr>hs_values := (hs_values h)[hs_index h := v], hs_mean := m,
           hs_m2 := f_add (hs_m2 h) (f_mul (f_sub v old_mean) (f_sub v m)),
           hs_index := (hs_index h + 1) mod length (hs_values h)\<rparr>)"

definition hs_mean_std_dev :: "historical_stats \<Rightarrow> f64 \<times> f64" where
  "hs_mean_std_dev h =
     (if hs_count h < 2 then (hs_mean h, Fin 0)
      else (hs_mean h, f_sqrt (f_div (hs_m2 h) (f_of_int (int (hs_count h) - 1)))))"

section \<open>Anomalies\<close>

datatype anomaly_type = AnomalyLatencySpike | AnomalyHitRateDrop | AnomalyErrorRateSpike | AnomalyQPSAnomaly

record anomaly =
  an_type :: anomaly_type
  an_severity :: string
  an_metric :: string
  an_value :: f64
  an_expected :: f64
  an_deviation :: f64
  an_at :: time
  an_message :: string

record anomaly_detector =
  ad_hit_rate :: historical_stats
  ad_latency :: historical_stats
  ad_error_rate :: historical_stats
  ad_qps :: historical_stats
  ad_anomalies :: "anomaly list"

definition new_anomaly_detector :: anomaly_detector where
  "new_anomaly_detector = \<lparr>ad_hit_rate = new_historical_stats 100, ad_latency = new_historical_stats 100,
     ad_error_rate = new_historical_stats 100, ad_qps = new_historical_stats 100, ad_anomalies = []\<rparr>"

definition calculate_severity :: "f64 \<Rightarrow> string" where
  "calculate_severity z =
     (let a = f_abs z in
      if f_lt (Fin 5) a then ''critical''
      else if f_lt (Fin 4) a then ''high''
      else if f_lt (f_const (7 / 2)) a then ''medium''
      else ''low'')"

definition detect_hit_rate :: "time \<Rightarrow> aggregated_stats \<Rightarrow> historical_stats \<Rightarrow> anomaly list" where
  "detect_hit_rate now st h =
     (if 10 < hs_count h then
        (let (mean, stddev) = hs_mean_std_dev h; z = f_div (f_sub (as_hit_rate st) mean) stddev
         in if f_lt z (Fin (- 3)) then
              [\<lparr>an_type = AnomalyHitRateDrop, an_severity = calculate_severity z, an_metric = ''hit_rate'',
                an_value = as_hit_rate st, an_expected = mean, an_deviation = z, an_at = now,
                an_message = ''Cache hit rate dropped below expected range''\<rparr>]
            else [])
      else [])"

definition detect_latency :: "time \<Rightarrow> aggregated_stats \<Rightarrow> historical_stats \<Rightarrow> anomaly list" where
  "detect_latency now st h =
     (if 10 < hs_count h then
        (let (mean, stddev) = hs_mean_std_dev h; z = f_div (f_sub (as_p95 st) mean) stddev
         in if f_lt (Fin 3) z then
              [\<lparr>an_type = AnomalyLatencySpike, an_severity = calculate_severity z, an_metric = ''p95_latency'',
                an_value = as_p95 st, an_expected = mean, an_deviation = z, an_at = now,
                an_message = ''P95 latency significantly higher than baseline''\<rparr>]
            else [])
      else [])"

definition detect_error_rate :: "time \<Rightarrow> aggregated_stats \<Rightarrow> historical_stats \<Rightarrow> anomaly list" where
  "detect_error_rate now st h =
     (if 10 < hs_count h then
        (let (mean, stddev) = hs_mean_std_dev h in
         if f_lt (Fin 0) stddev then
           (let z = f_div (f_sub (as_error_rate st) mean) stddev
            in if f_lt (Fin 3) z then
                 [\<lparr>an_type = AnomalyErrorRateSpike, an_severity = ''critical'', an_metric = ''error_rate'',
                   an_value = as_error_rate st, an_expected = mean, an_deviation = z, an_at = now,
                   an_message = ''Error rate significantly elevated''\<rparr>]
               else [])
         else [])
      else [])"

definition detect_qps :: "time \<Rightarrow> aggregated_stats \<Rightarrow> historical_stats \<Rightarrow> anomaly list" where
  "detect_qps now st h =
     (if 10 < hs_count h then
        (let (mean, stddev) = hs_mean_std_dev h in
         if f_lt (Fin 0) stddev then
           (let z = f_abs (f_div (f_sub (as_qps st) mean) stddev)
            in if f_lt (Fin 4) z then
                 [\<lparr>an_type = AnomalyQPSAnomaly, an_severity = calculate_severity z, an_metric = ''qps'',
                   an_value = as_qps st, an_expected = mean, an_deviation = z, an_at = now,
                   an_message = ''Unusual traffic pattern detected''\<rparr>]
               else [])
         else [])
      else [])"

definition keep_last :: "nat \<Rightarrow> 'a list \<Rightarrow> 'a list" where
  "keep_last n xs = (if length xs > n then drop (length xs - n) xs else xs)"

definition ad_detect :: "time \<Rightarrow> aggregated_stats \<Rightarrow> anomaly_detector \<Rightarrow> anomaly_detector" where
  "ad_detect now st ad =
     (let ad = ad\<lparr>ad_hit_rate := hs_add (as_hit_rate st) (ad_hit_rate ad),
            ad_latency := hs_add (as_p95 st) (ad_latency ad),
            ad_error_rate := hs_add (as_error_rate st) (ad_error_rate ad),
            ad_qps := hs_add (as_qps st) (ad_qps ad)\<rparr>
      in ad\<lparr>ad_anomalies := keep_last 100 (ad_anomalies ad @ detect_hit_rate now st (ad_hit_rate ad) @
             detect_latency now st (ad_latency ad) @ detect_error_rate now st (ad_error_rate ad) @
             detect_qps now st (ad_qps ad))\<rparr>)"

definition get_recent_anomalies :: "time \<Rightarrow> duration \<Rightarrow> anomaly_detector \<Rightarrow> anomaly list" where
  "get_recent_anomalies now d ad =
     filter (\<lambda>a. time_after (an_at a) (time_add now (i64 (- d)))) (ad_anomalies ad)"

section \<open>The aggregator\<close>

record aggregator =
  ag_1s :: sliding_window
  ag_10s :: sliding_window
  ag_1m :: sliding_window
  ag_detector :: anomaly_detector
  ag_stopped :: bool

definition new_aggregator :: aggregator where
  "new_aggregator = \<lparr>ag_1s = new_sliding_window (1 * second), ag_10s = new_sliding_window (10 * second),
     ag_1m = new_sliding_window (1 * minute), ag_detector = new_anomaly_detector, ag_stopped = False\<rparr>"

definition snapshot_of :: "time \<Rightarrow> counters \<Rightarrow> latency_stats \<Rightarrow> aggregated_stats" where
  "snapshot_of now c l =
     (let n = add64 (ct_hits c) (ct_misses c)
      in \<lparr>as_at = now, as_total = n, as_hits = ct_hits c, as_misses = ct_misses c,
          as_hit_rate = calculate_hit_rate (ct_hits c) (ct_misses c), as_qps = Fin 0, as_avg = lt_avg l,
          as_p50 = lt_p50 l, as_p90 = lt_p90 l, as_p95 = lt_p95 l, as_p99 = lt_p99 l,
          as_error_rate = calculate_error_rate (ct_errors c) n, as_invalidations = ct_invalidations c,
          as_warmings = ct_warmings c, as_evictions = ct_evictions c\<rparr>)"

text \<open>One tick; \<open>l\<close> are the collector's latency statistics.\<close>

definition ag_aggregate :: "(nat \<Rightarrow> time) \<Rightarrow> counters \<Rightarrow> latency_stats \<Rightarrow> aggregator \<Rightarrow> aggregator" where
  "ag_aggregate clock c l a =
     (let snap = snapshot_of (clock 0) c l
      in a\<lparr>ag_1s := sw_add snap (ag_1s a), ag_10s := sw_add snap (ag_10s a), ag_1m := sw_add snap (ag_1m a),
           ag_detector := ad_detect (clock 1) snap (ag_detector a)\<rparr>)"

definition sum_f :: "f64 list \<Rightarrow> f64" where
  "sum_f xs = fold (\<lambda>x s. f_add s x) xs (Fin 0)"

definition sum_64 :: "int list \<Rightarrow> int" where
  "sum_64 xs = fold (\<lambda>x s. add64 s x) xs 0"

text \<open>The variable for the errors is declared and never added to.\<close>

definition aggregate_snapshots :: "aggregated_stats list \<Rightarrow> duration \<Rightarrow> aggregated_stats" where
  "aggregate_snapshots snaps d =
     (if snaps = [] then empty_stats
      else
        (let count = f_of_int (int (length snaps));
             n = sum_64 (map as_total snaps);
             hits = sum_64 (map as_hits snaps);
             misses = sum_64 (map as_misses snaps);
             errors = 0
         in \<lparr>as_at = as_at (last snaps), as_total = n, as_hits = hits, as_misses = misses,
             as_hit_rate = calculate_hit_rate hits misses, as_qps = qps_of n d,
             as_avg = f_div (sum_f (map as_avg snaps)) count, as_p50 = f_div (sum_f (map as_p50 snaps)) count,
             as_p90 = f_div (sum_f (map as_p90 snaps)) count, as_p95 = f_div (sum_f (map as_p95 snaps)) count,
             as_p99 = f_div (sum_f (map as_p99 snaps)) count, as_error_rate = calculate_error_rate errors n,
             as_invalidations = sum_64 (map as_invalidations snaps),
             as_warmings = sum_64 (map as_warmings snaps), as_evictions = sum_64 (map as_evictions snaps)\<rparr>))"

text \<open>Here it is the evictions that are never added to.\<close>

definition aggregate_from_series :: "time \<Rightarrow> time \<Rightarrow> time_series \<Rightarrow> aggregated_stats" where
  "aggregate_from_series start stop ts =
     (let bs = ts_get_range start stop ts;
          hits = sum_64 (map bu_hits bs); misses = sum_64 (map bu_misses bs);
          errors = sum_64 (map bu_errors bs);
          latencies = concat (map bu_latencies bs);
          l = (if latencies = [] then empty_latency_stats
            else calculate_latency_stats (map (\<lambda>x. \<lparr>sm_value = x, sm_at = zero_time\<rparr>) latencies));
          d = time_sub stop start;
          n = add64 hits misses
      in \<lparr>as_at = stop, as_total = n, as_hits = hits, as_misses = misses,
          as_hit_rate = calculate_hit_rate hits misses, as_qps = qps_of n d, as_avg = lt_avg l,
          as_p50 = lt_p50 l, as_p90 = lt_p90 l, as_p95 = lt_p95 l, as_p99 = lt_p99 l,
          as_error_rate = calculate_error_rate errors n,
          as_invalidations = sum_64 (map bu_invalidations bs), as_warmings = sum_64 (map bu_warmings bs),
          as_evictions = 0\<rparr>)"

definition ag_get_stats :: "time \<Rightarrow> time \<Rightarrow> time_series \<Rightarrow> aggregator \<Rightarrow> aggregated_stats" where
  "ag_get_stats start stop ts a =
     (let d = time_sub stop start in
      if d \<le> 1 * second then aggregate_snapshots (sw_get_range start stop (ag_1s a)) d
      else if d \<le> 10 * second then aggregate_snapshots (sw_get_range start stop (ag_10s a)) d
      else if d \<le> 1 * minute then aggregate_snapshots (sw_get_range start stop (ag_1m a)) d
      else aggregate_from_series start stop ts)"

section \<open>Lemmas on windows\<close>

lemma set_keep_last: "set (keep_last n xs) \<subseteq> set xs"
  by (auto simp: keep_last_def dest: in_set_dropD)

lemma length_keep_last: "length (keep_last n xs) \<le> n"
  by (simp add: keep_last_def)

text \<open>Until a window is full its first slots hold the snapshots in order.\<close>

lemma sw_fill:
  assumes "length xs \<le> cap" "0 < cap"
  shows "fold sw_add xs \<lparr>sw_duration = d, sw_buffer = replicate cap empty_stats, sw_capacity = cap, sw_head = 0\<rparr> =
    \<lparr>sw_duration = d, sw_buffer = xs @ replicate (cap - length xs) empty_stats, sw_capacity = cap,
     sw_head = length xs mod cap\<rparr>"
  using assms(1)
proof (induction xs rule: rev_induct)
  case (snoc x xs)
  then have "replicate (cap - length xs) empty_stats = empty_stats # replicate (cap - Suc (length xs)) empty_stats"
    by (metis Suc_diff_Suc Suc_le_lessD length_append_singleton replicate_Suc)
  with snoc show ?case by (simp add: sw_add_def mod_Suc_eq)
qed simp

lemma capacity_1m: "new_sliding_window (1 * minute) = \<lparr>sw_duration = 1 * minute,
    sw_buffer = replicate 61 empty_stats, sw_capacity = 61, sw_head = 0\<rparr>"
proof -
  have "in_seconds (1 * minute) = Fin 60"
    using fl_int [of 60] by (simp add: in_seconds_def time_units go_div_def f_of_int_small)
  then show ?thesis by (simp add: new_sliding_window_def Let_def rat_trunc_def in_i64_def)
qed

lemma sum_64_eq: "sum_64 xs = i64 (sum_list xs)"
proof -
  have "fold (\<lambda>x s. add64 s x) xs (i64 s) = i64 (s + sum_list xs)" for s
  proof (induction xs arbitrary: s)
    case (Cons x xs)
    have "add64 (i64 s) x = i64 (s + x)" by (simp add: add64_def i64_add_left)
    with Cons [of "s + x"] show ?case by (simp add: add.assoc)
  qed simp
  from this [of 0] show ?thesis by (simp add: sum_64_def in_i64_def)
qed

lemma no_errors: "in_i64 n \<Longrightarrow> calculate_error_rate 0 n = Fin 0"
proof -
  assume n: "in_i64 n"
  have "rnd (of_int n) \<noteq> 0" if "n \<noteq> 0"
    using that rnd_mono [of 1 "of_int n"] rnd_mono [of "of_int n" "- 1"] rnd_int [of 1] rnd_int [of "- 1"]
    by (cases "0 < n") auto
  with n show ?thesis by (simp add: calculate_error_rate_def f_of_int_Fin f_of_int_small)
qed

text \<open>Ticks of the aggregator at the given times, with counters that do not change.\<close>

definition quiet_ticks :: "counters \<Rightarrow> latency_stats \<Rightarrow> time list \<Rightarrow> aggregator" where
  "quiet_ticks c l ts = fold (\<lambda>t. ag_aggregate (\<lambda>_. t) c l) ts new_aggregator"

lemma quiet_window: "ag_1m (quiet_ticks c l ts) = fold sw_add (map (\<lambda>t. snapshot_of t c l) ts) (ag_1m new_aggregator)"
  unfolding quiet_ticks_def by (induction ts rule: rev_induct) (simp_all add: ag_aggregate_def Let_def)

section \<open>Lemmas on the rolling statistics\<close>

definition flat_zero :: "historical_stats \<Rightarrow> bool" where
  "flat_zero h \<longleftrightarrow> hs_mean h = Fin 0 \<and> hs_m2 h = Fin 0 \<and> set (hs_values h) \<subseteq> {Fin 0} \<and>
     hs_count h \<le> length (hs_values h) \<and> hs_index h < length (hs_values h) \<and> length (hs_values h) = 100"

lemma flat_zero_new: "flat_zero (new_historical_stats 100)"
  by (simp add: flat_zero_def new_historical_stats_def)

lemma flat_zero_add:
  assumes "flat_zero h"
  shows "flat_zero (hs_add (Fin 0) h)"
proof -
  have idx: "hs_index h < 100" "length (hs_values h) = 100" "hs_count h \<le> 100"
    using assms by (simp_all add: flat_zero_def)
  have old: "hs_values h ! hs_index h = Fin 0" using assms by (auto simp: flat_zero_def dest!: nth_mem)
  have quot: "f_div (f_sub (Fin 0) (Fin 0)) (f_of_int (int n)) = Fin 0" if "0 < n" "n \<le> 100" for n
    using that by (simp add: f_sub_def f_of_int_small)
  have upd: "set ((hs_values h)[hs_index h := Fin 0]) \<subseteq> {Fin 0}"
    using assms set_update_subset_insert [of "hs_values h"] by (fastforce simp: flat_zero_def)
  show ?thesis
  proof (cases "hs_count h < 100")
    case True
    with assms idx upd quot [of "Suc (hs_count h)"] show ?thesis
      by (simp add: flat_zero_def hs_add_def Let_def f_sub_def)
  next
    case False
    with idx have "hs_count h = 100" by simp
    with assms idx upd old quot [of 100] show ?thesis
      by (simp add: flat_zero_def hs_add_def Let_def f_sub_def)
  qed
qed

lemma flat_zero_quiet: "flat_zero h \<Longrightarrow> detect_qps now st h = []"
proof -
  assume h: "flat_zero h"
  have "f_div (Fin 0) (f_of_int (int (hs_count h) - 1)) = Fin 0" if "2 \<le> hs_count h"
    using h that by (simp add: flat_zero_def f_of_int_small)
  with h show ?thesis by (simp add: detect_qps_def hs_mean_std_dev_def flat_zero_def)
qed

lemma detected_types:
  "x \<in> set (detect_hit_rate n st h) \<Longrightarrow> an_type x = AnomalyHitRateDrop"
  "x \<in> set (detect_latency n st h) \<Longrightarrow> an_type x = AnomalyLatencySpike"
  "x \<in> set (detect_error_rate n st h) \<Longrightarrow> an_type x = AnomalyErrorRateSpike"
  by (auto simp: detect_hit_rate_def detect_latency_def detect_error_rate_def Let_def split: if_splits prod.splits)

definition no_qps_anomaly :: "aggregator \<Rightarrow> bool" where
  "no_qps_anomaly a \<longleftrightarrow> flat_zero (ad_qps (ag_detector a)) \<and>
     (\<forall>x \<in> set (ad_anomalies (ag_detector a)). an_type x \<noteq> AnomalyQPSAnomaly)"

lemma no_qps_anomaly_step: "no_qps_anomaly a \<Longrightarrow> no_qps_anomaly (ag_aggregate clock c l a)"
proof -
  assume a: "no_qps_anomaly a"
  have "flat_zero (hs_add (as_qps (snapshot_of (clock 0) c l)) (ad_qps (ag_detector a)))"
    using a flat_zero_add by (simp add: no_qps_anomaly_def snapshot_of_def Let_def)
  then show ?thesis
    using a set_keep_last
    by (fastforce simp: no_qps_anomaly_def ag_aggregate_def ad_detect_def Let_def flat_zero_quiet dest: detected_types)
qed

section \<open>Properties\<close>

text \<open>
  Further result.  Short ranges are counted repeatedly: the windows hold snapshots of counters that were summed
  since the start, and a query adds the snapshots up.  Without any traffic, after \<open>n\<close> ticks a query
  over them reports \<open>n\<close> times the requests made so far, and an error rate of zero whatever the number of
  errors.
\<close>

theorem window_counts_repeatedly:
  assumes "11 < n" "n \<le> 61"
  shows "as_total (ag_get_stats (1 * second) (int n * second) ts
        (quiet_ticks c l (map (\<lambda>i. int i * second) [1..<Suc n]))) =
      i64 (int n * i64 (ct_hits c + ct_misses c)) \<and>
    as_error_rate (ag_get_stats (1 * second) (int n * second) ts
        (quiet_ticks c l (map (\<lambda>i. int i * second) [1..<Suc n]))) = Fin 0"
proof -
  let ?a = "quiet_ticks c l (map (\<lambda>i. int i * second) [1..<Suc n])"
  let ?snaps = "map (\<lambda>i. snapshot_of (int i * second) c l) [1..<Suc n]"
  have d: "time_sub (int n * second) (1 * second) = (int n - 1) * second"
    using assms(2) by (simp add: time_sub_def second_def max_duration_def min_duration_def algebra_simps)
  have "ag_1m ?a = fold sw_add ?snaps (new_sliding_window (1 * minute))"
    by (simp add: quiet_window new_aggregator_def comp_def del: upt_Suc)
  also have "\<dots> = \<lparr>sw_duration = 1 * minute, sw_buffer = ?snaps @ replicate (61 - n) empty_stats,
      sw_capacity = 61, sw_head = n mod 61\<rparr>"
    unfolding capacity_1m using sw_fill [of ?snaps 61 "1 * minute"] assms(2) by (simp del: upt_Suc)
  finally have "sw_get_range (1 * second) (int n * second) (ag_1m ?a) =
      filter (\<lambda>st. as_at st \<noteq> zero_time \<and> \<not> time_before (as_at st) (1 * second) \<and>
        \<not> time_after (as_at st) (int n * second)) ?snaps"
    by (simp add: sw_get_range_def empty_stats_def del: upt_Suc)
  also have "\<dots> = ?snaps"
    by (rule filter_True)
      (auto simp: snapshot_of_def Let_def zero_time_def time_before_def time_after_def second_def)
  finally have range: "sw_get_range (1 * second) (int n * second) (ag_1m ?a) = ?snaps" .
  have "11 \<le> int n - 1" "int n - 1 \<le> 60" using assms by linarith+
  then have cond: "\<not> (int n - 1) * second \<le> 1 * second" "\<not> (int n - 1) * second \<le> 10 * second"
    "(int n - 1) * second \<le> 1 * minute"
    by (simp_all add: second_def minute_def)
  have branch: "ag_get_stats (1 * second) (int n * second) ts ?a = aggregate_snapshots ?snaps ((int n - 1) * second)"
    unfolding ag_get_stats_def Let_def d range using cond by (simp only: if_False if_True)
  have "map as_total ?snaps = replicate n (add64 (ct_hits c) (ct_misses c))"
    by (simp add: snapshot_of_def Let_def comp_def map_replicate_const del: upt_Suc)
  then have "sum_64 (map as_total ?snaps) = i64 (int n * i64 (ct_hits c + ct_misses c))"
    by (simp add: sum_64_eq sum_list_replicate add64_def)
  moreover have "?snaps \<noteq> []" using assms(1) by simp
  ultimately show ?thesis
    unfolding branch aggregate_snapshots_def Let_def
    by (simp add: sum_64_eq no_errors i64_range del: upt_Suc)
qed

theorem window_counts_repeatedly_witness:
  "as_total (ag_get_stats (1 * second) (60 * second) (new_time_series 0 hour)
     (quiet_ticks (counters_zero\<lparr>ct_hits := 3, ct_misses := 1\<rparr>) empty_latency_stats
       (map (\<lambda>i. int i * second) [1..<Suc 60]))) = 240"
  using window_counts_repeatedly [of 60 "new_time_series 0 hour" "counters_zero\<lparr>ct_hits := 3, ct_misses := 1\<rparr>"
      empty_latency_stats]
  by (simp add: counters_zero_def in_i64_def del: upt_Suc)

text \<open>
  Further result.  A change of the request rate is never detected: the snapshots that the aggregator passes to
  the detector carry no rate, so in no run does it report an anomaly of the request rate.
\<close>

theorem qps_anomaly_never_detected:
  "\<forall>x \<in> set (ad_anomalies (ag_detector
      (fold (\<lambda>(clock, c, l). ag_aggregate clock c l) ticks new_aggregator))). an_type x \<noteq> AnomalyQPSAnomaly"
proof -
  have "no_qps_anomaly (fold (\<lambda>(clock, c, l). ag_aggregate clock c l) ticks new_aggregator)"
  proof (rule fold_invariant)
    show "no_qps_anomaly new_aggregator"
      by (simp add: no_qps_anomaly_def new_aggregator_def new_anomaly_detector_def flat_zero_new)
  qed (auto simp: no_qps_anomaly_step)
  then show ?thesis by (simp add: no_qps_anomaly_def)
qed

text \<open>
  Further result.  The rolling mean is wrong once old values are dropped: the mean without the old value is
  computed with the count that still includes it.  With two slots, after 0, 4 and 8 the window holds 4 and
  8, whose mean is 6, and the statistics say 5.5.
\<close>

theorem rolling_mean_drifts:
  "set (hs_values (fold hs_add [Fin 0, Fin 4, Fin 8] (new_historical_stats 2))) = {Fin 4, Fin 8} \<and>
   hs_mean (fold hs_add [Fin 0, Fin 4, Fin 8] (new_historical_stats 2)) = Fin (11 / 2)"
proof -
  have ints: "f_of_int 1 = Fin 1" "f_of_int 2 = Fin 2" by (simp_all add: f_of_int_small)
  have fls: "fl 4 = Fin 4" "fl 2 = Fin 2" "fl (- 2) = Fin (- 2)" "fl (- 1) = Fin (- 1)" "fl 3 = Fin 3"
    "fl 5 = Fin 5" "fl (5 / 2) = Fin (5 / 2)" "fl (11 / 2) = Fin (11 / 2)"
    using fl_int [of 4] fl_int [of 2] fl_int [of "- 2"] fl_int [of "- 1"] fl_int [of 3] fl_int [of 5]
      fl_half [of 5] fl_half [of 11] by simp_all
  let ?h = "\<lambda>vs n i m m2. \<lparr>hs_values = vs, hs_count = n, hs_index = i, hs_mean = Fin m, hs_m2 = Fin m2\<rparr>"
  have a: "hs_add (Fin 0) (new_historical_stats 2) = ?h [Fin 0, Fin 0] 1 1 0 0"
    by (simp add: hs_add_def new_historical_stats_def Let_def f_sub_def ints numeral_2_eq_2)
  have b: "hs_add (Fin 4) (?h [Fin 0, Fin 0] 1 1 0 0) = ?h [Fin 0, Fin 4] 2 0 2 8"
    using fl_int [of 8] by (simp add: hs_add_def Let_def f_sub_def ints fls)
  have c: "hs_mean (hs_add (Fin 8) (?h [Fin 0, Fin 4] 2 0 2 8)) = Fin (11 / 2)"
    "hs_values (hs_add (Fin 8) (?h [Fin 0, Fin 4] 2 0 2 8)) = [Fin 8, Fin 4]"
    by (simp_all add: hs_add_def Let_def f_sub_def ints fls)
  have "fold hs_add [Fin 0, Fin 4, Fin 8] (new_historical_stats 2) = hs_add (Fin 8) (?h [Fin 0, Fin 4] 2 0 2 8)"
    by (simp only: fold_Cons fold_Nil comp_apply id_apply a b)
  with c show ?thesis by auto
qed

end
