(* ===== verification/TimeFormat.thy ===== *)
theory TimeFormat
  imports Float64
begin

text \<open>
  The texts that the dashboard makes of numbers and times: \<open>%.Nf\<close> of \<open>fmt.Sprintf\<close> and the three
  layouts of \<open>Time.Format\<close> it uses (\<open>15:04\<close>, \<open>time.RFC3339\<close> and \<open>20060102-150405\<close>), for the zone UTC the
  containers run in.  The calendar is the proleptic Gregorian one; the year of a date is counted from
  March, so that the leap day is the last of its year.
\<close>

section \<open>Decimals\<close>

definition fraction_digits :: "nat \<Rightarrow> nat \<Rightarrow> string" where
  "fraction_digits p n = map (\<lambda>i. digit_char (n div 10 ^ (p - 1 - i) mod 10)) [0..<p]"

definition decimals :: "nat \<Rightarrow> rat \<Rightarrow> string" where
  "decimals p x =
     (let n = nat (round_half_even (\<bar>x\<bar> * 10 ^ p))
      in (if x < 0 then ''-'' else []) @ nat_dec (n div 10 ^ p) @
         (if p = 0 then [] else CHR ''.'' # fraction_digits p n))"

fun fmt_float :: "nat \<Rightarrow> f64 \<Rightarrow> string" where
  "fmt_float p (Fin x) = decimals p x"
| "fmt_float p PInf = ''+Inf''"
| "fmt_float p NInf = ''-Inf''"
| "fmt_float p NaN = ''NaN''"

section \<open>Dates\<close>

text \<open>The number with at least \<open>w\<close> digits.\<close>

definition pad_dec :: "nat \<Rightarrow> int \<Rightarrow> string" where
  "pad_dec w n =
     (let s = nat_dec (nat \<bar>n\<bar>)
      in (if n < 0 then ''-'' else []) @ replicate (w - length s) (CHR ''0'') @ s)"

definition civil_date :: "int \<Rightarrow> int \<times> int \<times> int" where
  "civil_date days =
     (let z = days + 719468; era = z div 146097; doe = z mod 146097;
          yoe = (doe - doe div 1460 + doe div 36524 - doe div 146096) div 365;
          doy = doe - (365 * yoe + yoe div 4 - yoe div 100);
          mp = (5 * doy + 2) div 153;
          month = (if mp < 10 then mp + 3 else mp - 9)
      in (yoe + era * 400 + (if month \<le> 2 then 1 else 0), month, doy - (153 * mp + 2) div 5 + 1))"

definition day_of :: "time \<Rightarrow> int" where
  "day_of t = unix_seconds t div 86400"

definition second_of_day :: "time \<Rightarrow> int" where
  "second_of_day t = unix_seconds t mod 86400"

definition format_hm :: "time \<Rightarrow> string" where
  "format_hm t = pad_dec 2 (second_of_day t div 3600) @ '':'' @ pad_dec 2 (second_of_day t div 60 mod 60)"

definition format_rfc3339 :: "time \<Rightarrow> string" where
  "format_rfc3339 t =
     (let (y, m, d) = civil_date (day_of t)
      in pad_dec 4 y @ ''-'' @ pad_dec 2 m @ ''-'' @ pad_dec 2 d @ ''T'' @
         pad_dec 2 (second_of_day t div 3600) @ '':'' @ pad_dec 2 (second_of_day t div 60 mod 60) @ '':'' @
         pad_dec 2 (second_of_day t mod 60) @ ''Z'')"

definition format_stamp :: "time \<Rightarrow> string" where
  "format_stamp t =
     (let (y, m, d) = civil_date (day_of t)
      in pad_dec 4 y @ pad_dec 2 m @ pad_dec 2 d @ ''-'' @ pad_dec 2 (second_of_day t div 3600) @
         pad_dec 2 (second_of_day t div 60 mod 60) @ pad_dec 2 (second_of_day t mod 60))"

lemma civil_date_examples:
  "civil_date 0 = (1970, 1, 1)" "civil_date (- 1) = (1969, 12, 31)" "civil_date 11016 = (2000, 2, 29)"
  "civil_date 19782 = (2024, 2, 29)" "civil_date 19783 = (2024, 3, 1)" "civil_date (- 719162) = (1, 1, 1)"
  by code_simp+

section \<open>Reading the texts back\<close>

definition read_int :: "string \<Rightarrow> int" where
  "read_int s = (case s of c # cs \<Rightarrow> if c = CHR ''-'' then - int (dec_value cs) else int (dec_value s) | [] \<Rightarrow> 0)"

lemma nat_dec_not_minus: "nat_dec n \<noteq> CHR ''-'' # cs"
proof
  assume eq: "nat_dec n = CHR ''-'' # cs"
  then have "CHR ''-'' \<in> set (nat_dec n)" by simp
  from nat_dec_digits [OF this] show False by simp
qed

lemma nat_dec_not_Nil [simp]: "nat_dec n \<noteq> []"
  by (subst nat_dec.simps) simp

lemma read_int_nat: "read_int (nat_dec n) = int n"
proof (cases "nat_dec n")
  case (Cons c cs)
  with nat_dec_not_minus [of n cs] have "c \<noteq> CHR ''-''" by auto
  with Cons have "read_int (nat_dec n) = int (dec_value (nat_dec n))" by (simp add: read_int_def)
  then show ?thesis by (simp add: dec_value_nat_dec)
qed simp

lemma read_int_dec: "read_int (int_dec x) = x"
  by (cases "x < 0") (simp_all add: int_dec_def read_int_nat, simp add: read_int_def dec_value_nat_dec)

section \<open>The characters of the texts\<close>

text \<open>None of the texts contains a separator of the exported formats.\<close>

definition plain :: "string \<Rightarrow> bool" where
  "plain s \<longleftrightarrow> CHR '','' \<notin> set s \<and> CHR 0x0A \<notin> set s"

lemma plain_append [simp]: "plain (a @ b) \<longleftrightarrow> plain a \<and> plain b"
  by (auto simp: plain_def)

lemma plain_Nil [simp]: "plain []"
  by (simp add: plain_def)

lemma plain_Cons [simp]: "plain (c # s) \<longleftrightarrow> c \<noteq> CHR '','' \<and> c \<noteq> CHR 0x0A \<and> plain s"
  by (auto simp: plain_def)

lemma plain_nat_dec [simp]: "plain (nat_dec n)"
  using nat_dec_digits [of "CHR '',''" n] nat_dec_digits [of "CHR 0x0A" n] by (auto simp: plain_def)

lemma plain_int_dec [simp]: "plain (int_dec x)"
  by (simp add: int_dec_def)

lemma digit_char_plain: "d < 10 \<Longrightarrow> digit_char d \<noteq> CHR '','' \<and> digit_char d \<noteq> CHR 0x0A"
  using of_digit_char [of d] by auto

lemma plain_fraction [simp]: "plain (fraction_digits p n)"
  using digit_char_plain by (auto simp: plain_def fraction_digits_def) (metis mod_less_divisor zero_less_numeral)+

lemma plain_decimals [simp]: "plain (decimals p x)"
  by (simp add: decimals_def Let_def)

lemma plain_fmt_float [simp]: "plain (fmt_float p x)"
  by (cases x) simp_all

lemma plain_pad [simp]: "plain (pad_dec w n)"
  by (simp add: pad_dec_def Let_def) (auto simp: plain_def)

lemma plain_rfc3339 [simp]: "plain (format_rfc3339 t)"
  by (simp add: format_rfc3339_def Let_def split: prod.split)

end
