(* ===== verification/Alerts.thy ===== *)
theory Alerts
  imports Aggregator TimeFormat
begin

text \<open>
  The alert manager of the monitoring service, \<open>monitoring/alerts.go\<close>: the rules, the registry of active
  alerts, their resolution and the statistics.
\<close>

section \<open>Alerts\<close>

datatype alert_type =
  AlertHighErrorRate | AlertLowHitRate | AlertLatencySpike | AlertAbnormalLoad | AlertHighEvictionRate

record alert =
  al_id :: string
  al_rule :: string
  al_type :: alert_type
  al_severity :: string
  al_metric :: string
  al_value :: f64
  al_threshold :: f64
  al_message :: string
  al_triggered :: time
  al_resolved_at :: "time option"
  al_duration :: duration
  al_resolved :: bool

section \<open>Rules\<close>

record threshold_rule =
  tr_id :: string
  tr_threshold :: f64

record dynamic_rule =
  dr_id :: string
  dr_metric :: string
  dr_type :: alert_type
  dr_baseline :: historical_stats
  dr_limit :: f64

datatype alert_rule =
    HighErrorRate threshold_rule
  | LowHitRate threshold_rule
  | LatencySpike threshold_rule
  | HighEvictionRate threshold_rule
  | DynamicThreshold dynamic_rule

definition new_high_error_rate_rule :: threshold_rule where
  "new_high_error_rate_rule = \<lparr>tr_id = ''high_error_rate'', tr_threshold = f_const (5 / 100)\<rparr>"

definition new_low_hit_rate_rule :: threshold_rule where
  "new_low_hit_rate_rule = \<lparr>tr_id = ''low_hit_rate'', tr_threshold = f_const (70 / 100)\<rparr>"

definition new_latency_spike_rule :: threshold_rule where
  "new_latency_spike_rule = \<lparr>tr_id = ''latency_spike'', tr_threshold = Fin 100\<rparr>"

definition new_high_eviction_rate_rule :: threshold_rule where
  "new_high_eviction_rate_rule = \<lparr>tr_id = ''high_eviction_rate'', tr_threshold = Fin 10\<rparr>"

definition new_dynamic_rule :: "string \<Rightarrow> string \<Rightarrow> alert_type \<Rightarrow> f64 \<Rightarrow> dynamic_rule" where
  "new_dynamic_rule rid metric typ limit = \<lparr>dr_id = rid, dr_metric = metric, dr_type = typ,
     dr_baseline = new_historical_stats 100, dr_limit = limit\<rparr>"

text \<open>An alert as a rule makes it: the manager fills in the times.\<close>

definition fresh_alert ::
    "string \<Rightarrow> alert_type \<Rightarrow> string \<Rightarrow> string \<Rightarrow> f64 \<Rightarrow> f64 \<Rightarrow> string \<Rightarrow> alert" where
  "fresh_alert rid typ severity metric v threshold msg =
     \<lparr>al_id = rid, al_rule = rid, al_type = typ, al_severity = severity, al_metric = metric, al_value = v,
      al_threshold = threshold, al_message = msg, al_triggered = zero_time, al_resolved_at = None,
      al_duration = 0, al_resolved = False\<rparr>"

definition eval_high_error_rate :: "threshold_rule \<Rightarrow> aggregated_stats \<Rightarrow> alert option" where
  "eval_high_error_rate r st =
     (if f_lt (tr_threshold r) (as_error_rate st) then
        Some (fresh_alert (tr_id r) AlertHighErrorRate ''critical'' ''error_rate'' (as_error_rate st) (tr_threshold r)
          (''Error rate '' @ fmt_float 2 (f_mul (as_error_rate st) (Fin 100)) @ ''% exceeds threshold '' @
           fmt_float 2 (f_mul (tr_threshold r) (Fin 100)) @ ''%''))
      else None)"

definition eval_low_hit_rate :: "threshold_rule \<Rightarrow> aggregated_stats \<Rightarrow> alert option" where
  "eval_low_hit_rate r st =
     (if as_total st > 100 \<and> f_lt (as_hit_rate st) (tr_threshold r) then
        Some (fresh_alert (tr_id r) AlertLowHitRate
          (if f_lt (as_hit_rate st) (Fin (1 / 2)) then ''critical'' else ''warning'') ''hit_rate''
          (as_hit_rate st) (tr_threshold r)
          (''Cache hit rate '' @ fmt_float 2 (f_mul (as_hit_rate st) (Fin 100)) @ ''% below threshold '' @
           fmt_float 2 (f_mul (tr_threshold r) (Fin 100)) @ ''%''))
      else None)"

definition eval_latency_spike :: "threshold_rule \<Rightarrow> aggregated_stats \<Rightarrow> alert option" where
  "eval_latency_spike r st =
     (if f_lt (tr_threshold r) (as_p95 st) then
        Some (fresh_alert (tr_id r) AlertLatencySpike
          (if f_lt (f_mul (tr_threshold r) (Fin 2)) (as_p95 st) then ''critical'' else ''warning'') ''p95_latency''
          (as_p95 st) (tr_threshold r)
          (''P95 latency '' @ fmt_float 2 (as_p95 st) @ ''ms exceeds threshold '' @ fmt_float 2 (tr_threshold r) @ ''ms''))
      else None)"

definition eval_high_eviction_rate :: "threshold_rule \<Rightarrow> aggregated_stats \<Rightarrow> alert option" where
  "eval_high_eviction_rate r st =
     (let rate = f_div (f_of_int (as_evictions st)) (Fin 60) in
      if f_lt (tr_threshold r) rate then
        Some (fresh_alert (tr_id r) AlertHighEvictionRate ''warning'' ''eviction_rate'' rate (tr_threshold r)
          (''Eviction rate '' @ fmt_float 2 rate @ ''/sec exceeds threshold '' @ fmt_float 2 (tr_threshold r) @
           ''/sec - consider increasing cache size''))
      else None)"

definition dynamic_value :: "string \<Rightarrow> aggregated_stats \<Rightarrow> f64 option" where
  "dynamic_value metric st =
     (if metric = ''hit_rate'' then Some (as_hit_rate st)
      else if metric = ''p95_latency'' then Some (as_p95 st)
      else if metric = ''error_rate'' then Some (as_error_rate st)
      else if metric = ''qps'' then Some (as_qps st)
      else None)"

definition eval_dynamic :: "dynamic_rule \<Rightarrow> aggregated_stats \<Rightarrow> dynamic_rule \<times> alert option" where
  "eval_dynamic r st =
     (case dynamic_value (dr_metric r) st of None \<Rightarrow> (r, None)
      | Some v \<Rightarrow>
        (let r = r\<lparr>dr_baseline := hs_add v (dr_baseline r)\<rparr> in
         if hs_count (dr_baseline r) < 20 then (r, None)
         else
           (let (mean, stddev) = hs_mean_std_dev (dr_baseline r) in
            if f_eq stddev (Fin 0) then (r, None)
            else
              (let z = f_div (f_sub v mean) stddev in
               if f_lt (dr_limit r) (f_abs z) then
                 (r, Some (fresh_alert (dr_id r) (dr_type r)
                    (if f_lt (f_mul (dr_limit r) (Fin (3 / 2))) (f_abs z) then ''critical'' else ''warning'')
                    (dr_metric r) v mean
                    (dr_metric r @ '' value '' @ fmt_float 2 v @ '' deviates '' @ fmt_float 2 z @
                     '' standard deviations from baseline '' @ fmt_float 2 mean)))
               else (r, None)))))"

fun rule_id :: "alert_rule \<Rightarrow> string" where
  "rule_id (HighErrorRate r) = tr_id r"
| "rule_id (LowHitRate r) = tr_id r"
| "rule_id (LatencySpike r) = tr_id r"
| "rule_id (HighEvictionRate r) = tr_id r"
| "rule_id (DynamicThreshold r) = dr_id r"

fun evaluate_rule :: "alert_rule \<Rightarrow> aggregated_stats \<Rightarrow> alert_rule \<times> alert option" where
  "evaluate_rule (HighErrorRate r) st = (HighErrorRate r, eval_high_error_rate r st)"
| "evaluate_rule (LowHitRate r) st = (LowHitRate r, eval_low_hit_rate r st)"
| "evaluate_rule (LatencySpike r) st = (LatencySpike r, eval_latency_spike r st)"
| "evaluate_rule (HighEvictionRate r) st = (HighEvictionRate r, eval_high_eviction_rate r st)"
| "evaluate_rule (DynamicThreshold r) st =
     (let (r, a) = eval_dynamic r st in (DynamicThreshold r, a))"

section \<open>The manager\<close>

record alert_manager =
  am_rules :: "alert_rule list"
  am_active :: "(string \<times> alert) list"
  am_resolved :: "alert list"
  am_triggered :: int
  am_resolved_count :: int
  am_duration :: int
  am_stopped :: bool

definition new_alert_manager :: alert_manager where
  "new_alert_manager = \<lparr>am_rules = [HighErrorRate new_high_error_rate_rule, LowHitRate new_low_hit_rate_rule,
     LatencySpike new_latency_spike_rule, HighEvictionRate new_high_eviction_rate_rule],
     am_active = [], am_resolved = [], am_triggered = 0, am_resolved_count = 0, am_duration = 0,
     am_stopped = False\<rparr>"

definition trigger_alert :: "time \<Rightarrow> alert \<Rightarrow> alert_manager \<Rightarrow> alert_manager" where
  "trigger_alert now a am =
     (case map_of (am_active am) (al_id a) of
        Some existing \<Rightarrow>
          am\<lparr>am_active := AList.update (al_id a) (existing\<lparr>al_value := al_value a, al_message := al_message a\<rparr>)
            (am_active am)\<rparr>
      | None \<Rightarrow>
          am\<lparr>am_active := AList.update (al_id a) (a\<lparr>al_triggered := now\<rparr>) (am_active am),
             am_triggered := add64 (am_triggered am) 1\<rparr>)"

definition resolve_alert :: "time \<Rightarrow> string \<Rightarrow> alert_manager \<Rightarrow> alert_manager" where
  "resolve_alert now aid am =
     (case map_of (am_active am) aid of
        None \<Rightarrow> am
      | Some a \<Rightarrow>
          (let d = time_sub now (al_triggered a);
               a = a\<lparr>al_resolved_at := Some now, al_duration := d, al_resolved := True\<rparr>
           in am\<lparr>am_active := AList.delete aid (am_active am),
                 am_resolved := keep_last 100 (am_resolved am @ [a]),
                 am_resolved_count := add64 (am_resolved_count am) 1,
                 am_duration := add64 (am_duration am) (dur_ms d)\<rparr>))"

text \<open>The loop over the rules, with one clock reading per trigger or resolution.  It knows a rule only by the
  interface \<open>AlertRule\<close>: its identifier and its evaluation, which may change the rule.\<close>

fun evaluate_loop ::
    "('r \<Rightarrow> string) \<Rightarrow> ('r \<Rightarrow> aggregated_stats \<Rightarrow> 'r \<times> alert option) \<Rightarrow> (nat \<Rightarrow> time) \<Rightarrow> nat \<Rightarrow> aggregated_stats \<Rightarrow>
     'r list \<Rightarrow> alert_manager \<Rightarrow> alert_manager \<times> 'r list" where
  "evaluate_loop ident eval clock i st [] am = (am, [])"
| "evaluate_loop ident eval clock i st (r # rs) am =
     (let (r, a) = eval r st;
          am = (case a of Some a \<Rightarrow> trigger_alert (clock i) a am | None \<Rightarrow> resolve_alert (clock i) (ident r) am);
          (am, rs) = evaluate_loop ident eval clock (Suc i) st rs am
      in (am, r # rs))"

definition evaluate_rules :: "(nat \<Rightarrow> time) \<Rightarrow> aggregated_stats \<Rightarrow> alert_manager \<Rightarrow> alert_manager" where
  "evaluate_rules clock st am =
     (let (am, rs) = evaluate_loop rule_id evaluate_rule clock 0 st (am_rules am) am in am\<lparr>am_rules := rs\<rparr>)"

definition get_active_alerts :: "alert_manager \<Rightarrow> alert list" where
  "get_active_alerts am = map snd (am_active am)"

text \<open>A negative \<open>n\<close> panics in \<open>make\<close>; the only caller passes 10.\<close>

definition get_recent_resolved :: "alert_manager \<Rightarrow> nat \<Rightarrow> alert list" where
  "get_recent_resolved am n =
     (let n = (if n > length (am_resolved am) then length (am_resolved am) else n)
      in map (\<lambda>i. am_resolved am ! (length (am_resolved am) - 1 - i)) [0..<n])"

record alert_stats =
  ast_triggered :: int
  ast_resolved :: int
  ast_active :: int
  ast_avg :: f64

definition get_alert_stats :: "alert_manager \<Rightarrow> alert_stats" where
  "get_alert_stats am =
     \<lparr>ast_triggered = am_triggered am, ast_resolved = am_resolved_count am,
      ast_active = int (length (am_active am)),
      ast_avg = (if am_resolved_count am > 0
        then f_div (f_div (f_of_int (am_duration am)) (f_of_int (am_resolved_count am))) (Fin 1000) else Fin 0)\<rparr>"

section \<open>Lemmas\<close>

text \<open>The registry is consistent: distinct identifiers under which the alerts are filed, unresolved alerts
  only, as many triggered as resolved and active ones together (modulo the counters' width), at most
  100 remembered resolutions, which are all marked as resolved.\<close>

definition registry_sound :: "alert_manager \<Rightarrow> bool" where
  "registry_sound am \<longleftrightarrow> distinct (map fst (am_active am)) \<and>
     (\<forall>(k, a) \<in> set (am_active am). al_id a = k \<and> \<not> al_resolved a) \<and>
     am_triggered am = i64 (am_resolved_count am + int (length (am_active am))) \<and>
     in_i64 (am_resolved_count am) \<and>
     length (am_resolved am) \<le> 100 \<and> (\<forall>a \<in> set (am_resolved am). al_resolved a)"

lemma trigger_sound:
  assumes "registry_sound am" "\<not> al_resolved a"
  shows "registry_sound (trigger_alert now a am)"
proof (cases "map_of (am_active am) (al_id a)")
  case None
  then have new: "al_id a \<notin> fst ` set (am_active am)" by (simp add: map_of_eq_None_iff)
  have "i64 (am_triggered am + 1) = i64 (am_resolved_count am + int (length (am_active am)) + 1)"
    using assms(1) by (simp add: registry_sound_def i64_add_left)
  then show ?thesis
    using assms None new by (auto simp: registry_sound_def trigger_alert_def al_update_new add64_def ac_simps)
next
  case (Some b)
  then have b: "(al_id a, b) \<in> set (am_active am)" by (rule map_of_SomeD)
  let ?al = "AList.update (al_id a) (b\<lparr>al_value := al_value a, al_message := al_message a\<rparr>) (am_active am)"
  have dist: "distinct (map fst (am_active am))" "distinct (map fst ?al)"
    using assms(1) by (simp_all add: registry_sound_def distinct_update)
  have "fst ` set ?al = fst ` set (am_active am)" using b by (force simp: dom_update)
  then have len: "length ?al = length (am_active am)"
    using dist by (metis distinct_card length_map list.set_map)
  have "al_id x = k \<and> \<not> al_resolved x" if "(k, x) \<in> set ?al" for k x
  proof -
    have "((map_of (am_active am))(al_id a \<mapsto> b\<lparr>al_value := al_value a, al_message := al_message a\<rparr>)) k = Some x"
      using that al_in_map_of [OF dist(2)] unfolding al_update_map_of by blast
    then show ?thesis using assms(1) b by (auto simp: registry_sound_def split: if_splits dest: map_of_SomeD)
  qed
  with assms(1) dist(2) len Some show ?thesis by (auto simp: registry_sound_def trigger_alert_def)
qed

lemma resolve_sound:
  assumes "registry_sound am"
  shows "registry_sound (resolve_alert now aid am)"
proof (cases "map_of (am_active am) aid")
  case (Some b)
  then have mem: "aid \<in> fst ` set (am_active am)" by (force dest: map_of_SomeD)
  then have pos: "0 < length (am_active am)" by (cases "am_active am") auto
  have dist: "distinct (map fst (am_active am))" using assms by (simp add: registry_sound_def)
  have len: "length (AList.delete aid (am_active am)) = length (am_active am) - 1"
    using mem dist by (simp add: al_length_delete)
  have "am_resolved_count am + 1 + int (length (am_active am) - 1) =
      am_resolved_count am + int (length (am_active am))"
    using pos by linarith
  then have "am_triggered am = i64 (am_resolved_count am + 1 + int (length (am_active am) - 1))"
    using assms by (simp only: registry_sound_def)
  then have "am_triggered am = i64 (add64 (am_resolved_count am) 1 + int (length (am_active am) - 1))"
    by (simp add: add64_def i64_add_left)
  moreover have keep: "al_resolved x" if "x \<in> set (keep_last 100 (am_resolved am @ [y]))" "al_resolved y" for x y
    using set_keep_last [of 100 "am_resolved am @ [y]"] that assms by (auto simp: registry_sound_def)
  ultimately show ?thesis
    using assms Some dist len
    by (auto simp: registry_sound_def resolve_alert_def Let_def al_delete_distinct al_delete_in length_keep_last
        add64_in dest!: keep)
qed (use assms in \<open>simp add: resolve_alert_def\<close>)

lemma registry_rules: "registry_sound (am\<lparr>am_rules := rs\<rparr>) = registry_sound am"
  by (simp add: registry_sound_def)

lemma new_alert_manager_sound: "registry_sound new_alert_manager"
  by (simp add: registry_sound_def new_alert_manager_def in_i64_def)

text \<open>After an evaluation the rules that fired are active and those that did not are not.\<close>

lemma trigger_active:
  "fst ` set (am_active (trigger_alert now a am)) = insert (al_id a) (fst ` set (am_active am))"
  by (auto simp: trigger_alert_def dom_update split: option.split)

lemma resolve_active:
  "fst ` set (am_active (resolve_alert now aid am)) = fst ` set (am_active am) - {aid}"
  by (auto simp: resolve_alert_def Let_def al_delete_in map_of_eq_None_iff image_iff split: option.split)

lemma active_set_step:
  "x \<notin> I \<Longrightarrow> F \<subseteq> I \<Longrightarrow> (insert x A - I) \<union> F = (A - insert x I) \<union> insert x F"
  "x \<notin> I \<Longrightarrow> F \<subseteq> I \<Longrightarrow> ((A - {x}) - I) \<union> F = (A - insert x I) \<union> F"
  by blast+

section \<open>The contract of a rule\<close>

text \<open>What the manager relies on: an evaluation keeps the identifier of the rule, and a reported alert carries
  it and is unresolved.\<close>

locale alert_interface =
  fixes ident :: "'r \<Rightarrow> string"
    and eval :: "'r \<Rightarrow> aggregated_stats \<Rightarrow> 'r \<times> alert option"
  assumes ident_kept: "ident (fst (eval r st)) = ident r"
    and alert_named: "snd (eval r st) = Some a \<Longrightarrow> al_id a = ident r"
    and alert_open: "snd (eval r st) = Some a \<Longrightarrow> \<not> al_resolved a"
begin

text \<open>The manager after one rule, and the loop in terms of it.\<close>

lemma loop_Cons:
  "evaluate_loop ident eval clock i st (r # rs) am =
     (let am = (case snd (eval r st) of Some a \<Rightarrow> trigger_alert (clock i) a am
                | None \<Rightarrow> resolve_alert (clock i) (ident r) am)
      in (fst (evaluate_loop ident eval clock (Suc i) st rs am),
          fst (eval r st) # snd (evaluate_loop ident eval clock (Suc i) st rs am)))"
  by (cases "snd (eval r st)") (simp_all add: Let_def case_prod_beta ident_kept)

lemma loop_sound: "registry_sound am \<Longrightarrow> registry_sound (fst (evaluate_loop ident eval clock i st rs am))"
proof (induction rs arbitrary: i am)
  case (Cons r rs)
  let ?am = "case snd (eval r st) of Some a \<Rightarrow> trigger_alert (clock i) a am | None \<Rightarrow> resolve_alert (clock i) (ident r) am"
  have "registry_sound ?am"
    using Cons.prems alert_open [of r st]
    by (cases "snd (eval r st)") (auto simp: resolve_sound intro: trigger_sound)
  from Cons.IH [OF this, of "Suc i"] show ?case by (simp add: loop_Cons Let_def del: evaluate_loop.simps)
qed simp

lemma loop_active:
  assumes "distinct (map ident rs)"
  shows "fst ` set (am_active (fst (evaluate_loop ident eval clock i st rs am))) =
    (fst ` set (am_active am) - ident ` set rs) \<union> ident ` {r \<in> set rs. snd (eval r st) \<noteq> None}"
  using assms
proof (induction rs arbitrary: i am)
  case (Cons r rs)
  let ?am = "case snd (eval r st) of Some a \<Rightarrow> trigger_alert (clock i) a am | None \<Rightarrow> resolve_alert (clock i) (ident r) am"
  let ?fires = "snd (eval r st) \<noteq> None" and ?F = "\<lambda>rs. ident ` {x \<in> set rs. snd (eval x st) \<noteq> None}"
  have "fst ` set (am_active ?am) =
      (if ?fires then insert (ident r) (fst ` set (am_active am)) else fst ` set (am_active am) - {ident r})"
    using alert_named [of r st] by (cases "snd (eval r st)") (simp_all add: trigger_active resolve_active)
  moreover have "?F (r # rs) = (if ?fires then insert (ident r) (?F rs) else ?F rs)" by auto
  moreover have "ident r \<notin> ident ` set rs" "?F rs \<subseteq> ident ` set rs" using Cons.prems by auto
  ultimately show ?case using Cons.IH [of "Suc i" ?am] Cons.prems
    by (cases ?fires) (simp_all add: loop_Cons Let_def active_set_step del: evaluate_loop.simps)
qed simp

lemma loop_ids: "map ident (snd (evaluate_loop ident eval clock i st rs am)) = map ident rs"
  by (induction rs arbitrary: i am) (simp_all add: Let_def case_prod_beta ident_kept)

end

text \<open>The rules of the source keep the contract, and so does the dispatch to them.\<close>

lemmas rule_evals = eval_high_error_rate_def eval_low_hit_rate_def eval_latency_spike_def
  eval_high_eviction_rate_def fresh_alert_def

interpretation high_error: alert_interface tr_id "\<lambda>r st. (r, eval_high_error_rate r st)"
  by unfold_locales (auto simp: rule_evals split: if_splits)

interpretation low_hit: alert_interface tr_id "\<lambda>r st. (r, eval_low_hit_rate r st)"
  by unfold_locales (auto simp: rule_evals split: if_splits)

interpretation spike: alert_interface tr_id "\<lambda>r st. (r, eval_latency_spike r st)"
  by unfold_locales (auto simp: rule_evals split: if_splits)

interpretation evictions: alert_interface tr_id "\<lambda>r st. (r, eval_high_eviction_rate r st)"
  by unfold_locales (auto simp: rule_evals Let_def split: if_splits)

interpretation dynamic: alert_interface dr_id eval_dynamic
  by unfold_locales (auto simp: eval_dynamic_def fresh_alert_def Let_def split: if_splits option.splits prod.splits)

interpretation rules: alert_interface rule_id evaluate_rule
proof
  fix r st a
  show "rule_id (fst (evaluate_rule r st)) = rule_id r"
    by (cases r) (simp_all add: case_prod_beta dynamic.ident_kept)
  assume *: "snd (evaluate_rule r st) = Some a"
  then show "al_id a = rule_id r"
    by (cases r) (simp_all add: case_prod_beta high_error.alert_named low_hit.alert_named spike.alert_named
        evictions.alert_named dynamic.alert_named)
  from * show "\<not> al_resolved a"
    by (cases r) (simp_all add: case_prod_beta high_error.alert_open low_hit.alert_open spike.alert_open
        evictions.alert_open dynamic.alert_open)
qed

section \<open>Runs of the manager\<close>

definition fires :: "alert_rule \<Rightarrow> aggregated_stats \<Rightarrow> bool" where
  "fires r st \<longleftrightarrow> snd (evaluate_rule r st) \<noteq> None"

lemma evaluate_rules_sound: "registry_sound am \<Longrightarrow> registry_sound (evaluate_rules clock st am)"
  using rules.loop_sound [of am clock 0 st "am_rules am"]
  by (simp add: evaluate_rules_def case_prod_beta Let_def registry_rules)

lemmas evaluate_loop_active = rules.loop_active [folded fires_def]

lemma default_rules_fixed:
  "am_rules am = am_rules new_alert_manager \<Longrightarrow>
   am_rules (evaluate_rules clock st am) = am_rules new_alert_manager"
  by (simp add: evaluate_rules_def new_alert_manager_def Let_def case_prod_beta)

text \<open>A run of the manager: the statistics of each evaluation with its clock.\<close>

definition run_alerts :: "((nat \<Rightarrow> time) \<times> aggregated_stats) list \<Rightarrow> alert_manager" where
  "run_alerts ticks = fold (\<lambda>(clock, st). evaluate_rules clock st) ticks new_alert_manager"

lemma run_alerts_snoc: "run_alerts (ticks @ [(clock, st)]) = evaluate_rules clock st (run_alerts ticks)"
  by (simp add: run_alerts_def)

lemma run_alerts_sound:
  "registry_sound (run_alerts ticks) \<and> am_rules (run_alerts ticks) = am_rules new_alert_manager"
proof (induction ticks rule: rev_induct)
  case (snoc t ticks)
  then show ?case by (cases t) (simp add: run_alerts_snoc evaluate_rules_sound default_rules_fixed)
qed (simp add: run_alerts_def new_alert_manager_sound)

lemma default_ids: "map rule_id (am_rules new_alert_manager) =
    [''high_error_rate'', ''low_hit_rate'', ''latency_spike'', ''high_eviction_rate'']"
  by (simp add: new_alert_manager_def new_high_error_rate_rule_def new_low_hit_rate_rule_def
      new_latency_spike_rule_def new_high_eviction_rate_rule_def)

lemma run_alerts_keys: "fst ` set (am_active (run_alerts ticks)) \<subseteq> rule_id ` set (am_rules new_alert_manager)"
proof (induction ticks rule: rev_induct)
  case (snoc t ticks)
  obtain clock st where t: "t = (clock, st)" by (cases t) auto
  have "distinct (map rule_id (am_rules new_alert_manager))" by (simp add: default_ids)
  from evaluate_loop_active [OF this, of clock 0 st "run_alerts ticks"] snoc run_alerts_sound [of ticks]
  show ?case unfolding t run_alerts_snoc by (auto simp: evaluate_rules_def Let_def case_prod_beta)
qed (simp add: run_alerts_def new_alert_manager_def)

lemma active_after:
  "fst ` set (am_active (run_alerts (ticks @ [(clock, st)]))) =
     rule_id ` {r \<in> set (am_rules new_alert_manager). fires r st}"
proof -
  have "distinct (map rule_id (am_rules new_alert_manager))" by (simp add: default_ids)
  from evaluate_loop_active [OF this, of clock 0 st "run_alerts ticks"] run_alerts_sound [of ticks]
    run_alerts_keys [of ticks]
  show ?thesis unfolding run_alerts_snoc by (auto simp: evaluate_rules_def Let_def case_prod_beta)
qed

lemma evictions_fire:
  assumes "600 < n" "n < 2 ^ 53" "as_evictions st = n"
  shows "fires (HighEvictionRate new_high_eviction_rate_rule) st"
proof -
  have n: "f_of_int n = Fin (of_int n)" using assms by (simp add: f_of_int_small)
  define k where "k = \<lfloor>of_int n / (60 :: rat)\<rfloor>"
  have x: "10 + 1 / 64 \<le> of_int n / (60 :: rat)"
  proof -
    have "of_int 601 \<le> (of_int n :: rat)" unfolding of_int_le_iff using assms(1) by simp
    then show ?thesis by simp
  qed
  have "rnd (10 + 1 / 64) = 10 + 1 / (64 :: rat)"
    by (rule rnd_multiple [where n = 641 and k = "- 6"]) (simp_all add: pow2_def)
  then have low: "10 + 1 / 64 \<le> rnd (of_int n / 60)" using rnd_mono [OF x] by simp
  have "(of_int n :: rat) < 2 ^ 53" using assms(2) by (metis of_int_less_iff of_int_numeral of_int_power)
  then have "of_int n / 60 \<le> pow2 53" by (simp add: pow2_def)
  then have "rnd (of_int n / 60) \<le> pow2 53" using rnd_mono rnd_pow2 [of 53] by fastforce
  moreover have "pow2 53 < pow2 1024" by (simp add: pow2_def)
  moreover have "- pow2 1024 < (0 :: rat)" by simp
  ultimately have "fl (of_int n / 60) = Fin (rnd (of_int n / 60))"
    using low by (auto simp: fl_def)
  with low show ?thesis
    by (simp add: fires_def eval_high_eviction_rate_def new_high_eviction_rate_rule_def assms(3) n)
qed

section \<open>Properties\<close>

text \<open>
  Further result.  The registry of alerts is exact after every run of the manager: the active alerts are those
  of the rules that fire on the latest statistics, each filed once under its rule, as many alerts were
  triggered as were resolved or are active (up to the width of the counters), and at most 100
  resolutions are remembered.
\<close>

theorem alerts_follow_rules:
  "set (map fst (am_active (run_alerts (ticks @ [(clock, st)])))) =
     rule_id ` {r \<in> set (am_rules new_alert_manager). fires r st} \<and>
   distinct (map al_id (get_active_alerts (run_alerts ticks))) \<and>
   ast_triggered (get_alert_stats (run_alerts ticks)) =
     i64 (ast_resolved (get_alert_stats (run_alerts ticks)) + ast_active (get_alert_stats (run_alerts ticks))) \<and>
   length (am_resolved (run_alerts ticks)) \<le> 100"
proof -
  have "registry_sound (run_alerts ticks)" using run_alerts_sound by blast
  then have r: "distinct (map fst (am_active (run_alerts ticks)))"
    "map al_id (get_active_alerts (run_alerts ticks)) = map fst (am_active (run_alerts ticks))"
    "am_triggered (run_alerts ticks) =
      i64 (am_resolved_count (run_alerts ticks) + int (length (am_active (run_alerts ticks))))"
    "length (am_resolved (run_alerts ticks)) \<le> 100"
    by (auto simp: registry_sound_def get_active_alerts_def)
  then show ?thesis using active_after [of ticks clock st] by (simp add: get_alert_stats_def)
qed

text \<open>
  Further result.  The eviction alert cannot be resolved: the rule divides the total number of evictions since
  the start by sixty seconds, so once 600 evictions have been counted the alert is active after every
  evaluation, however long ago they happened.
\<close>

theorem eviction_alert_permanent:
  assumes "600 < ct_evictions c" and "ct_evictions c < 2 ^ 53"
  shows "''high_eviction_rate'' \<in>
    set (map al_id (get_active_alerts (run_alerts (ticks @ [(clock, snapshot_of now c l)]))))"
proof -
  let ?am = "run_alerts (ticks @ [(clock, snapshot_of now c l)])"
  have "fires (HighEvictionRate new_high_eviction_rate_rule) (snapshot_of now c l)"
    using evictions_fire [OF assms] by (simp add: snapshot_of_def Let_def)
  then have "''high_eviction_rate'' \<in> fst ` set (am_active ?am)"
    unfolding active_after by (force simp: new_alert_manager_def new_high_eviction_rate_rule_def image_iff)
  moreover have "map al_id (get_active_alerts ?am) = map fst (am_active ?am)"
    using run_alerts_sound [of "ticks @ [(clock, snapshot_of now c l)]"]
    by (auto simp: registry_sound_def get_active_alerts_def)
  ultimately show ?thesis by simp
qed

theorem eviction_alert_permanent_witness:
  "''high_eviction_rate'' \<in> set (map al_id (get_active_alerts (run_alerts
     ([] @ [(\<lambda>_. 0, snapshot_of 0 (counters_zero\<lparr>ct_evictions := 601\<rparr>) empty_latency_stats)]))))"
  by (rule eviction_alert_permanent) simp_all

end
