(* ===== verification/Durations.thy ===== *)
theory Durations
  imports Float64
begin

text \<open>
  \<open>time.ParseDuration\<close> of the standard library, which the monitoring service applies to the windows and
  intervals of requests: digits with an optional fraction and a unit, repeated, with an optional sign.
\<close>

definition is_digit :: "char \<Rightarrow> bool" where
  "is_digit c \<longleftrightarrow> 48 \<le> (of_char c :: nat) \<and> (of_char c :: nat) \<le> 57"

definition digit_value :: "char \<Rightarrow> int" where
  "digit_value c = of_char c - 48"

definition unit_of :: "string \<Rightarrow> duration option" where
  "unit_of u =
     (if u = ''ns'' then Some 1
      else if u = ''us'' \<or> u = [char_of (194 :: nat), char_of (181 :: nat), CHR ''s''] \<or>
        u = [char_of (206 :: nat), char_of (188 :: nat), CHR ''s''] then Some 1000
      else if u = ''ms'' then Some millisecond
      else if u = ''s'' then Some second
      else if u = ''m'' then Some minute
      else if u = ''h'' then Some hour
      else None)"

text \<open>The leading integer, or nothing when it does not fit.\<close>

fun leading_int :: "int \<Rightarrow> string \<Rightarrow> (int \<times> string) option" where
  "leading_int x [] = Some (x, [])"
| "leading_int x (c # s) =
     (if \<not> is_digit c then Some (x, c # s)
      else if x > 2 ^ 63 div 10 then None
      else (let y = x * 10 + digit_value c in if y > 2 ^ 63 then None else leading_int y s))"

text \<open>The fraction and its scale; digits that do not fit are dropped.\<close>

fun leading_fraction :: "int \<Rightarrow> f64 \<Rightarrow> bool \<Rightarrow> string \<Rightarrow> int \<times> f64 \<times> string" where
  "leading_fraction x scale overflow [] = (x, scale, [])"
| "leading_fraction x scale overflow (c # s) =
     (if \<not> is_digit c then (x, scale, c # s)
      else if overflow \<or> x > (2 ^ 63 - 1) div 10 then leading_fraction x scale True s
      else (let y = x * 10 + digit_value c
            in if y > 2 ^ 63 then leading_fraction x scale True s
               else leading_fraction y (f_mul scale (Fin 10)) False s))"

lemma leading_int_length: "leading_int x s = Some (y, r) \<Longrightarrow> length r \<le> length s"
  by (induction x s rule: leading_int.induct) (auto simp: Let_def split: if_splits)

lemma leading_fraction_length: "leading_fraction x sc ov s = (y, sc', r) \<Longrightarrow> length r \<le> length s"
  by (induction x sc ov s rule: leading_fraction.induct) (auto simp: Let_def split: if_splits)

text \<open>The optional fraction after the integer: value, scale, rest, and whether it has digits.\<close>

definition duration_fraction :: "string \<Rightarrow> int \<times> f64 \<times> string \<times> bool" where
  "duration_fraction s =
     (if s \<noteq> [] \<and> hd s = CHR ''.'' then
        (let (f, scale, r) = leading_fraction 0 (Fin 1) False (tl s)
         in (f, scale, r, length r \<noteq> length (tl s)))
      else (0, Fin 1, s, False))"

definition unit_char :: "char \<Rightarrow> bool" where
  "unit_char c \<longleftrightarrow> \<not> (c = CHR ''.'' \<or> is_digit c)"

text \<open>One component: the nanoseconds it adds, and the rest of the string.\<close>

definition duration_part :: "string \<Rightarrow> (int \<times> string) option" where
  "duration_part s =
     (if s = [] \<or> unit_char (hd s) then None
      else (case leading_int 0 s of None \<Rightarrow> None | Some (v, s1) \<Rightarrow>
        (let pre = length s1 \<noteq> length s;
             (f, scale, s2, post) = duration_fraction s1;
             u = takeWhile unit_char s2;
             rest = drop (length u) s2
         in if \<not> pre \<and> \<not> post then None
            else if u = [] then None
            else (case unit_of u of None \<Rightarrow> None | Some unit \<Rightarrow>
              if v > 2 ^ 63 div unit then None
              else (let v = v * unit;
                        v = (if f > 0 then v + f_to_int (f_mul (f_of_int f) (f_div (f_of_int unit) scale)) else v)
                    in if v > 2 ^ 63 then None else Some (v, rest))))))"

lemma duration_fraction_length: "duration_fraction s = (f, sc, r, post) \<Longrightarrow> length r \<le> length s"
  using leading_fraction_length [of 0 "Fin 1" False "tl s"]
  by (auto simp: duration_fraction_def Let_def split: if_splits prod.splits)

lemma duration_part_shorter:
  assumes "duration_part s = Some (v, rest)"
  shows "length rest < length s"
proof -
  obtain v0 s1 where 1: "leading_int 0 s = Some (v0, s1)"
    using assms by (auto simp: duration_part_def split: if_splits option.splits)
  obtain f sc s2 post where 2: "duration_fraction s1 = (f, sc, s2, post)" by (cases "duration_fraction s1") auto
  have "length s2 \<le> length s" using leading_int_length [OF 1] duration_fraction_length [OF 2] by simp
  moreover have "takeWhile unit_char s2 \<noteq> []" "rest = drop (length (takeWhile unit_char s2)) s2"
    using assms by (auto simp: duration_part_def 1 2 Let_def split: if_splits option.splits)
  ultimately show ?thesis by (cases s2) auto
qed

function duration_parts :: "int \<Rightarrow> string \<Rightarrow> int option" where
  "duration_parts d s =
     (if s = [] then Some d
      else (case duration_part s of None \<Rightarrow> None
        | Some (v, rest) \<Rightarrow> if d + v > 2 ^ 63 then None else duration_parts (d + v) rest))"
  by auto
termination
  by (relation "measure (\<lambda>(d, s). length s)") (auto simp: duration_part_shorter)

declare duration_parts.simps [simp del]

definition parse_duration :: "string \<Rightarrow> duration option" where
  "parse_duration s =
     (let neg = (s \<noteq> [] \<and> hd s = CHR ''-'');
          s = (if s \<noteq> [] \<and> (hd s = CHR ''-'' \<or> hd s = CHR ''+'') then tl s else s)
      in if s = ''0'' then Some 0
         else if s = [] then None
         else (case duration_parts 0 s of None \<Rightarrow> None
           | Some d \<Rightarrow> if neg then Some (i64 (- d)) else if d > 2 ^ 63 - 1 then None else Some d))"

lemma parse_1m: "parse_duration ''1m'' = Some (1 * minute)"
  by (simp add: parse_duration_def duration_parts.simps duration_part_def duration_fraction_def unit_char_def is_digit_def digit_value_def Let_def
      unit_of_def time_units)

lemma parse_1h30m: "parse_duration ''1h30m'' = Some (90 * minute)"
  by (simp add: parse_duration_def duration_parts.simps duration_part_def duration_fraction_def unit_char_def is_digit_def digit_value_def Let_def
      unit_of_def time_units)

lemma parse_empty: "parse_duration [] = None" "parse_duration ''7d'' = None"
  by (simp_all add: parse_duration_def duration_parts.simps duration_part_def duration_fraction_def unit_char_def is_digit_def digit_value_def Let_def
      unit_of_def)

lemma parse_duration_in:
  assumes "parse_duration s = Some d" "0 < d"
  shows "in_i64 d"
proof -
  have "in_i64 d \<or> \<not> d > 2 ^ 63 - 1"
    using assms(1) by (auto simp: parse_duration_def Let_def i64_range split: if_splits option.splits)
  with assms(2) show ?thesis by (auto simp: in_i64_def)
qed

end
