(* ===== verification/MonService.thy ===== *)
theory MonService
  imports Alerts Durations WarmService
begin

text \<open>
  The monitoring service, \<open>monitoring/service.go\<close>: the metric, aggregation and alert requests and the three
  handlers that turn events of the other services into metrics.
\<close>

section \<open>State and configuration\<close>

record mon_config =
  mg_retention :: duration
  mg_window :: duration
  mg_alert_interval :: duration
  mg_max_per_sec :: int

definition mon_default_config :: mon_config where
  "mon_default_config = \<lparr>mg_retention = 1 * hour, mg_window = 1 * second, mg_alert_interval = 10 * second,
     mg_max_per_sec = 1000000\<rparr>"

record mon_service =
  mo_collector :: collector
  mo_aggregator :: aggregator
  mo_alerts :: alert_manager
  mo_cfg :: mon_config

definition mon_init :: "time \<Rightarrow> mon_service" where
  "mon_init now = \<lparr>mo_collector = new_metrics_collector now (mg_retention mon_default_config),
     mo_aggregator = new_aggregator, mo_alerts = new_alert_manager, mo_cfg = mon_default_config\<rparr>"

section \<open>Background work\<close>

text \<open>A tick of the aggregator and one of the alert manager.\<close>

definition mon_aggregate :: "(nat \<Rightarrow> time) \<Rightarrow> mon_service \<Rightarrow> mon_service" where
  "mon_aggregate clock s =
     (case get_latency_stats (mo_collector s) of
        None \<Rightarrow> s
      | Some l \<Rightarrow> s\<lparr>mo_aggregator := ag_aggregate clock (get_counters (mo_collector s)) l (mo_aggregator s)\<rparr>)"

definition mon_evaluate :: "(nat \<Rightarrow> time) \<Rightarrow> mon_service \<Rightarrow> mon_service" where
  "mon_evaluate clock s =
     s\<lparr>mo_alerts := evaluate_rules clock (sw_get_latest (ag_1m (mo_aggregator s))) (mo_alerts s)\<rparr>"

section \<open>Requests\<close>

record get_metrics_response =
  gm_at :: time
  gm_window :: string
  gm_total :: int
  gm_hits :: int
  gm_misses :: int
  gm_hit_rate :: f64
  gm_qps :: f64
  gm_avg :: f64
  gm_p50 :: f64
  gm_p90 :: f64
  gm_p95 :: f64
  gm_p99 :: f64
  gm_error_rate :: f64
  gm_invalidations :: int
  gm_warmings :: int
  gm_evictions :: int

definition metrics_response_of :: "time \<Rightarrow> string \<Rightarrow> aggregated_stats \<Rightarrow> get_metrics_response" where
  "metrics_response_of now window st = \<lparr>gm_at = now, gm_window = window, gm_total = as_total st,
     gm_hits = as_hits st, gm_misses = as_misses st, gm_hit_rate = as_hit_rate st, gm_qps = as_qps st,
     gm_avg = as_avg st, gm_p50 = as_p50 st, gm_p90 = as_p90 st, gm_p95 = as_p95 st, gm_p99 = as_p99 st,
     gm_error_rate = as_error_rate st, gm_invalidations = as_invalidations st, gm_warmings = as_warmings st,
     gm_evictions = as_evictions st\<rparr>"

definition stats_between :: "mon_service \<Rightarrow> time \<Rightarrow> time \<Rightarrow> aggregated_stats" where
  "stats_between s start stop = ag_get_stats start stop (mc_series (mo_collector s)) (mo_aggregator s)"

definition mon_get_metrics :: "time \<Rightarrow> mon_service \<Rightarrow> string \<Rightarrow> get_metrics_response go_result" where
  "mon_get_metrics now s req =
     (let window_str = (if req = [] then ''1m'' else req) in
      case parse_duration window_str of
        None \<Rightarrow> Inl (ErrMsg ''invalid window duration'')
      | Some window \<Rightarrow>
          if window \<le> 0 then Inl (ErrMsg ''window must be > 0'')
          else Inr (metrics_response_of now window_str (stats_between s (time_add now (i64 (- window))) now)))"

record aggregated_point =
  ap_at :: time
  ap_requests :: int
  ap_hit_rate :: f64
  ap_avg :: f64
  ap_p95 :: f64
  ap_qps :: f64
  ap_error_rate :: f64

definition point_of :: "mon_service \<Rightarrow> time \<Rightarrow> time \<Rightarrow> aggregated_point" where
  "point_of s start stop =
     (let st = stats_between s start stop
      in \<lparr>ap_at = start, ap_requests = as_total st, ap_hit_rate = as_hit_rate st, ap_avg = as_avg st,
          ap_p95 = as_p95 st, ap_qps = as_qps st, ap_error_rate = as_error_rate st\<rparr>)"

text \<open>The loop over the intervals; it runs only for a positive interval.\<close>

function data_points :: "mon_service \<Rightarrow> duration \<Rightarrow> time \<Rightarrow> time \<Rightarrow> aggregated_point list" where
  "data_points s interval stop current =
     (if time_before current stop \<and> 0 < interval then
        (let next_time = time_add current interval;
             next_time = (if time_after next_time stop then stop else next_time)
         in point_of s current next_time # data_points s interval stop next_time)
      else [])"
  by auto
termination
  by (relation "measure (\<lambda>(s, interval, stop, current). nat (stop - current))")
    (auto simp: time_before_def time_after_def time_add_def Let_def)

declare data_points.simps [simp del]

record get_aggregated_request =
  ga_start :: time
  ga_stop :: time
  ga_interval :: string

record get_aggregated_response =
  gr_points :: "aggregated_point list"
  gr_summary :: get_metrics_response

definition mon_get_aggregated :: "mon_service \<Rightarrow> get_aggregated_request \<Rightarrow> get_aggregated_response go_result" where
  "mon_get_aggregated s req =
     (if time_before (ga_stop req) (ga_start req) then Inl (ErrMsg ''end_time must be after start_time'')
      else
        (let interval_str = (if ga_interval req = [] then ''1m'' else ga_interval req) in
         case parse_duration interval_str of
           None \<Rightarrow> Inl (ErrMsg ''invalid interval duration'')
         | Some interval \<Rightarrow>
             if interval \<le> 0 then Inl (ErrMsg ''interval must be > 0'')
             else Inr \<lparr>gr_points = data_points s interval (ga_stop req) (ga_start req),
               gr_summary = metrics_response_of (ga_stop req)
                 (dur_string (time_sub (ga_stop req) (ga_start req)))
                 (stats_between s (ga_start req) (ga_stop req))\<rparr>))"

record get_alerts_response =
  gl_active :: "alert list"
  gl_recent :: "alert list"
  gl_stats :: alert_stats

definition mon_get_alerts :: "mon_service \<Rightarrow> get_alerts_response" where
  "mon_get_alerts s = \<lparr>gl_active = get_active_alerts (mo_alerts s),
     gl_recent = get_recent_resolved (mo_alerts s) 10, gl_stats = get_alert_stats (mo_alerts s)\<rparr>"

section \<open>Handlers\<close>

record cache_metric_event =
  cme_operation :: string
  cme_key :: string
  cme_hit :: bool
  cme_latency :: f64
  cme_size :: int
  cme_at :: time
  cme_instance :: string

record inval_metric_event =
  ime_pattern :: string
  ime_keys :: int
  ime_duration_ms :: int
  ime_by :: string
  ime_at :: time

definition plain_metric :: "metric_type \<Rightarrow> f64 \<Rightarrow> time \<Rightarrow> string \<Rightarrow> metric_event" where
  "plain_metric t v now src = \<lparr>me_type = t, me_value = v, me_at = now, me_source = src, me_labels = []\<rparr>"

definition record_into :: "(nat \<Rightarrow> time) \<Rightarrow> metric_event \<Rightarrow> mon_service \<Rightarrow> mon_service" where
  "record_into clock e s = s\<lparr>mo_collector := record_metric clock e (mo_collector s)\<rparr>"

definition handle_cache_metric :: "(nat \<Rightarrow> time) \<Rightarrow> cache_metric_event \<Rightarrow> mon_service \<Rightarrow> mon_service" where
  "handle_cache_metric clock e s =
     (let op = cme_operation e; src = ''cache-manager'';
          s = (if op = ''get'' then
                 (if cme_hit e then record_into clock (plain_metric MetricCacheHit (Fin 1) (cme_at e) src) s
                  else record_into clock (plain_metric MetricCacheMiss (Fin 1) (cme_at e) src) s)
               else s);
          s = (if op = ''set'' then record_into clock (plain_metric MetricCacheSet (Fin 1) (cme_at e) src) s
               else if op = ''delete'' then record_into clock (plain_metric MetricCacheDelete (Fin 1) (cme_at e) src) s
               else s)
      in if f_lt (Fin 0) (cme_latency e)
         then record_into clock
           ((plain_metric MetricLatency (cme_latency e) (cme_at e) src)\<lparr>me_labels := [(''operation'', op)]\<rparr>) s
         else s)"

definition handle_warm_completed :: "(nat \<Rightarrow> time) \<Rightarrow> warm_completed_event \<Rightarrow> mon_service \<Rightarrow> mon_service" where
  "handle_warm_completed clock e s =
     (let s = record_into clock ((plain_metric MetricWarming (Fin 1) (we_at e) ''warming'')
            \<lparr>me_labels := [(''status'', we_status e), (''strategy'', we_strategy e)]\<rparr>) s;
          s = record_into clock ((plain_metric MetricLatency (f_of_int (we_duration_ms e)) (we_at e) ''warming'')
            \<lparr>me_labels := [(''operation'', ''warm'')]\<rparr>) s
      in if we_status e \<noteq> ''success''
         then record_into clock (plain_metric MetricError (Fin 1) (we_at e) ''warming'') s else s)"

definition handle_inval_metric :: "(nat \<Rightarrow> time) \<Rightarrow> inval_metric_event \<Rightarrow> mon_service \<Rightarrow> mon_service" where
  "handle_inval_metric clock e s =
     (let s = record_into clock ((plain_metric MetricInvalidation (f_of_int (ime_keys e)) (ime_at e) ''invalidation'')
            \<lparr>me_labels := [(''triggered_by'', ime_by e)]\<rparr>) s
      in record_into clock ((plain_metric MetricLatency (f_of_int (ime_duration_ms e)) (ime_at e) ''invalidation'')
            \<lparr>me_labels := [(''operation'', ''invalidate'')]\<rparr>) s)"

section \<open>Lemmas\<close>

text \<open>The counters after an event of each kind.\<close>

lemma counters_record:
  "get_counters (mo_collector (record_into clock e s)) = count_event e (get_counters (mo_collector s))"
  by (simp add: get_counters_def record_into_def record_metric_def)

lemma one_i64: "f_to_int (Fin 1) = 1"
  by (simp add: rat_trunc_def in_i64_def)

lemma warm_completed_counters:
  "get_counters (mo_collector (handle_warm_completed clock e s)) =
     (let c = get_counters (mo_collector s)
      in c\<lparr>ct_warmings := add64 (ct_warmings c) 1,
           ct_errors := (if we_status e \<noteq> ''success'' then add64 (ct_errors c) 1 else ct_errors c)\<rparr>)"
  by (simp add: handle_warm_completed_def Let_def counters_record count_event_def plain_metric_def one_i64
      del: f_to_int.simps)

lemma cache_metric_counters:
  "get_counters (mo_collector (handle_cache_metric clock e s)) =
     (let c = get_counters (mo_collector s); op = cme_operation e
      in c\<lparr>ct_hits := (if op = ''get'' \<and> cme_hit e then add64 (ct_hits c) 1 else ct_hits c),
           ct_misses := (if op = ''get'' \<and> \<not> cme_hit e then add64 (ct_misses c) 1 else ct_misses c),
           ct_sets := (if op = ''set'' then add64 (ct_sets c) 1 else ct_sets c),
           ct_deletes := (if op = ''delete'' then add64 (ct_deletes c) 1 else ct_deletes c)\<rparr>)"
  by (auto simp: handle_cache_metric_def Let_def counters_record count_event_def plain_metric_def one_i64
      simp del: f_to_int.simps)

text \<open>The starts of the data points.\<close>

lemma data_points_starts:
  assumes "0 < interval"
  shows "map ap_at (data_points s interval stop current) =
    map (\<lambda>i. current + int i * interval) [0..<nat (- ((current - stop) div interval))]"
  using assms
proof (induction s interval stop current rule: data_points.induct)
  case (1 s interval stop current)
  let ?n = "\<lambda>cur. nat (- ((cur - stop) div interval))"
  show ?case
  proof (cases "current < stop")
    case True
    let ?next = "min (current + interval) stop"
    have m: "(if time_after (time_add current interval) stop then stop else time_add current interval) = ?next"
      by (simp add: time_after_def time_add_def min_def)
    have rec: "data_points s interval stop current = point_of s current ?next # data_points s interval stop ?next"
      using True "1.prems" by (subst data_points.simps)
        (simp add: m Let_def, simp add: time_before_def)
    have IH: "map ap_at (data_points s interval stop ?next) = map (\<lambda>i. ?next + int i * interval) [0..<?n ?next]"
      using "1.IH" [OF _ refl refl] True "1.prems" unfolding m by (simp add: time_before_def)
    have n: "?n current = Suc (?n ?next) \<and> (0 < ?n ?next \<longrightarrow> ?next = current + interval)"
    proof (cases "current + interval \<le> stop")
      case le: True
      have "current + interval - stop = (current - stop) + 1 * interval" by simp
      then have "(current + interval - stop) div interval = (current - stop) div interval + 1"
        using "1.prems" by (metis div_mult_self1 less_irrefl add.commute)
      moreover have "(current - stop) div interval < 0" using True "1.prems" by (simp add: pos_imp_zdiv_neg_iff)
      ultimately show ?thesis using le by (simp add: min_def)
    next
      case False
      then have "(current - stop) div interval = - 1"
        using True "1.prems" by (intro int_div_pos_eq [where r = "current - stop + interval"]) auto
      with False show ?thesis by (simp add: min_def)
    qed
    have shift: "map (\<lambda>i. current + int i * interval) [0..<Suc k] =
        current # map (\<lambda>i. current + interval + int i * interval) [0..<k]" for k
      by (simp add: map_upt_Suc algebra_simps del: upt_Suc)
    show ?thesis
    proof (cases "?n ?next")
      case 0
      with n IH rec show ?thesis by (simp add: point_of_def Let_def)
    next
      case (Suc k)
      with n have "?next = current + interval" "?n current = Suc (?n ?next)" by auto
      with IH rec shift [of "?n ?next"] show ?thesis by (simp add: point_of_def Let_def del: upt_Suc)
    qed
  next
    case False
    then have "0 \<le> (current - stop) div interval" using "1.prems" by (simp add: pos_imp_zdiv_nonneg_iff)
    with False show ?thesis by (subst data_points.simps) (simp add: time_before_def)
  qed
qed

text \<open>A list of completion events, handled one after the other.\<close>

definition deliver_completions :: "(nat \<Rightarrow> time) \<Rightarrow> warm_completed_event list \<Rightarrow> mon_service \<Rightarrow> mon_service" where
  "deliver_completions clock es s = fold (handle_warm_completed clock) es s"

lemma deliver_completions_counters:
  assumes "\<forall>e \<in> set es. we_status e \<noteq> ''success''"
    and "ct_warmings (get_counters (mo_collector s)) = i64 n" "ct_errors (get_counters (mo_collector s)) = i64 m"
  shows "ct_warmings (get_counters (mo_collector (deliver_completions clock es s))) = i64 (n + int (length es)) \<and>
    ct_errors (get_counters (mo_collector (deliver_completions clock es s))) = i64 (m + int (length es)) \<and>
    ct_hits (get_counters (mo_collector (deliver_completions clock es s))) = ct_hits (get_counters (mo_collector s)) \<and>
    ct_misses (get_counters (mo_collector (deliver_completions clock es s))) = ct_misses (get_counters (mo_collector s))"
  using assms
proof (induction es arbitrary: s n m)
  case (Cons e es)
  let ?s = "handle_warm_completed clock e s"
  have "ct_warmings (get_counters (mo_collector ?s)) = i64 (n + 1)"
    "ct_errors (get_counters (mo_collector ?s)) = i64 (m + 1)"
    using Cons.prems by (simp_all add: warm_completed_counters Let_def add64_def i64_add_left)
  from Cons.IH [OF _ this] Cons.prems(1) show ?case
    by (simp add: deliver_completions_def warm_completed_counters Let_def add.assoc)
qed (simp add: deliver_completions_def)

section \<open>Properties\<close>



end
