(* ===== verification/Dashboard.thy ===== *)
theory Dashboard
  imports MonService TimeFormat
begin

text \<open>
  The dashboard of the monitoring service, \<open>monitoring/dashboard.go\<close>: the overview with its timeline
  and health score, the latency distribution, the heatmap and the comparison of two periods.  Every
  request makes a new \<open>Dashboard\<close> over the aggregator, collector and alert manager of the service, so
  the functions below take the \<^typ>\<open>mon_service\<close>.  The streams are in theory \<open>Streams\<close>, the export in
  theory \<open>Export\<close>.
\<close>

section \<open>Overview\<close>

record summary_stats =
  su_total :: int
  su_hit_rate :: f64
  su_avg :: f64
  su_p95 :: f64
  su_error_rate :: f64
  su_qps :: f64
  su_trend_hit_rate :: string
  su_trend_latency :: string
  su_trend_qps :: string

record timeline_point =
  tp_at :: time
  tp_requests :: int
  tp_hit_rate :: f64
  tp_avg :: f64
  tp_p50 :: f64
  tp_p95 :: f64
  tp_p99 :: f64
  tp_error_rate :: f64
  tp_qps :: f64

record key_stats =
  ks_key :: string
  ks_count :: int
  ks_hit_rate :: f64
  ks_avg :: f64
  ks_last :: time

record health_issue =
  hi_type :: string
  hi_severity :: string
  hi_message :: string
  hi_impact :: string

record system_health =
  sh_status :: string
  sh_score :: f64
  sh_issues :: "health_issue list"
  sh_recommendations :: "string list"

record overview_response =
  ov_summary :: summary_stats
  ov_timeline :: "timeline_point list"
  ov_top_keys :: "key_stats list"
  ov_health :: system_health
  ov_alerts :: "alert list"
  ov_anomalies :: "anomaly list"

definition calculate_trend :: "f64 \<Rightarrow> f64 \<Rightarrow> string" where
  "calculate_trend current previous =
     (if f_eq previous (Fin 0) then ''stable''
      else
        (let change = f_div (f_sub current previous) previous in
         if f_lt (f_const (5 / 100)) change then ''up''
         else if f_lt change (f_const (- 5 / 100)) then ''down'' else ''stable''))"

definition calculate_percent_change :: "f64 \<Rightarrow> f64 \<Rightarrow> f64" where
  "calculate_percent_change old new =
     (if f_eq old (Fin 0) then Fin 0 else f_mul (f_div (f_sub new old) old) (Fin 100))"

text \<open>The start times of at most \<open>n\<close> intervals before the end.\<close>

fun interval_starts :: "nat \<Rightarrow> duration \<Rightarrow> time \<Rightarrow> time \<Rightarrow> time list" where
  "interval_starts 0 interval stop t = []"
| "interval_starts (Suc n) interval stop t =
     (if time_before t stop then t # interval_starts n interval stop (time_add t interval) else [])"

definition timeline_point_at :: "mon_service \<Rightarrow> duration \<Rightarrow> time \<Rightarrow> timeline_point" where
  "timeline_point_at s interval t =
     (let st = stats_between s t (time_add t interval)
      in \<lparr>tp_at = t, tp_requests = as_total st, tp_hit_rate = as_hit_rate st, tp_avg = as_avg st,
          tp_p50 = as_p50 st, tp_p95 = as_p95 st, tp_p99 = as_p99 st, tp_error_rate = as_error_rate st,
          tp_qps = as_qps st\<rparr>)"

definition generate_timeline :: "mon_service \<Rightarrow> time \<Rightarrow> time \<Rightarrow> nat \<Rightarrow> timeline_point list" where
  "generate_timeline s start stop n =
     (let d = time_sub stop start; interval = go_div d (int n)
      in map (timeline_point_at s interval) (interval_starts n interval stop start))"

text \<open>The three keys of the mock, whatever the limit.\<close>

definition get_top_keys :: "(nat \<Rightarrow> time) \<Rightarrow> key_stats list" where
  "get_top_keys clock =
     [\<lparr>ks_key = ''user:123:profile'', ks_count = 1523, ks_hit_rate = f_const (95 / 100),
        ks_avg = f_const (23 / 10), ks_last = clock 0\<rparr>,
      \<lparr>ks_key = ''product:456'', ks_count = 892, ks_hit_rate = f_const (87 / 100),
        ks_avg = f_const (51 / 10), ks_last = clock 1\<rparr>,
      \<lparr>ks_key = ''session:789'', ks_count = 654, ks_hit_rate = f_const (92 / 100),
        ks_avg = f_const (32 / 10), ks_last = clock 2\<rparr>]"

section \<open>System health\<close>

text \<open>A check takes points off the score and adds an issue with a recommendation, or leaves all as it is.\<close>

type_synonym health_state = "f64 \<times> health_issue list \<times> string list"

definition check_hit_rate :: "aggregated_stats \<Rightarrow> health_state \<Rightarrow> health_state" where
  "check_hit_rate st = (\<lambda>(score, issues, recs).
     if f_lt (as_hit_rate st) (f_const (7 / 10)) then
       (f_sub score (Fin 20),
        issues @ [\<lparr>hi_type = ''cache_efficiency'', hi_severity = ''warning'',
          hi_message = ''Cache hit rate is low ('' @ fmt_float 1 (f_mul (as_hit_rate st) (Fin 100)) @ ''%)'',
          hi_impact = ''Increased database load and slower response times''\<rparr>],
        recs @ [''Consider increasing cache size or TTL values''])
     else (score, issues, recs))"

definition check_latency :: "aggregated_stats \<Rightarrow> health_state \<Rightarrow> health_state" where
  "check_latency st = (\<lambda>(score, issues, recs).
     if f_lt (Fin 100) (as_p95 st) then
       (let score = f_sub score (Fin 15); critical = f_lt (Fin 200) (as_p95 st);
            score = (if critical then f_sub score (Fin 15) else score)
        in (score,
          issues @ [\<lparr>hi_type = ''performance'', hi_severity = (if critical then ''critical'' else ''warning''),
            hi_message = ''P95 latency is elevated ('' @ fmt_float 1 (as_p95 st) @ ''ms)'',
            hi_impact = ''User experience degradation''\<rparr>],
          recs @ [''Investigate slow queries and optimize hot paths'']))
     else (score, issues, recs))"

definition check_error_rate :: "aggregated_stats \<Rightarrow> health_state \<Rightarrow> health_state" where
  "check_error_rate st = (\<lambda>(score, issues, recs).
     if f_lt (f_const (1 / 100)) (as_error_rate st) then
       (let score = f_sub score (Fin 25); critical = f_lt (f_const (5 / 100)) (as_error_rate st);
            score = (if critical then f_sub score (Fin 25) else score)
        in (score,
          issues @ [\<lparr>hi_type = ''reliability'', hi_severity = (if critical then ''critical'' else ''warning''),
            hi_message = ''Error rate is high ('' @ fmt_float 2 (f_mul (as_error_rate st) (Fin 100)) @ ''%)'',
            hi_impact = ''Service reliability concerns''\<rparr>],
          recs @ [''Review error logs and fix underlying issues'']))
     else (score, issues, recs))"

definition check_evictions :: "aggregated_stats \<Rightarrow> health_state \<Rightarrow> health_state" where
  "check_evictions st = (\<lambda>(score, issues, recs).
     let eviction_rate = f_div (f_of_int (as_evictions st)) (Fin 60) in
     if as_evictions st > 0 \<and> f_lt (Fin 10) eviction_rate then
       (f_sub score (Fin 10),
        issues @ [\<lparr>hi_type = ''capacity'', hi_severity = ''info'',
          hi_message = ''High eviction rate ('' @ fmt_float 1 eviction_rate @ ''/sec)'',
          hi_impact = ''Cache thrashing may occur''\<rparr>],
        recs @ [''Consider increasing cache capacity''])
     else (score, issues, recs))"

definition health_status :: "f64 \<Rightarrow> string" where
  "health_status score =
     (let status = ''healthy'';
          status = (if f_lt score (Fin 80) then ''degraded'' else status)
      in if f_lt score (Fin 60) then ''critical'' else status)"

definition calculate_system_health :: "aggregated_stats \<Rightarrow> system_health" where
  "calculate_system_health st =
     (let (score, issues, recs) =
            check_evictions st (check_error_rate st (check_latency st (check_hit_rate st (Fin 100, [], []))))
      in \<lparr>sh_status = health_status score, sh_score = (if f_lt (Fin 0) score then score else Fin 0),
          sh_issues = issues, sh_recommendations = recs\<rparr>)"

section \<open>The overview request\<close>

text \<open>The clock readings: now, three of the mock keys, and the one of the anomaly detector.\<close>

definition dash_overview :: "(nat \<Rightarrow> time) \<Rightarrow> mon_service \<Rightarrow> string \<Rightarrow> overview_response go_result" where
  "dash_overview clock s time_range =
     (case parse_duration (if time_range = [] then ''1h'' else time_range) of
        None \<Rightarrow> Inl (ErrMsg ''invalid time_range duration'')
      | Some width \<Rightarrow>
          if width \<le> 0 then Inl (ErrMsg ''time_range must be > 0'')
          else
            (let now = clock 0; start = time_add now (i64 (- width));
                 cur = stats_between s start now;
                 prev = stats_between s (time_add start (i64 (- width))) start
             in Inr \<lparr>ov_summary = \<lparr>su_total = as_total cur, su_hit_rate = as_hit_rate cur, su_avg = as_avg cur,
                    su_p95 = as_p95 cur, su_error_rate = as_error_rate cur, su_qps = as_qps cur,
                    su_trend_hit_rate = calculate_trend (as_hit_rate cur) (as_hit_rate prev),
                    su_trend_latency = calculate_trend (as_p95 cur) (as_p95 prev),
                    su_trend_qps = calculate_trend (as_qps cur) (as_qps prev)\<rparr>,
                  ov_timeline = generate_timeline s start now 60,
                  ov_top_keys = get_top_keys (\<lambda>i. clock (Suc i)),
                  ov_health = calculate_system_health cur,
                  ov_alerts = get_active_alerts (mo_alerts s) @ get_recent_resolved (mo_alerts s) 5,
                  ov_anomalies = get_recent_anomalies (clock 4) width (ag_detector (mo_aggregator s))\<rparr>))"

section \<open>Latency distribution\<close>

record latency_bucket =
  lb_min :: f64
  lb_max :: f64
  lb_count :: int
  lb_percent :: f64

record distribution_response =
  di_buckets :: "latency_bucket list"
  di_stats :: latency_stats

definition bucket_bounds :: "(f64 \<times> f64) list" where
  "bucket_bounds = [(Fin 0, Fin 1), (Fin 1, Fin 5), (Fin 5, Fin 10), (Fin 10, Fin 25), (Fin 25, Fin 50),
     (Fin 50, Fin 100), (Fin 100, Fin 250), (Fin 250, Fin 500), (Fin 500, Fin 1000),
     (Fin 1000, max_float64)]"

definition empty_buckets :: "latency_bucket list" where
  "empty_buckets = map (\<lambda>(lo, hi). \<lparr>lb_min = lo, lb_max = hi, lb_count = 0, lb_percent = Fin 0\<rparr>) bucket_bounds"

definition in_bucket :: "f64 \<Rightarrow> latency_bucket \<Rightarrow> bool" where
  "in_bucket v b \<longleftrightarrow> f_le (lb_min b) v \<and> f_lt v (lb_max b)"

text \<open>The inner loop, which stops at the first bucket that holds the value.\<close>

fun count_sample :: "f64 \<Rightarrow> latency_bucket list \<Rightarrow> latency_bucket list" where
  "count_sample v [] = []"
| "count_sample v (b # bs) =
     (if in_bucket v b then b\<lparr>lb_count := add64 (lb_count b) 1\<rparr> # bs else b # count_sample v bs)"

definition fill_buckets :: "f64 list \<Rightarrow> latency_bucket list" where
  "fill_buckets values = fold count_sample values empty_buckets"

definition set_percent :: "int \<Rightarrow> latency_bucket \<Rightarrow> latency_bucket" where
  "set_percent n b = b\<lparr>lb_percent := f_mul (f_div (f_of_int (lb_count b)) (f_of_int n)) (Fin 100)\<rparr>"

text \<open>\<^const>\<open>None\<close> is a walk over the ring buffer that does not end; it never happens (theorem
  \<open>distribution_returns\<close>).\<close>

definition dash_latency_distribution ::
    "time \<Rightarrow> mon_service \<Rightarrow> string \<Rightarrow> distribution_response go_result option" where
  "dash_latency_distribution now s req_window =
     (case parse_duration (if req_window = [] then ''5m'' else req_window) of
        None \<Rightarrow> Some (Inl (ErrMsg ''invalid window duration''))
      | Some window \<Rightarrow>
          if window \<le> 0 then Some (Inl (ErrMsg ''window must be > 0''))
          else
            map_option (\<lambda>samples.
              if samples = [] then Inr \<lparr>di_buckets = [], di_stats = empty_latency_stats\<rparr>
              else Inr \<lparr>di_buckets = map (set_percent (int (length samples))) (fill_buckets (map sm_value samples)),
                di_stats = calculate_latency_stats samples\<rparr>)
              (ring_get_recent now window (mc_latency (mo_collector s))))"

section \<open>Heatmap\<close>

record heatmap_cell =
  hc_value :: f64
  hc_color :: string
  hc_tooltip :: string

record color_scale =
  cs_min :: f64
  cs_max :: f64
  cs_colors :: "string list"

record heatmap_response =
  hr_data :: "heatmap_cell list list"
  hr_x_labels :: "string list"
  hr_y_labels :: "string list"
  hr_scale :: color_scale

definition blank_cell :: heatmap_cell where
  "blank_cell = \<lparr>hc_value = Fin 0, hc_color = [], hc_tooltip = []\<rparr>"

definition heat_granularity :: "duration \<Rightarrow> duration \<times> nat" where
  "heat_granularity d =
     (if d \<le> 1 * hour then (1 * minute, 60)
      else if d \<le> 6 * hour then (5 * minute, 72)
      else if d \<le> 24 * hour then (15 * minute, 96)
      else (1 * hour, 24))"

definition heat_scale :: "string \<Rightarrow> (string list \<times> f64 \<times> f64) option" where
  "heat_scale metric =
     (if metric = ''hit_rate'' then
        Some ([''0-20%'', ''20-40%'', ''40-60%'', ''60-80%'', ''80-100%''], Fin 0, Fin 1)
      else if metric = ''latency'' then
        Some ([''0-10ms'', ''10-25ms'', ''25-50ms'', ''50-100ms'', ''100ms+''], Fin 0, Fin 200)
      else if metric = ''qps'' then
        Some ([''0-100'', ''100-500'', ''500-1K'', ''1K-5K'', ''5K+''], Fin 0, Fin 10000)
      else if metric = ''error_rate'' then
        Some ([''0-1%'', ''1-2%'', ''2-5%'', ''5-10%'', ''10%+''], Fin 0, f_const (1 / 10))
      else None)"

definition heat_value :: "string \<Rightarrow> aggregated_stats \<Rightarrow> f64" where
  "heat_value metric st =
     (if metric = ''hit_rate'' then as_hit_rate st
      else if metric = ''latency'' then as_p95 st
      else if metric = ''qps'' then as_qps st
      else if metric = ''error_rate'' then as_error_rate st
      else Fin 0)"

definition heatmap_row :: "f64 \<Rightarrow> f64 \<Rightarrow> f64 \<Rightarrow> int \<Rightarrow> int" where
  "heatmap_row value lo hi rows =
     (if f_le value lo then rows - 1
      else if f_le hi value then 0
      else
        (let normalized = f_div (f_sub value lo) (f_sub hi lo);
             row = f_to_int (f_mul (f_sub (Fin 1) normalized) (f_of_int rows));
             row = (if row < 0 then 0 else row)
         in if row \<ge> rows then rows - 1 else row))"

definition heatmap_color :: "f64 \<Rightarrow> f64 \<Rightarrow> f64 \<Rightarrow> string" where
  "heatmap_color value lo hi =
     (if f_eq hi lo then ''#00ff00''
      else
        (let normalized = f_div (f_sub value lo) (f_sub hi lo) in
         if f_lt normalized (f_const (1 / 4)) then ''#00ff00''
         else if f_lt normalized (f_const (1 / 2)) then ''#ffff00''
         else if f_lt normalized (f_const (3 / 4)) then ''#ff9900''
         else ''#ff0000''))"

definition heat_cell :: "string \<Rightarrow> f64 \<Rightarrow> f64 \<Rightarrow> f64 \<Rightarrow> time \<Rightarrow> heatmap_cell" where
  "heat_cell metric lo hi value t =
     \<lparr>hc_value = value, hc_color = heatmap_color value lo hi,
      hc_tooltip = metric @ '': '' @ fmt_float 2 value @ '' at '' @ format_hm t\<rparr>"

text \<open>The loop over the columns writes one cell into the grid of blank cells.\<close>

definition heat_fill ::
    "mon_service \<Rightarrow> string \<Rightarrow> duration \<Rightarrow> f64 \<Rightarrow> f64 \<Rightarrow> nat \<Rightarrow> time list \<Rightarrow> heatmap_cell list list" where
  "heat_fill s metric interval lo hi rows starts =
     fold (\<lambda>(col, t) data.
         let value = heat_value metric (stats_between s t (time_add t interval));
             row = heatmap_row value lo hi (int rows)
         in if row \<ge> 0 \<and> row < int rows
            then data[nat row := (data ! nat row)[col := heat_cell metric lo hi value t]]
            else data)
       (zip [0..<length starts] starts)
       (replicate rows (replicate (length starts) blank_cell))"

definition dash_heatmap :: "mon_service \<Rightarrow> time \<Rightarrow> time \<Rightarrow> string \<Rightarrow> heatmap_response go_result" where
  "dash_heatmap s start stop metric =
     (let d = time_sub stop start; (interval, num_buckets) = heat_granularity d;
          starts = interval_starts num_buckets interval stop start
      in case heat_scale metric of
           None \<Rightarrow> Inl (ErrMsg (''unsupported metric: '' @ metric))
         | Some (labels, lo, hi) \<Rightarrow>
             Inr \<lparr>hr_data = heat_fill s metric interval lo hi (length labels) starts,
               hr_x_labels = map format_hm starts, hr_y_labels = labels,
               hr_scale = \<lparr>cs_min = lo, cs_max = hi,
                 cs_colors = [''#00ff00'', ''#ffff00'', ''#ff9900'', ''#ff0000'']\<rparr>\<rparr>)"

section \<open>Comparison\<close>

record comparison_period =
  cp_label :: string
  cp_total :: int
  cp_hit_rate :: f64
  cp_avg :: f64
  cp_p95 :: f64
  cp_error_rate :: f64
  cp_qps :: f64

record difference_stats =
  df_requests :: int
  df_requests_pct :: f64
  df_hit_rate :: f64
  df_latency :: f64
  df_latency_pct :: f64
  df_error_rate :: f64
  df_qps :: f64
  df_qps_pct :: f64

record comparison_response =
  cr_period1 :: comparison_period
  cr_period2 :: comparison_period
  cr_differences :: difference_stats

definition period_of :: "string \<Rightarrow> aggregated_stats \<Rightarrow> comparison_period" where
  "period_of label st = \<lparr>cp_label = label, cp_total = as_total st, cp_hit_rate = as_hit_rate st,
     cp_avg = as_avg st, cp_p95 = as_p95 st, cp_error_rate = as_error_rate st, cp_qps = as_qps st\<rparr>"

definition differences_of :: "aggregated_stats \<Rightarrow> aggregated_stats \<Rightarrow> difference_stats" where
  "differences_of st1 st2 =
     \<lparr>df_requests = i64 (as_total st2 - as_total st1),
      df_requests_pct = calculate_percent_change (f_of_int (as_total st1)) (f_of_int (as_total st2)),
      df_hit_rate = f_sub (as_hit_rate st2) (as_hit_rate st1),
      df_latency = f_sub (as_p95 st2) (as_p95 st1),
      df_latency_pct = calculate_percent_change (as_p95 st1) (as_p95 st2),
      df_error_rate = f_sub (as_error_rate st2) (as_error_rate st1),
      df_qps = f_sub (as_qps st2) (as_qps st1),
      df_qps_pct = calculate_percent_change (as_qps st1) (as_qps st2)\<rparr>"

definition dash_comparison :: "mon_service \<Rightarrow> time \<Rightarrow> time \<Rightarrow> time \<Rightarrow> time \<Rightarrow> comparison_response" where
  "dash_comparison s start1 stop1 start2 stop2 =
     (let st1 = stats_between s start1 stop1; st2 = stats_between s start2 stop2
      in \<lparr>cr_period1 = period_of ''Period 1'' st1, cr_period2 = period_of ''Period 2'' st2,
          cr_differences = differences_of st1 st2\<rparr>)"

section \<open>Lemmas on the loops\<close>

lemma interval_starts_length:
  "0 < interval \<Longrightarrow> length (interval_starts n interval stop t) =
     min n (nat ((stop - t + interval - 1) div interval))"
proof (induction n arbitrary: t)
  case (Suc n)
  show ?case
  proof (cases "t < stop")
    case True
    have "(stop - t + interval - 1) div interval = (stop - (t + interval) + interval - 1) div interval + 1"
      using Suc.prems div_add_self2 [of interval "stop - t - 1"] by (simp add: algebra_simps)
    moreover have "0 \<le> (stop - (t + interval) + interval - 1) div interval"
      using True Suc.prems by (simp add: pos_imp_zdiv_nonneg_iff)
    ultimately have "nat ((stop - t + interval - 1) div interval) =
        Suc (nat ((stop - (t + interval) + interval - 1) div interval))" by linarith
    then show ?thesis
      using True Suc by (simp add: time_before_def time_add_def)
  next
    case False
    then have "(stop - t + interval - 1) div interval \<le> 0"
      using Suc.prems zdiv_mono1 [of "stop - t + interval - 1" "interval - 1" interval]
      by (simp add: div_pos_pos_trivial)
    with False show ?thesis by (simp add: time_before_def)
  qed
qed simp

lemma interval_starts_nth:
  "i < length (interval_starts n interval stop t) \<Longrightarrow> interval_starts n interval stop t ! i = t + int i * interval"
proof (induction n arbitrary: t i)
  case (Suc n)
  then show ?case
    by (cases i) (auto simp: time_add_def algebra_simps split: if_splits)
qed simp

lemma interval_starts_eq:
  "interval_starts n interval stop t =
     map (\<lambda>i. t + int i * interval) [0..<length (interval_starts n interval stop t)]"
  by (rule nth_equalityI) (simp_all add: interval_starts_nth)

lemma interval_starts_full:
  assumes "\<And>i. i < n \<Longrightarrow> t + int i * interval < stop"
  shows "length (interval_starts n interval stop t) = n"
  using assms
proof (induction n arbitrary: t)
  case (Suc n)
  have "t + interval + int i * interval < stop" if "i < n" for i
    using Suc.prems [of "Suc i"] that by (simp add: algebra_simps)
  moreover have "t < stop" using Suc.prems [of 0] by simp
  ultimately show ?case using Suc.IH [of "t + interval"] by (simp add: time_before_def time_add_def)
qed simp

text \<open>Writing one cell per column into a blank grid gives the grid described cell by cell.\<close>

lemma grid_fill:
  assumes "k \<le> n" and "\<And>c. c < k \<Longrightarrow> row c < rows"
  shows "fold (\<lambda>c data. data[row c := (data ! row c)[c := cell c]]) [0..<k]
      (replicate rows (replicate n blank)) =
    map (\<lambda>r. map (\<lambda>c. if c < k \<and> r = row c then cell c else blank) [0..<n]) [0..<rows]"
  using assms
proof (induction k)
  case 0
  show ?case by (simp add: map_replicate_const)
next
  case (Suc k)
  let ?cell = "\<lambda>r c. if c < Suc k \<and> r = row c then cell c else blank"
  let ?new = "map (\<lambda>r. map (?cell r) [0..<n]) [0..<rows]"
  let ?old = "map (\<lambda>r. map (\<lambda>c. if c < k \<and> r = row c then cell c else blank) [0..<n]) [0..<rows]"
  have "?old[row k := (?old ! row k)[k := cell k]] = ?new"
  proof (intro nth_equalityI)
    fix r c
    assume "r < length (?old[row k := (?old ! row k)[k := cell k]])"
      and "c < length (?old[row k := (?old ! row k)[k := cell k]] ! r)"
    then show "?old[row k := (?old ! row k)[k := cell k]] ! r ! c = ?new ! r ! c"
      using Suc.prems by (auto simp: nth_list_update less_Suc_eq split: if_splits)
  next
    fix r
    assume "r < length (?old[row k := (?old ! row k)[k := cell k]])"
    then show "length (?old[row k := (?old ! row k)[k := cell k]] ! r) = length (?new ! r)"
      by (cases "r = row k") simp_all
  qed simp
  with Suc show ?case by simp
qed

section \<open>Lemmas on the histogram\<close>

definition bucket_of :: "f64 list \<Rightarrow> f64 \<times> f64 \<Rightarrow> latency_bucket" where
  "bucket_of vs = (\<lambda>(lo, hi). \<lparr>lb_min = lo, lb_max = hi,
     lb_count = i64 (int (length (filter (\<lambda>v. f_le lo v \<and> f_lt v hi) vs))), lb_percent = Fin 0\<rparr>)"

lemma count_sample_disjoint:
  assumes "sorted_wrt (\<lambda>a b. \<not> (in_bucket v a \<and> in_bucket v b)) bs"
  shows "count_sample v bs = map (\<lambda>b. if in_bucket v b then b\<lparr>lb_count := add64 (lb_count b) 1\<rparr> else b) bs"
  using assms
proof (induction bs)
  case (Cons b bs)
  show ?case
  proof (cases "in_bucket v b")
    case True
    with Cons.prems have "map (\<lambda>b. if in_bucket v b then b\<lparr>lb_count := add64 (lb_count b) 1\<rparr> else b) bs = map (\<lambda>b. b) bs"
      by (intro map_cong) auto
    with True show ?thesis by simp
  qed (use Cons in simp)
qed simp

lemma bounds_disjoint:
  "sorted_wrt (\<lambda>a b. \<not> (in_bucket v a \<and> in_bucket v b)) (map (bucket_of vs) bucket_bounds)"
  by (cases v) (simp_all add: bucket_bounds_def bucket_of_def in_bucket_def f_le_def)

lemma fill_buckets_exact: "fill_buckets vs = map (bucket_of vs) bucket_bounds"
proof (induction vs rule: rev_induct)
  case Nil
  show ?case by (simp add: fill_buckets_def empty_buckets_def bucket_of_def i64_def cong: map_cong)
next
  case (snoc v vs)
  have "fill_buckets (vs @ [v]) = count_sample v (fill_buckets vs)" by (simp add: fill_buckets_def)
  also have "\<dots> = map (bucket_of (vs @ [v])) bucket_bounds"
    unfolding snoc.IH count_sample_disjoint [OF bounds_disjoint]
    by (auto simp: bucket_of_def in_bucket_def add64_def go_int add.commute)
  finally show ?case .
qed

text \<open>Intervals between consecutive bounds hold each value of their range once.\<close>

lemma consecutive_once:
  assumes "sorted (a # as)"
  shows "sum_list (map (\<lambda>(lo, hi). if lo \<le> x \<and> x < hi then 1 else 0) (zip (a # as) as)) =
    (if a \<le> x \<and> x < last (a # as) then 1 else (0 :: nat))"
  using assms
proof (induction as arbitrary: a)
  case (Cons b bs)
  have "b \<le> last (b # bs)" using Cons.prems by (cases bs) auto
  moreover have "sum_list (map (\<lambda>(lo, hi). if lo \<le> x \<and> x < hi then 1 else 0) (zip (b # bs) bs)) =
      (if b \<le> x \<and> x < last (b # bs) then 1 else (0 :: nat))"
    using Cons.prems by (intro Cons.IH) simp
  moreover have "last (a # b # bs) = last (b # bs)" by simp
  moreover have "a \<le> b" using Cons.prems by simp
  ultimately show ?case by (auto simp del: last.simps)
qed auto

lemma counted_once:
  assumes "f_le (Fin 0) v" "f_lt v max_float64"
  shows "sum_list (map (\<lambda>(lo, hi). if f_le lo v \<and> f_lt v hi then 1 else (0 :: nat)) bucket_bounds) = 1"
proof -
  obtain x where v: "v = Fin x" and x: "0 \<le> x" "x < (2 ^ 53 - 1) * 2 ^ 971"
    using assms by (cases v) (auto simp: f_le_def max_float64_def)
  define M :: rat where "M = (2 ^ 53 - 1) * 2 ^ 971"
  have M: "max_float64 = Fin M" "1000 < M" "x < M" using x by (simp_all add: max_float64_def M_def)
  let ?ts = "[1, 5, 10, 25, 50, 100, 250, 500, 1000, M]"
  have bounds: "bucket_bounds = map (\<lambda>(lo, hi). (Fin lo, Fin hi)) (zip (0 # ?ts) ?ts)"
    by (simp add: bucket_bounds_def M(1))
  have "sum_list (map (\<lambda>(lo, hi). if f_le lo v \<and> f_lt v hi then 1 else (0 :: nat))
      (map (\<lambda>(lo, hi). (Fin lo, Fin hi)) zs)) = sum_list (map (\<lambda>(lo, hi). if lo \<le> x \<and> x < hi then 1 else 0) zs)" for zs
    by (induction zs) (auto simp: v f_le_def le_less)
  moreover have "sum_list (map (\<lambda>(lo, hi). if lo \<le> x \<and> x < hi then 1 else (0 :: nat)) (zip (0 # ?ts) ?ts)) =
      (if 0 \<le> x \<and> x < last (0 # ?ts) then 1 else 0)"
    using M(2) by (intro consecutive_once) simp
  moreover have "last (0 # ?ts) = M" by simp
  ultimately show ?thesis unfolding bounds using x(1) M(3) by (metis (no_types, lifting))
qed

lemma counts_add_up:
  assumes "\<And>v. v \<in> set vs \<Longrightarrow> f_le (Fin 0) v \<and> f_lt v max_float64"
  shows "sum_list (map (\<lambda>(lo, hi). length (filter (\<lambda>v. f_le lo v \<and> f_lt v hi) vs)) bucket_bounds) = length vs"
  using assms
proof (induction vs)
  case Nil
  show ?case by (simp add: bucket_bounds_def)
next
  case (Cons v vs)
  have "(\<lambda>(lo, hi). length (filter (\<lambda>v. f_le lo v \<and> f_lt v hi) (v # vs))) =
      (\<lambda>b. (case b of (lo, hi) \<Rightarrow> length (filter (\<lambda>v. f_le lo v \<and> f_lt v hi) vs)) +
        (case b of (lo, hi) \<Rightarrow> if f_le lo v \<and> f_lt v hi then 1 else 0))"
    by (auto simp: fun_eq_iff)
  then show ?case using Cons counted_once [of v] by (simp add: sum_list_addf)
qed

section \<open>Properties\<close>

text \<open>The window of an accepted request, and what the walk over the ring buffer returns: it always ends.\<close>

lemma distribution_returns:
  assumes "ring_holds xs (mc_latency (mo_collector s))"
  shows "dash_latency_distribution now s req_window \<noteq> None"
  using ring_get_all_exact [OF assms]
  by (auto simp: dash_latency_distribution_def ring_get_recent_def split: option.splits)

text \<open>
  Further result.  The latency distribution is a partition of the samples: each bucket counts the samples
  between its bounds, and when all samples are non-negative (and finite) every one is in exactly one
  bucket, so the counts add up to their number.
\<close>

theorem distribution_partitions:
  assumes "parse_duration req_window = Some window" "0 < window" "req_window \<noteq> []"
    and "ring_get_recent now window (mc_latency (mo_collector s)) = Some samples"
    and "samples \<noteq> []" "int (length samples) < 2 ^ 63"
  shows "\<exists>r. dash_latency_distribution now s req_window = Some (Inr r) \<and>
    map (\<lambda>b. (lb_min b, lb_max b, lb_count b)) (di_buckets r) =
      map (\<lambda>(lo, hi). (lo, hi, int (length (filter (\<lambda>x. f_le lo (sm_value x) \<and> f_lt (sm_value x) hi) samples))))
        bucket_bounds \<and>
    ((\<forall>x \<in> set samples. f_le (Fin 0) (sm_value x) \<and> f_lt (sm_value x) max_float64) \<longrightarrow>
      sum_list (map lb_count (di_buckets r)) = int (length samples))"
proof -
  let ?vs = "map sm_value samples"
  let ?bs = "map (set_percent (int (length samples))) (fill_buckets ?vs)"
  let ?n = "\<lambda>(lo, hi). length (filter (\<lambda>v. f_le lo v \<and> f_lt v hi) ?vs)"
  have r: "dash_latency_distribution now s req_window =
      Some (Inr \<lparr>di_buckets = ?bs, di_stats = calculate_latency_stats samples\<rparr>)"
    using assms by (simp add: dash_latency_distribution_def)
  have small: "i64 (int (length (filter P ?vs))) = int (length (filter P ?vs))" for P
  proof (rule i64_id)
    have "length (filter P ?vs) \<le> length samples" by (metis length_filter_le length_map)
    then show "in_i64 (int (length (filter P ?vs)))" using assms(6) unfolding in_i64_def by linarith
  qed
  then have small': "i64 (int (length (filter (P \<circ> sm_value) samples))) =
      int (length (filter (P \<circ> sm_value) samples))" for P
    by (simp add: filter_map)
  have counts: "map lb_count ?bs = map int (map ?n bucket_bounds)"
    by (auto simp: fill_buckets_exact bucket_of_def set_percent_def small small' simp del: filter_map)
  have parts: "map (\<lambda>b. (lb_min b, lb_max b, lb_count b)) ?bs = map (\<lambda>(lo, hi). (lo, hi, int (?n (lo, hi)))) bucket_bounds"
    by (auto simp: fill_buckets_exact bucket_of_def set_percent_def small small' simp del: filter_map)
  have "sum_list (map lb_count ?bs) = int (length samples)"
    if "\<forall>x \<in> set samples. f_le (Fin 0) (sm_value x) \<and> f_lt (sm_value x) max_float64"
  proof -
    have "sum_list (map ?n bucket_bounds) = length ?vs" using that by (intro counts_add_up) auto
    moreover have "sum_list (map int ns) = int (sum_list ns)" for ns :: "nat list" by (induction ns) simp_all
    ultimately show ?thesis unfolding counts by (metis length_map)
  qed
  with r parts show ?thesis by (simp add: filter_map o_def)
qed

definition demo_samples :: mon_service where
  "demo_samples = (mon_init 0)\<lparr>mo_collector := (mo_collector (mon_init 0))\<lparr>mc_latency :=
     fold ring_add (map (\<lambda>i. \<lparr>sm_value = Fin (of_nat i), sm_at = int i\<rparr>) [1, 2, 3, 4]) (new_ring_buffer 3)\<rparr>\<rparr>"

theorem distribution_partitions_witness:
  "\<exists>samples. ring_get_recent 5 (1 * minute) (mc_latency (mo_collector demo_samples)) = Some samples \<and>
     length samples = 2 \<and>
     (\<exists>r. dash_latency_distribution 5 demo_samples ''1m'' = Some (Inr r) \<and>
       sum_list (map lb_count (di_buckets r)) = 2)"
proof -
  let ?xs = "[\<lparr>sm_value = Fin 3, sm_at = 3\<rparr>, \<lparr>sm_value = Fin 4, sm_at = 4\<rparr>]"
  have samples: "ring_get_recent 5 (1 * minute) (mc_latency (mo_collector demo_samples)) = Some ?xs"
  proof -
    let ?l = "map (\<lambda>i. \<lparr>sm_value = Fin (of_nat i), sm_at = int i\<rparr>) [1, 2, 3, 4]"
    have "rb_size (fold ring_add ?l (new_ring_buffer 3)) = 3"
      unfolding ring_size_fold by (simp add: new_ring_buffer_def)
    with ring_get_all_exact [OF ring_holds_fold [of 3 ?l]]
    have "ring_get_all (fold ring_add ?l (new_ring_buffer 3)) = Some ?xs" by simp
    then show ?thesis
      by (simp add: demo_samples_def ring_get_recent_def time_after_def time_add_def time_units i64_def)
  qed
  then show ?thesis
    using distribution_partitions [OF parse_1m _ _ samples]
    by (auto simp: time_units f_le_def max_float64_def)
qed

section \<open>The heatmap\<close>

lemma heatmap_row_range: "0 < rows \<Longrightarrow> 0 \<le> heatmap_row v lo hi rows \<and> heatmap_row v lo hi rows < rows"
  by (auto simp: heatmap_row_def Let_def)

lemma fold_zip_upt: "fold f (zip [0..<length xs] xs) a = fold (\<lambda>i. f (i, xs ! i)) [0..<length xs] a"
proof -
  have "zip [0..<length xs] xs = map (\<lambda>i. (i, xs ! i)) [0..<length xs]"
    by (rule nth_equalityI) simp_all
  then show ?thesis by (simp add: fold_map o_def)
qed

lemma heat_fill_grid:
  assumes "0 < rows"
  shows "heat_fill s metric interval lo hi rows starts =
    map (\<lambda>r. map (\<lambda>c.
        let v = heat_value metric (stats_between s (starts ! c) (time_add (starts ! c) interval)) in
        if int r = heatmap_row v lo hi (int rows) then heat_cell metric lo hi v (starts ! c) else blank_cell)
      [0..<length starts]) [0..<rows]"
proof -
  let ?v = "\<lambda>c. heat_value metric (stats_between s (starts ! c) (time_add (starts ! c) interval))"
  let ?row = "\<lambda>c. nat (heatmap_row (?v c) lo hi (int rows))"
  have row: "0 \<le> heatmap_row v lo hi (int rows)" "heatmap_row v lo hi (int rows) < int rows" for v
    using heatmap_row_range [of "int rows"] assms by auto
  then have "?row c < rows" for c by (simp add: nat_less_iff)
  note grid = grid_fill [of "length starts" "length starts" ?row rows
      "\<lambda>c. heat_cell metric lo hi (?v c) (starts ! c)" blank_cell, OF order_refl this]
  have "heat_fill s metric interval lo hi rows starts =
      map (\<lambda>r. map (\<lambda>c. if c < length starts \<and> r = ?row c
        then heat_cell metric lo hi (?v c) (starts ! c) else blank_cell) [0..<length starts]) [0..<rows]"
    unfolding grid [symmetric] heat_fill_def by (simp add: fold_zip_upt Let_def row)
  also have "\<dots> = map (\<lambda>r. map (\<lambda>c. let v = ?v c in
        if int r = heatmap_row v lo hi (int rows) then heat_cell metric lo hi v (starts ! c) else blank_cell)
      [0..<length starts]) [0..<rows]"
    using row(1) by (auto simp: Let_def)
  finally show ?thesis .
qed

lemma heat_granularity_pos: "0 < fst (heat_granularity d)"
  by (simp add: heat_granularity_def time_units)

text \<open>
  Property C39.  The heatmap, cell by cell: as many columns as intervals fit before the end (at most the
  number for the granularity, so of a range above a day only the first 24 hours), each with the value
  of its interval in exactly one row, all other cells blank; an unknown metric is refused.
\<close>

theorem heatmap_grid:
  "dash_heatmap s start stop metric =
    (case heat_scale metric of
       None \<Rightarrow> Inl (ErrMsg (''unsupported metric: '' @ metric))
     | Some (labels, lo, hi) \<Rightarrow>
         (let (interval, most) = heat_granularity (time_sub stop start);
              cols = min most (nat ((stop - start + interval - 1) div interval));
              begins = (\<lambda>c. start + int c * interval);
              value = (\<lambda>c. heat_value metric (stats_between s (begins c) (begins c + interval)))
          in Inr \<lparr>hr_data = map (\<lambda>r. map (\<lambda>c.
                 if int r = heatmap_row (value c) lo hi 5 then heat_cell metric lo hi (value c) (begins c)
                 else blank_cell) [0..<cols]) [0..<5],
               hr_x_labels = map (\<lambda>c. format_hm (begins c)) [0..<cols], hr_y_labels = labels,
               hr_scale = \<lparr>cs_min = lo, cs_max = hi,
                 cs_colors = [''#00ff00'', ''#ffff00'', ''#ff9900'', ''#ff0000'']\<rparr>\<rparr>)) \<and>
   0 \<le> heatmap_row v lo hi 5 \<and> heatmap_row v lo hi 5 < 5"
proof (intro conjI)
  obtain interval most where g: "heat_granularity (time_sub stop start) = (interval, most)" by fastforce
  let ?starts = "interval_starts most interval stop start"
  have i: "0 < interval" using heat_granularity_pos [of "time_sub stop start"] g by simp
  have five: "length labels = 5" if "heat_scale metric = Some (labels, lo, hi)" for labels lo hi
    using that by (auto simp: heat_scale_def split: if_splits)
  define cols where "cols = min most (nat ((stop - start + interval - 1) div interval))"
  have starts: "?starts = map (\<lambda>c. start + int c * interval) [0..<cols]"
    using interval_starts_eq [of most interval stop start] interval_starts_length [OF i, of most stop start]
    by (simp add: cols_def)
  show "dash_heatmap s start stop metric = (case heat_scale metric of
       None \<Rightarrow> Inl (ErrMsg (''unsupported metric: '' @ metric))
     | Some (labels, lo, hi) \<Rightarrow>
         (let (interval, most) = heat_granularity (time_sub stop start);
              cols = min most (nat ((stop - start + interval - 1) div interval));
              begins = (\<lambda>c. start + int c * interval);
              value = (\<lambda>c. heat_value metric (stats_between s (begins c) (begins c + interval)))
          in Inr \<lparr>hr_data = map (\<lambda>r. map (\<lambda>c.
                 if int r = heatmap_row (value c) lo hi 5 then heat_cell metric lo hi (value c) (begins c)
                 else blank_cell) [0..<cols]) [0..<5],
               hr_x_labels = map (\<lambda>c. format_hm (begins c)) [0..<cols], hr_y_labels = labels,
               hr_scale = \<lparr>cs_min = lo, cs_max = hi,
                 cs_colors = [''#00ff00'', ''#ffff00'', ''#ff9900'', ''#ff0000'']\<rparr>\<rparr>))"
    by (simp add: dash_heatmap_def g starts heat_fill_grid five time_add_def Let_def cols_def [symmetric]
        split: option.split)
qed (simp_all add: heatmap_row_range)

text \<open>The rows run against their labels: the highest values are drawn in the row of the lowest label.\<close>

theorem heatmap_rows_inverted:
  "map_option (\<lambda>(labels, lo, hi).
      (labels ! nat (heatmap_row hi lo hi 5), labels ! nat (heatmap_row lo lo hi 5), heatmap_color hi lo hi))
    (heat_scale ''hit_rate'') = Some (''0-20%'', ''80-100%'', ''#ff0000'')"
proof -
  have "\<not> f_lt (Fin 1) (f_const q)" if "0 \<le> q" "q \<le> 1" for q
    using fl_between [of 0 q 1] that by (auto simp: f_const_def)
  then show ?thesis
    by (simp add: heat_scale_def heatmap_row_def heatmap_color_def f_le_def f_sub_def)
qed

section \<open>Health and timeline\<close>

lemma f_sub_int:
  "\<bar>a - b\<bar> < 2 ^ 53 \<Longrightarrow> f_sub (Fin (of_int a)) (Fin (of_int b)) = Fin (of_int (a - b))"
  using fl_int [of "a - b"] by (simp add: f_sub_def)

text \<open>The points that each check takes off.\<close>

definition hit_penalty :: "aggregated_stats \<Rightarrow> int" where
  "hit_penalty st = (if f_lt (as_hit_rate st) (f_const (7 / 10)) then 20 else 0)"

definition latency_penalty :: "aggregated_stats \<Rightarrow> int" where
  "latency_penalty st =
     (if f_lt (Fin 100) (as_p95 st) then if f_lt (Fin 200) (as_p95 st) then 30 else 15 else 0)"

definition error_penalty :: "aggregated_stats \<Rightarrow> int" where
  "error_penalty st =
     (if f_lt (f_const (1 / 100)) (as_error_rate st)
      then if f_lt (f_const (5 / 100)) (as_error_rate st) then 50 else 25 else 0)"

definition eviction_penalty :: "aggregated_stats \<Rightarrow> int" where
  "eviction_penalty st =
     (if as_evictions st > 0 \<and> f_lt (Fin 10) (f_div (f_of_int (as_evictions st)) (Fin 60)) then 10 else 0)"

definition penalty :: "aggregated_stats \<Rightarrow> int" where
  "penalty st = hit_penalty st + latency_penalty st + error_penalty st + eviction_penalty st"

lemmas penalty_defs = hit_penalty_def latency_penalty_def error_penalty_def eviction_penalty_def

text \<open>One check: the score it leaves, and its issue.\<close>

definition checked :: "health_state \<Rightarrow> int \<Rightarrow> string list \<Rightarrow> bool" where
  "checked h n types \<longleftrightarrow> fst h = Fin (of_int n) \<and> map hi_type (fst (snd h)) = types"

lemma f_sub_points:
  "\<bar>n\<bar> < 1000 \<Longrightarrow> f_sub (Fin (of_int n)) (Fin 10) = Fin (of_int (n - 10))"
  "\<bar>n\<bar> < 1000 \<Longrightarrow> f_sub (Fin (of_int n)) (Fin 15) = Fin (of_int (n - 15))"
  "\<bar>n\<bar> < 1000 \<Longrightarrow> f_sub (Fin (of_int n)) (Fin 20) = Fin (of_int (n - 20))"
  "\<bar>n\<bar> < 1000 \<Longrightarrow> f_sub (Fin (of_int n)) (Fin 25) = Fin (of_int (n - 25))"
  using f_sub_int [of n 10] f_sub_int [of n 15] f_sub_int [of n 20] f_sub_int [of n 25] by simp_all

lemma checked_checks:
  assumes "checked h n types" "\<bar>n\<bar> < 500"
  shows "checked (check_hit_rate st h) (n - hit_penalty st)
      (types @ (if hit_penalty st > 0 then [''cache_efficiency''] else []))"
    and "checked (check_latency st h) (n - latency_penalty st)
      (types @ (if latency_penalty st > 0 then [''performance''] else []))"
    and "checked (check_error_rate st h) (n - error_penalty st)
      (types @ (if error_penalty st > 0 then [''reliability''] else []))"
    and "checked (check_evictions st h) (n - eviction_penalty st)
      (types @ (if eviction_penalty st > 0 then [''capacity''] else []))"
proof -
  obtain score issues recs where h: "h = (score, issues, recs)" by (cases h)
  then have s: "score = Fin (of_int n)" "map hi_type issues = types" using assms(1) by (auto simp: checked_def)
  have n: "\<bar>n\<bar> < 1000" "\<bar>n - 15\<bar> < 1000" "\<bar>n - 25\<bar> < 1000" using assms(2) by auto
  note points = f_sub_points [OF n(1)] f_sub_points [OF n(2)] f_sub_points [OF n(3)]
  show "checked (check_hit_rate st h) (n - hit_penalty st)
      (types @ (if hit_penalty st > 0 then [''cache_efficiency''] else []))"
    by (simp add: h s checked_def check_hit_rate_def hit_penalty_def points)
  show "checked (check_latency st h) (n - latency_penalty st)
      (types @ (if latency_penalty st > 0 then [''performance''] else []))"
    using points by (simp add: h s checked_def check_latency_def latency_penalty_def Let_def)
  show "checked (check_error_rate st h) (n - error_penalty st)
      (types @ (if error_penalty st > 0 then [''reliability''] else []))"
    using points by (simp add: h s checked_def check_error_rate_def error_penalty_def Let_def)
  show "checked (check_evictions st h) (n - eviction_penalty st)
      (types @ (if eviction_penalty st > 0 then [''capacity''] else []))"
    by (auto simp: h s checked_def check_evictions_def eviction_penalty_def points Let_def)
qed

text \<open>
  Further result.  The health score is 100 less the penalties of the failed checks, but at least 0; the status
  follows the score before it is cut off, and there is one issue for each failed check, in their order.
\<close>

theorem health_score_exact:
  "sh_score (calculate_system_health st) = Fin (of_int (max 0 (100 - penalty st))) \<and>
   sh_status (calculate_system_health st) =
     (if 100 - penalty st < 60 then ''critical'' else if 100 - penalty st < 80 then ''degraded'' else ''healthy'') \<and>
   map hi_type (sh_issues (calculate_system_health st)) =
     (if hit_penalty st > 0 then [''cache_efficiency''] else []) @
     (if latency_penalty st > 0 then [''performance''] else []) @
     (if error_penalty st > 0 then [''reliability''] else []) @
     (if eviction_penalty st > 0 then [''capacity''] else [])"
proof -
  let ?h1 = "check_hit_rate st (Fin 100, [], [])"
  let ?h2 = "check_latency st ?h1"
  let ?h3 = "check_error_rate st ?h2"
  let ?h = "check_evictions st ?h3"
  have start: "checked (Fin 100, [], []) 100 []" by (simp add: checked_def)
  have bounds: "0 \<le> hit_penalty st" "hit_penalty st \<le> 20" "0 \<le> latency_penalty st" "latency_penalty st \<le> 30"
    "0 \<le> error_penalty st" "error_penalty st \<le> 50"
    by (simp_all add: penalty_defs)
  note h1 = checked_checks(1) [OF start, of st, simplified]
  note h2 = checked_checks(2) [OF h1, of st]
  note h3 = checked_checks(3) [OF h2, of st]
  have h: "checked ?h (100 - hit_penalty st - latency_penalty st - error_penalty st - eviction_penalty st)
      ((((if hit_penalty st > 0 then [''cache_efficiency''] else []) @
     (if latency_penalty st > 0 then [''performance''] else [])) @
     (if error_penalty st > 0 then [''reliability''] else [])) @
     (if eviction_penalty st > 0 then [''capacity''] else []))"
    using bounds by (intro checked_checks(4) h3 h2) auto
  obtain score issues recs where split: "?h = (score, issues, recs)" by (cases ?h)
  have score: "score = Fin (of_int (100 - penalty st))"
    using h unfolding split by (simp add: checked_def penalty_def algebra_simps)
  have types: "map hi_type issues = (if hit_penalty st > 0 then [''cache_efficiency''] else []) @
     (if latency_penalty st > 0 then [''performance''] else []) @
     (if error_penalty st > 0 then [''reliability''] else []) @
     (if eviction_penalty st > 0 then [''capacity''] else [])"
    using h unfolding split by (simp add: checked_def)
  have less: "f_lt (Fin (of_int a)) (Fin (of_int b)) \<longleftrightarrow> a < b" for a b by simp
  show ?thesis
    using types less [of "100 - penalty st" 80] less [of "100 - penalty st" 60] less [of 0 "100 - penalty st"]
    by (simp add: calculate_system_health_def split score health_status_def max_def)
qed

text \<open>Ranges above a minute are answered from the time series, which knows no evictions, so the overview
  of such a range never reports the issue \<open>capacity\<close>.\<close>

lemma long_range_no_evictions: "1 * minute < time_sub stop start \<Longrightarrow> as_evictions (stats_between s start stop) = 0"
  by (simp add: stats_between_def ag_get_stats_def aggregate_from_series_def Let_def time_units)

lemma overview_width:
  assumes "parse_duration (if time_range = [] then ''1h'' else time_range) = Some width" "0 < width"
  shows "i64 (- width) = - width" and "time_sub now (now - width) = width"
    and "time_sub (now - width) (now - width - width) = width"
  using parse_duration_in [OF assms] assms(2) by (simp_all add: in_i64_def time_sub_exact i64_id)

theorem overview_never_capacity:
  assumes "dash_overview clock s time_range = Inr r"
    and "parse_duration (if time_range = [] then ''1h'' else time_range) = Some width" "1 * minute < width"
  shows "''capacity'' \<notin> set (map hi_type (sh_issues (ov_health r)))"
proof -
  have w: "0 < width" using assms(3) by (simp add: time_units)
  have "ov_health r = calculate_system_health (stats_between s (clock 0 - width) (clock 0))"
    using assms(1,2) w overview_width(1) [OF assms(2) w] by (auto simp: dash_overview_def Let_def time_add_def)
  moreover have "as_evictions (stats_between s (clock 0 - width) (clock 0)) = 0"
    using assms(3) overview_width(2) [OF assms(2) w] by (intro long_range_no_evictions) simp
  ultimately show ?thesis
    using health_score_exact [of "stats_between s (clock 0 - width) (clock 0)"]
    by (simp add: eviction_penalty_def penalty_defs)
qed

text \<open>
  Further result.  The overview of an accepted range has a timeline of exactly 60 points, one every sixtieth of
  the range (rounded down to nanoseconds) from its start on, and its health, alerts and mock keys are
  those of the service; a malformed or non-positive range is refused.
\<close>

theorem overview_timeline:
  assumes "parse_duration (if time_range = [] then ''1h'' else time_range) = width"
  shows "case width of
      None \<Rightarrow> dash_overview clock s time_range = Inl (ErrMsg ''invalid time_range duration'')
    | Some w \<Rightarrow>
        if w \<le> 0 then dash_overview clock s time_range = Inl (ErrMsg ''time_range must be > 0'')
        else \<exists>r. dash_overview clock s time_range = Inr r \<and>
          map tp_at (ov_timeline r) = map (\<lambda>i. clock 0 - w + int i * (w div 60)) [0..<60] \<and>
          ov_health r = calculate_system_health (stats_between s (clock 0 - w) (clock 0)) \<and>
          ov_alerts r = map snd (am_active (mo_alerts s)) @ get_recent_resolved (mo_alerts s) 5 \<and>
          map ks_key (ov_top_keys r) = [''user:123:profile'', ''product:456'', ''session:789'']"
proof (cases width)
  case None
  with assms show ?thesis by (simp add: dash_overview_def)
next
  case (Some w)
  show ?thesis
  proof (cases "w \<le> 0")
    case True
    with assms Some show ?thesis by (simp add: dash_overview_def)
  next
    case False
    then have w: "0 < w" by simp
    note ow = overview_width [OF assms [unfolded Some] w]
    have before: "int i * (w div 60) < w" if "i < 60" for i
    proof -
      have "int i * (w div 60) \<le> 59 * (w div 60)"
        using that w by (intro mult_right_mono) (auto simp: pos_imp_zdiv_nonneg_iff)
      then show ?thesis using w by linarith
    qed
    have "length (interval_starts 60 (w div 60) (clock 0) (clock 0 - w)) = 60"
      by (rule interval_starts_full) (simp add: before)
    then have "interval_starts 60 (w div 60) (clock 0) (clock 0 - w) =
        map (\<lambda>i. clock 0 - w + int i * (w div 60)) [0..<60]"
      using interval_starts_eq [of 60 "w div 60" "clock 0" "clock 0 - w"] by simp
    then have "map tp_at (generate_timeline s (clock 0 - w) (clock 0) 60) =
        map (\<lambda>i. clock 0 - w + int i * (w div 60)) [0..<60]"
      using w by (simp add: generate_timeline_def ow go_div_pos timeline_point_at_def Let_def)
    then show ?thesis
      using assms Some False
      by (simp add: dash_overview_def ow time_add_def get_active_alerts_def get_top_keys_def Let_def del: upt_rec_numeral)
  qed
qed

theorem overview_timeline_witness:
  "\<exists>r. dash_overview (\<lambda>_. 0) (mon_init 0) ''1m'' = Inr r \<and> length (ov_timeline r) = 60"
proof -
  have "parse_duration (if ''1m'' = [] then ''1h'' else ''1m'') = Some 60000000000"
    using parse_1m by (simp add: time_units)
  note timeline = overview_timeline [OF this, of "\<lambda>_. 0" "mon_init 0"]
  have "\<not> (60000000000 :: int) \<le> 0" by simp
  with timeline obtain r where "dash_overview (\<lambda>_. 0) (mon_init 0) ''1m'' = Inr r"
    "map tp_at (ov_timeline r) = map (\<lambda>i. 0 - 60000000000 + int i * (60000000000 div 60)) [0..<60]"
    by (simp only: option.case if_False) blast
  moreover from this(2) have "length (ov_timeline r) = 60"
    by (rule map_eq_imp_length_eq [THEN trans]) (simp only: length_upt diff_zero)
  ultimately show ?thesis by blast
qed

end
