(* ===== verification/Streams.thy ===== *)
theory Streams
  imports Dashboard
begin

text \<open>
  The real-time streams of \<open>monitoring/dashboard.go\<close>: sessions, their worker goroutines, stopping and the
  cleanup of stale sessions, as a transition system.  A session object lives as long as its worker
  refers to it, so the objects are a list indexed by address, and \<open>Dashboard.sessions\<close> maps identifiers to
  addresses.  No code receives from the channel \<open>updates\<close>, so nothing ever leaves its buffer.
\<close>

section \<open>Sessions\<close>

record dashboard_update =
  du_at :: time
  du_metrics :: get_metrics_response
  du_alerts :: "alert list"
  du_anomalies :: "anomaly list"

record stream_session =
  se_id :: string
  se_updates :: "dashboard_update list"
  se_updates_closed :: bool
  se_stop_closed :: bool
  se_created :: time
  se_last_ping :: time

text \<open>A worker waits in its outer \<open>select\<close>, holds an update it is about to send, has returned, or has
  panicked (which ends the whole process).\<close>

datatype stream_pc = SwSelect | SwSend dashboard_update | SwDone | SwPanic

record streams =
  sm_sessions :: "(string \<times> nat) list"
  sm_objects :: "(stream_session \<times> stream_pc) list"

definition new_streams :: streams where
  "new_streams = \<lparr>sm_sessions = [], sm_objects = []\<rparr>"

definition generate_update :: "(nat \<Rightarrow> time) \<Rightarrow> mon_service \<Rightarrow> dashboard_update" where
  "generate_update clock s =
     (let now = clock 0; st = stats_between s (time_add now (i64 (- 1 * minute))) now
      in \<lparr>du_at = now, du_metrics = metrics_response_of now ''1m'' st,
          du_alerts = get_active_alerts (mo_alerts s),
          du_anomalies = get_recent_anomalies (clock 1) (1 * minute) (ag_detector (mo_aggregator s))\<rparr>)"

section \<open>Starting and stopping\<close>

text \<open>The identifier and the time stamps come from two readings of the clock.  A second session of the
  same nanosecond takes the place of the first in the map.\<close>

definition start_stream :: "(nat \<Rightarrow> time) \<Rightarrow> streams \<Rightarrow> streams \<times> string" where
  "start_stream clock d =
     (let sid = ''stream-'' @ int_dec (i64 (clock 0)); now = clock 1;
          session = \<lparr>se_id = sid, se_updates = [], se_updates_closed = False, se_stop_closed = False,
            se_created = now, se_last_ping = now\<rparr>
      in (d\<lparr>sm_sessions := AList.update sid (length (sm_objects d)) (sm_sessions d),
            sm_objects := sm_objects d @ [(session, SwSelect)]\<rparr>, sid))"

text \<open>Closing both channels; closing a closed channel panics.\<close>

definition close_session :: "nat \<Rightarrow> streams \<Rightarrow> streams option" where
  "close_session a d =
     (let (session, pc) = sm_objects d ! a in
      if se_stop_closed session \<or> se_updates_closed session then None
      else Some (d\<lparr>sm_objects :=
        (sm_objects d)[a := (session\<lparr>se_stop_closed := True, se_updates_closed := True\<rparr>, pc)]\<rparr>))"

definition end_session :: "string \<Rightarrow> nat \<Rightarrow> streams \<Rightarrow> streams option" where
  "end_session sid a d =
     map_option (\<lambda>d. d\<lparr>sm_sessions := AList.delete sid (sm_sessions d)\<rparr>) (close_session a d)"

definition stop_stream :: "string \<Rightarrow> streams \<Rightarrow> streams option" where
  "stop_stream sid d =
     (case map_of (sm_sessions d) sid of None \<Rightarrow> Some d | Some a \<Rightarrow> end_session sid a d)"

definition stale_threshold :: duration where
  "stale_threshold = 5 * minute"

fun cleanup_loop :: "time \<Rightarrow> (string \<times> nat) list \<Rightarrow> streams \<Rightarrow> streams option" where
  "cleanup_loop now [] d = Some d"
| "cleanup_loop now ((sid, a) # rest) d =
     (if time_sub now (se_last_ping (fst (sm_objects d ! a))) > stale_threshold
      then Option.bind (end_session sid a d) (cleanup_loop now rest)
      else cleanup_loop now rest d)"

definition cleanup_stale_streams :: "time \<Rightarrow> streams \<Rightarrow> streams option" where
  "cleanup_stale_streams now d = cleanup_loop now (sm_sessions d) d"

section \<open>The worker\<close>

text \<open>The inner \<open>select\<close>: a send on a closed channel panics, a full buffer skips the update.\<close>

definition send_update :: "time \<Rightarrow> dashboard_update \<Rightarrow> stream_session \<Rightarrow> stream_session \<times> stream_pc" where
  "send_update now u session =
     (if se_updates_closed session then (session, SwPanic)
      else if length (se_updates session) < 100
      then (session\<lparr>se_updates := se_updates session @ [u], se_last_ping := now\<rparr>, SwSelect)
      else (session, SwSelect))"

inductive stream_step :: "streams \<Rightarrow> streams \<Rightarrow> bool" where
  st_start: "stream_step d (fst (start_stream clock d))"
| st_stop: "stop_stream sid d = Some d' \<Longrightarrow> stream_step d d'"
| st_cleanup: "cleanup_stale_streams now d = Some d' \<Longrightarrow> stream_step d d'"
| st_stopped: "a < length (sm_objects d) \<Longrightarrow> sm_objects d ! a = (session, SwSelect) \<Longrightarrow>
    se_stop_closed session \<Longrightarrow> stream_step d (d\<lparr>sm_objects := (sm_objects d)[a := (session, SwDone)]\<rparr>)"
| st_tick: "a < length (sm_objects d) \<Longrightarrow> sm_objects d ! a = (session, SwSelect) \<Longrightarrow>
    stream_step d (d\<lparr>sm_objects := (sm_objects d)[a := (session, SwSend (generate_update clock s))]\<rparr>)"
| st_send: "a < length (sm_objects d) \<Longrightarrow> sm_objects d ! a = (session, SwSend u) \<Longrightarrow>
    stream_step d (d\<lparr>sm_objects := (sm_objects d)[a := send_update now u session]\<rparr>)"

definition stream_reach :: "streams \<Rightarrow> bool" where
  "stream_reach d \<longleftrightarrow> stream_step\<^sup>*\<^sup>* new_streams d"

section \<open>The invariant\<close>

definition object_sound :: "stream_session \<times> stream_pc \<Rightarrow> bool" where
  "object_sound = (\<lambda>(session, pc). se_stop_closed session = se_updates_closed session \<and>
     length (se_updates session) \<le> 100 \<and>
     (pc \<in> {SwDone, SwPanic} \<longrightarrow> se_stop_closed session))"

definition streams_sound :: "streams \<Rightarrow> bool" where
  "streams_sound d \<longleftrightarrow> distinct (map fst (sm_sessions d)) \<and> distinct (map snd (sm_sessions d)) \<and>
     (\<forall>(sid, a) \<in> set (sm_sessions d). a < length (sm_objects d) \<and>
        \<not> se_stop_closed (fst (sm_objects d ! a)) \<and> se_id (fst (sm_objects d ! a)) = sid) \<and>
     (\<forall>obj \<in> set (sm_objects d). object_sound obj)"

lemma streams_soundD:
  assumes "streams_sound d"
  shows "a < length (sm_objects d) \<Longrightarrow> object_sound (sm_objects d ! a)"
    and "(sid, a) \<in> set (sm_sessions d) \<Longrightarrow> a < length (sm_objects d) \<and>
      \<not> se_stop_closed (fst (sm_objects d ! a)) \<and> se_id (fst (sm_objects d ! a)) = sid"
  using assms by (auto simp: streams_sound_def)

text \<open>A step of one worker that keeps identity and channels of its session keeps the invariant.\<close>

lemma streams_sound_object:
  assumes "streams_sound d" "a < length (sm_objects d)" "object_sound obj"
    and "se_id (fst obj) = se_id (fst (sm_objects d ! a))"
    and "se_stop_closed (fst obj) = se_stop_closed (fst (sm_objects d ! a))"
  shows "streams_sound (d\<lparr>sm_objects := (sm_objects d)[a := obj]\<rparr>)"
  using assms set_update_subset_insert [of "sm_objects d" a obj]
  by (fastforce simp: streams_sound_def nth_list_update)

lemma end_session_sound:
  assumes "streams_sound d" "(sid, a) \<in> set (sm_sessions d)"
  shows "\<exists>d'. end_session sid a d = Some d' \<and> streams_sound d' \<and>
    set (sm_sessions d') = set (sm_sessions d) - {(sid, a)}"
proof -
  obtain session pc where obj: "sm_objects d ! a = (session, pc)" by fastforce
  note reg = streams_soundD(2) [OF assms]
  have o: "object_sound (session, pc)" using streams_soundD(1) [OF assms(1), of a] reg obj by simp
  let ?obj = "(session\<lparr>se_stop_closed := True, se_updates_closed := True\<rparr>, pc)"
  let ?d = "d\<lparr>sm_objects := (sm_objects d)[a := ?obj], sm_sessions := AList.delete sid (sm_sessions d)\<rparr>"
  have e: "end_session sid a d = Some ?d"
    using reg o obj by (simp add: end_session_def close_session_def object_sound_def)
  have keys: "distinct (map fst (sm_sessions d))" "distinct (map snd (sm_sessions d))"
    using assms(1) by (auto simp: streams_sound_def)
  have rest: "set (AList.delete sid (sm_sessions d)) = set (sm_sessions d) - {(sid, a)}"
    using keys(1) assms(2) by (auto simp: al_simps dest: eq_key_imp_eq_value)
  have others: "b \<noteq> a" if "(x, b) \<in> set (sm_sessions d)" "x \<noteq> sid" for x b
    using keys(2) assms(2) that by (metis distinct_map inj_onD prod.inject snd_conv)
  have "streams_sound ?d"
    unfolding streams_sound_def
  proof (intro conjI)
    show "distinct (map fst (sm_sessions ?d))" using keys(1) by (simp add: al_simps)
    show "distinct (map snd (sm_sessions ?d))" using keys(2) by (simp add: AList.delete_eq distinct_map_filter)
    show "\<forall>(x, b) \<in> set (sm_sessions ?d). b < length (sm_objects ?d) \<and>
        \<not> se_stop_closed (fst (sm_objects ?d ! b)) \<and> se_id (fst (sm_objects ?d ! b)) = x"
    proof (intro ballI, clarify)
      fix x b assume "(x, b) \<in> set (sm_sessions ?d)"
      then have xb: "(x, b) \<in> set (sm_sessions d)" "x \<noteq> sid" by (simp_all add: al_delete_in)
      with others have "b \<noteq> a" by blast
      with streams_soundD(2) [OF assms(1) xb(1)]
      show "b < length (sm_objects ?d) \<and> \<not> se_stop_closed (fst (sm_objects ?d ! b)) \<and>
          se_id (fst (sm_objects ?d ! b)) = x" by simp
    qed
    have "object_sound ?obj" using o by (auto simp: object_sound_def)
    then show "\<forall>obj \<in> set (sm_objects ?d). object_sound obj"
      using assms(1) set_update_subset_insert [of "sm_objects d" a ?obj] by (auto simp: streams_sound_def)
  qed
  with e rest show ?thesis by simp
qed

lemma cleanup_loop_sound:
  assumes "streams_sound d" "distinct (map fst entries)" "set entries \<subseteq> set (sm_sessions d)"
  shows "\<exists>d'. cleanup_loop now entries d = Some d' \<and> streams_sound d'"
  using assms
proof (induction now entries d rule: cleanup_loop.induct)
  case (2 now sid a rest d)
  show ?case
  proof (cases "time_sub now (se_last_ping (fst (sm_objects d ! a))) > stale_threshold")
    case True
    obtain d' where d': "end_session sid a d = Some d'" "streams_sound d'"
        "set (sm_sessions d') = set (sm_sessions d) - {(sid, a)}"
      using end_session_sound [OF "2.prems"(1), of sid a] "2.prems"(3) by auto
    moreover have "(sid, a) \<notin> set rest" using "2.prems"(2) by force
    ultimately show ?thesis using True "2.IH"(1) [OF True, of d'] "2.prems" by auto
  next
    case False
    then show ?thesis using "2.IH"(2) [OF False] "2.prems" by auto
  qed
qed auto

lemma cleanup_sound: "streams_sound d \<Longrightarrow> \<exists>d'. cleanup_stale_streams now d = Some d' \<and> streams_sound d'"
  unfolding cleanup_stale_streams_def by (rule cleanup_loop_sound) (auto simp: streams_sound_def)

lemma stop_sound: "streams_sound d \<Longrightarrow> \<exists>d'. stop_stream sid d = Some d' \<and> streams_sound d'"
  using end_session_sound [of d sid]
  by (auto simp: stop_stream_def split: option.split dest: map_of_SomeD)

lemma start_sound:
  assumes "streams_sound d"
  shows "streams_sound (fst (start_stream clock d))"
proof -
  define sid where "sid = ''stream-'' @ int_dec (i64 (clock 0))"
  define session where "session = \<lparr>se_id = sid, se_updates = [], se_updates_closed = False,
    se_stop_closed = False, se_created = clock 1, se_last_ping = clock 1\<rparr>"
  let ?n = "length (sm_objects d)"
  let ?d = "d\<lparr>sm_sessions := AList.update sid ?n (sm_sessions d), sm_objects := sm_objects d @ [(session, SwSelect)]\<rparr>"
  have d: "fst (start_stream clock d) = ?d" by (simp add: start_stream_def sid_def session_def Let_def)
  have old: "b < ?n" if "(x, b) \<in> set (sm_sessions d)" for x b using streams_soundD(2) [OF assms that] by simp
  have keys: "distinct (map fst (sm_sessions d))" "distinct (map snd (sm_sessions d))"
    using assms by (auto simp: streams_sound_def)
  then have keys': "distinct (map fst (AList.update sid ?n (sm_sessions d)))" by (simp add: distinct_update)
  have new: "(x, b) \<in> set (AList.update sid ?n (sm_sessions d)) \<longleftrightarrow>
      (x = sid \<and> b = ?n) \<or> (x \<noteq> sid \<and> (x, b) \<in> set (sm_sessions d))" for x b
    using al_in_map_of [OF keys', of x b] al_in_map_of [OF keys(1), of x b]
    by (auto simp: al_simps)
  have "inj_on snd (set (AList.update sid ?n (sm_sessions d)))"
  proof (rule inj_onI)
    fix p q assume pq: "p \<in> set (AList.update sid ?n (sm_sessions d))"
      "q \<in> set (AList.update sid ?n (sm_sessions d))" "snd p = snd q"
    obtain x b y where [simp]: "p = (x, b)" "q = (y, b)" using pq(3) by (cases p, cases q) auto
    have "x = y" if "(x, b) \<in> set (sm_sessions d)" "(y, b) \<in> set (sm_sessions d)"
      using that keys(2) by (metis distinct_map inj_onD prod.inject snd_conv)
    then show "p = q" using pq(1,2) old [of x b] old [of y b]
      unfolding \<open>p = _\<close> \<open>q = _\<close> new by auto
  qed
  then have "distinct (map snd (AList.update sid ?n (sm_sessions d)))"
    using keys' by (simp add: distinct_map)
  moreover have "object_sound (session, SwSelect)" by (simp add: object_sound_def session_def)
  moreover have "\<forall>(x, b) \<in> set (AList.update sid ?n (sm_sessions d)). b < Suc ?n \<and>
      \<not> se_stop_closed (fst ((sm_objects d @ [(session, SwSelect)]) ! b)) \<and>
      se_id (fst ((sm_objects d @ [(session, SwSelect)]) ! b)) = x"
    using streams_soundD(2) [OF assms] by (fastforce simp: new nth_append session_def)
  ultimately show ?thesis
    using assms keys' unfolding d by (auto simp: streams_sound_def)
qed

lemma send_update_sound:
  assumes "object_sound (session, SwSend u)"
  shows "object_sound (send_update now u session)"
    and "se_id (fst (send_update now u session)) = se_id session"
    and "se_stop_closed (fst (send_update now u session)) = se_stop_closed session"
  using assms by (auto simp: object_sound_def send_update_def)

lemma stream_step_sound:
  assumes "stream_step d d'" "streams_sound d"
  shows "streams_sound d'"
  using assms
proof (induction rule: stream_step.induct)
  case (st_start d clock)
  then show ?case by (rule start_sound)
next
  case (st_stop sid d d')
  then show ?case using stop_sound [of d sid] by auto
next
  case (st_cleanup now d d')
  then show ?case using cleanup_sound [of d now] by auto
next
  case (st_stopped a d session)
  have "object_sound (session, SwDone)"
    using streams_soundD(1) [OF st_stopped.prems st_stopped(1)] st_stopped(2,3) by (simp add: object_sound_def)
  then show ?case using st_stopped by (intro streams_sound_object) auto
next
  case (st_tick a d session clock s)
  have "object_sound (session, SwSend (generate_update clock s))"
    using streams_soundD(1) [OF st_tick.prems st_tick(1)] st_tick(2) by (simp add: object_sound_def)
  then show ?case using st_tick by (intro streams_sound_object) auto
next
  case (st_send a d session u now)
  have "object_sound (session, SwSend u)" using streams_soundD(1) [OF st_send.prems st_send(1)] st_send(2) by simp
  then show ?case using st_send send_update_sound [of session u now] by (intro streams_sound_object) auto
qed

lemma stream_reach_sound: "stream_reach d \<Longrightarrow> streams_sound d"
  unfolding stream_reach_def
proof (induction rule: rtranclp_induct)
  case base
  show ?case by (simp add: new_streams_def streams_sound_def)
next
  case (step d d')
  then show ?case using stream_step_sound by blast
qed

section \<open>Properties\<close>

text \<open>
  Property C38.  Sessions are sound in every reachable state: stopping and cleaning up never close a channel
  twice (they always return), at most 100 updates are buffered, registered sessions are open and filed
  under their own identifier, and a worker has ended only when its session was stopped.
\<close>

theorem stream_sessions_sound:
  assumes "stream_reach d"
  shows "stop_stream sid d \<noteq> None \<and> cleanup_stale_streams now d \<noteq> None \<and>
    (\<forall>(x, a) \<in> set (sm_sessions d). a < length (sm_objects d) \<and>
       se_id (fst (sm_objects d ! a)) = x \<and> \<not> se_updates_closed (fst (sm_objects d ! a)) \<and>
       snd (sm_objects d ! a) \<notin> {SwDone, SwPanic}) \<and>
    (\<forall>(session, pc) \<in> set (sm_objects d). length (se_updates session) \<le> 100)"
proof (intro conjI)
  note sound = stream_reach_sound [OF assms]
  show "stop_stream sid d \<noteq> None" using stop_sound [OF sound, of sid] by auto
  show "cleanup_stale_streams now d \<noteq> None" using cleanup_sound [OF sound, of now] by auto
  show "\<forall>(session, pc) \<in> set (sm_objects d). length (se_updates session) \<le> 100"
    using sound by (fastforce simp: streams_sound_def object_sound_def)
  show "\<forall>(x, a) \<in> set (sm_sessions d). a < length (sm_objects d) \<and>
       se_id (fst (sm_objects d ! a)) = x \<and> \<not> se_updates_closed (fst (sm_objects d ! a)) \<and>
       snd (sm_objects d ! a) \<notin> {SwDone, SwPanic}"
  proof (intro ballI, clarify)
    fix x a assume "(x, a) \<in> set (sm_sessions d)"
    from streams_soundD(2) [OF sound this] streams_soundD(1) [OF sound, of a]
    show "a < length (sm_objects d) \<and> se_id (fst (sm_objects d ! a)) = x \<and>
        \<not> se_updates_closed (fst (sm_objects d ! a)) \<and> snd (sm_objects d ! a) \<notin> {SwDone, SwPanic}"
      by (auto simp: object_sound_def split: prod.splits)
  qed
qed

definition demo_clock :: "nat \<Rightarrow> time" where
  "demo_clock i = int i"

definition demo_stream :: streams where
  "demo_stream = fst (start_stream demo_clock new_streams)"

lemma demo_stream_reach: "stream_reach demo_stream"
  unfolding stream_reach_def demo_stream_def by (intro r_into_rtranclp st_start)

lemma demo_sessions: "sm_sessions demo_stream = [(''stream-0'', 0)]"
  by (simp add: demo_stream_def start_stream_def new_streams_def demo_clock_def int_dec_def nat_dec_digit
      digit_chars i64_def Let_def)

theorem stream_sessions_sound_witness:
  "sm_sessions demo_stream = [(''stream-0'', 0)] \<and> stop_stream ''stream-0'' demo_stream \<noteq> None"
proof
  show "sm_sessions demo_stream = [(''stream-0'', 0)]" by (rule demo_sessions)
  show "stop_stream ''stream-0'' demo_stream \<noteq> None"
    using stream_sessions_sound [OF demo_stream_reach, of "''stream-0''" 0] by (rule conjunct1)
qed

text \<open>
  Further result.  Stopping a stream can crash the process: when \<open>StopStream\<close> runs between the tick that a
  worker has taken and its send, the worker sends on the closed channel.
\<close>

theorem stop_stream_can_crash:
  "\<exists>d. stream_reach d \<and> map snd (sm_objects d) = [SwPanic]"
proof -
  let ?u = "generate_update demo_clock (mon_init 0)"
  obtain session where start: "sm_objects demo_stream = [(session, SwSelect)]" "se_updates_closed session = False"
      "se_stop_closed session = False" and sid: "sm_sessions demo_stream = [(''stream-0'', 0)]"
    using demo_sessions
    by (auto simp: demo_stream_def start_stream_def new_streams_def Let_def)
  let ?d1 = "demo_stream\<lparr>sm_objects := [(session, SwSend ?u)]\<rparr>"
  let ?closed = "session\<lparr>se_stop_closed := True, se_updates_closed := True\<rparr>"
  let ?d2 = "?d1\<lparr>sm_objects := [(?closed, SwSend ?u)], sm_sessions := []\<rparr>"
  let ?d3 = "?d2\<lparr>sm_objects := [(?closed, SwPanic)]\<rparr>"
  have "stream_step demo_stream ?d1"
    using st_tick [of 0 demo_stream session demo_clock "mon_init 0"] start by simp
  moreover have "stream_step ?d1 ?d2"
    using sid start by (intro st_stop [of "''stream-0''"]) (simp add: stop_stream_def end_session_def close_session_def)
  moreover have "stream_step ?d2 ?d3"
    using st_send [of 0 ?d2 ?closed ?u 0] by (simp add: send_update_def)
  ultimately have "stream_reach ?d3"
    using demo_stream_reach unfolding stream_reach_def by (meson rtranclp.rtrancl_into_rtrancl)
  then show ?thesis by (intro exI [of _ ?d3]) simp
qed

text \<open>Nothing reads the updates, so after 100 of them the time of the last one never changes again, and the
  session counts as stale although its worker is still at work.\<close>

lemma full_stream_frozen:
  assumes "stream_step d d'" "a < length (sm_objects d)" "length (se_updates (fst (sm_objects d ! a))) = 100"
  shows "a < length (sm_objects d') \<and> se_updates (fst (sm_objects d' ! a)) = se_updates (fst (sm_objects d ! a)) \<and>
    se_last_ping (fst (sm_objects d' ! a)) = se_last_ping (fst (sm_objects d ! a))"
proof -
  define keeps where "keeps d d' \<longleftrightarrow> a < length (sm_objects d') \<and>
      se_updates (fst (sm_objects d' ! a)) = se_updates (fst (sm_objects d ! a)) \<and>
      se_last_ping (fst (sm_objects d' ! a)) = se_last_ping (fst (sm_objects d ! a))" for d d' :: streams
  have trans: "keeps d1 d3" if "keeps d1 d2" "keeps d2 d3" for d1 d2 d3 :: streams using that by (simp add: keeps_def)
  have ends: "keeps d d'" if "end_session sid b d = Some d'" "a < length (sm_objects d)" for sid b d d'
    using that
    by (cases "b = a") (auto simp: keeps_def end_session_def close_session_def split: prod.splits if_splits)
  have cleanup: "keeps d d'" if "cleanup_loop now entries d = Some d'" "a < length (sm_objects d)" for now entries d d'
    using that
  proof (induction now entries d rule: cleanup_loop.induct)
    case (2 now sid b rest d)
    show ?case
    proof (cases "time_sub now (se_last_ping (fst (sm_objects d ! b))) > stale_threshold")
      case True
      with "2.prems"(1) obtain d1 where d1: "end_session sid b d = Some d1" "cleanup_loop now rest d1 = Some d'"
        by (auto simp: bind_eq_Some_conv)
      with ends "2.prems"(2) have "keeps d d1" by blast
      with d1 "2.IH"(1) [OF True] trans show ?thesis by (auto simp: keeps_def)
    qed (use 2 in auto)
  qed (auto simp: keeps_def)
  have "keeps d d'"
    using assms
  proof (induction rule: stream_step.induct)
    case (st_stop sid d d')
    then show ?case using ends by (auto simp: stop_stream_def keeps_def split: option.splits)
  next
    case (st_cleanup now d d')
    then show ?case using cleanup by (auto simp: cleanup_stale_streams_def)
  qed (auto simp: keeps_def start_stream_def Let_def nth_append nth_list_update send_update_def)
  then show ?thesis by (simp add: keeps_def)
qed

end
