(* ===== verification/Export.thy ===== *)
theory Export
  imports Streams
begin

text \<open>
  The export of metrics in \<open>monitoring/dashboard.go\<close>: the points of the JSON export, the exposition text for
  Prometheus and the CSV document.  \<open>json.MarshalIndent\<close> of the points is a parameter.
\<close>

section \<open>Shared parts\<close>

definition list_contains :: "string list \<Rightarrow> string \<Rightarrow> bool" where
  "list_contains items x = list_ex (\<lambda>s. s = x) items"

definition join_strings :: "string list \<Rightarrow> string \<Rightarrow> string" where
  "join_strings items sep =
     snd (fold (\<lambda>item (i, result). (i + 1, (if i > (0 :: nat) then result @ sep else result) @ item)) items (0, []))"

definition wanted :: "string list \<Rightarrow> string \<Rightarrow> bool" where
  "wanted metrics x \<longleftrightarrow> metrics = [] \<or> list_contains metrics x"

definition newline :: string where
  "newline = [CHR 0x0A]"

definition bucket_total :: "bucket_1s \<Rightarrow> int" where
  "bucket_total b = add64 (bu_hits b) (bu_misses b)"

definition bucket_ratio :: "int \<Rightarrow> bucket_1s \<Rightarrow> f64" where
  "bucket_ratio n b =
     (if bucket_total b > 0 then f_div (f_of_int n) (f_of_int (bucket_total b)) else Fin 0)"

definition bucket_mean :: "bucket_1s \<Rightarrow> f64" where
  "bucket_mean b = f_div (sum_f (bu_latencies b)) (f_of_int (int (length (bu_latencies b))))"

definition bucket_percentile :: "rat \<Rightarrow> bucket_1s \<Rightarrow> f64" where
  "bucket_percentile p b = percentile (sort_floats (bu_latencies b)) p"

section \<open>JSON\<close>

record json_point =
  jp_at :: time
  jp_hits :: int
  jp_misses :: int
  jp_hit_rate :: f64
  jp_avg :: f64
  jp_p95 :: f64
  jp_error_rate :: f64
  jp_invalidations :: int
  jp_warmings :: int

definition json_point_of :: "string list \<Rightarrow> bucket_1s \<Rightarrow> json_point" where
  "json_point_of metrics b =
     (let latency = wanted metrics ''latency'' \<and> bu_latencies b \<noteq> []
      in \<lparr>jp_at = bu_at b,
          jp_hits = (if wanted metrics ''cache_hits'' then bu_hits b else 0),
          jp_misses = (if wanted metrics ''cache_misses'' then bu_misses b else 0),
          jp_hit_rate = (if wanted metrics ''hit_rate'' then bucket_ratio (bu_hits b) b else Fin 0),
          jp_avg = (if latency then bucket_mean b else Fin 0),
          jp_p95 = (if latency then bucket_percentile (95 / 100) b else Fin 0),
          jp_error_rate = (if wanted metrics ''errors'' then bucket_ratio (bu_errors b) b else Fin 0),
          jp_invalidations = (if wanted metrics ''invalidations'' then bu_invalidations b else 0),
          jp_warmings = (if wanted metrics ''warmings'' then bu_warmings b else 0)\<rparr>)"

text \<open>An error of the encoder is ignored, and the document is then empty.\<close>

definition export_json :: "(json_point list \<Rightarrow> string go_result) \<Rightarrow> bucket_1s list \<Rightarrow> string list \<Rightarrow> string" where
  "export_json encode bs metrics =
     (case encode (map (json_point_of metrics) bs) of Inl e \<Rightarrow> [] | Inr data \<Rightarrow> data)"

section \<open>Prometheus\<close>

text \<open>The help and type lines of a metric, and a sample of it.\<close>

definition prom_head :: "string \<Rightarrow> string \<Rightarrow> string \<Rightarrow> string" where
  "prom_head metric help kind =
     ''# HELP '' @ metric @ '' '' @ help @ newline @ ''# TYPE '' @ metric @ '' '' @ kind @ newline"

definition prom_sample :: "string \<Rightarrow> string \<Rightarrow> int \<Rightarrow> string" where
  "prom_sample metric value ts = metric @ '' '' @ value @ '' '' @ int_dec ts @ newline"

definition quantile_name :: "string \<Rightarrow> string" where
  "quantile_name q = ''cache_latency_ms{quantile='' @ [CHR 0x22] @ q @ [CHR 0x22] @ ''}''"

definition export_prometheus :: "bucket_1s list \<Rightarrow> string" where
  "export_prometheus bs =
     (if bs = [] then []
      else
        (let b = last bs; ts = bu_at b div 1000000 in
         prom_head ''cache_hits_total'' ''Total number of cache hits'' ''counter'' @
         prom_sample ''cache_hits_total'' (int_dec (bu_hits b)) ts @
         prom_head ''cache_misses_total'' ''Total number of cache misses'' ''counter'' @
         prom_sample ''cache_misses_total'' (int_dec (bu_misses b)) ts @
         (if bucket_total b > 0 then
            prom_head ''cache_hit_rate'' ''Cache hit rate (0-1)'' ''gauge'' @
            prom_sample ''cache_hit_rate'' (fmt_float 4 (bucket_ratio (bu_hits b) b)) ts
          else []) @
         (if bu_latencies b \<noteq> [] then
            prom_head ''cache_latency_ms'' ''Cache operation latency in milliseconds'' ''summary'' @
            prom_sample (quantile_name ''0.5'') (fmt_float 2 (bucket_percentile (1 / 2) b)) ts @
            prom_sample (quantile_name ''0.9'') (fmt_float 2 (bucket_percentile (9 / 10) b)) ts @
            prom_sample (quantile_name ''0.95'') (fmt_float 2 (bucket_percentile (95 / 100) b)) ts @
            prom_sample (quantile_name ''0.99'') (fmt_float 2 (bucket_percentile (99 / 100) b)) ts @
            prom_sample ''cache_latency_ms_count'' (int_dec (int (length (bu_latencies b)))) ts
          else []) @
         prom_head ''cache_errors_total'' ''Total number of cache errors'' ''counter'' @
         prom_sample ''cache_errors_total'' (int_dec (bu_errors b)) ts @
         prom_head ''cache_invalidations_total'' ''Total number of cache invalidations'' ''counter'' @
         prom_sample ''cache_invalidations_total'' (int_dec (bu_invalidations b)) ts @
         prom_head ''cache_warmings_total'' ''Total number of cache warming operations'' ''counter'' @
         prom_sample ''cache_warmings_total'' (int_dec (bu_warmings b)) ts))"

section \<open>CSV\<close>

definition csv_headers :: "string list \<Rightarrow> string list" where
  "csv_headers metrics =
     [''timestamp''] @
     (if wanted metrics ''cache_hits'' then [''cache_hits''] else []) @
     (if wanted metrics ''cache_misses'' then [''cache_misses''] else []) @
     (if wanted metrics ''hit_rate'' then [''hit_rate''] else []) @
     (if wanted metrics ''latency'' then [''avg_latency_ms'', ''p95_latency_ms''] else []) @
     (if wanted metrics ''errors'' then [''errors'', ''error_rate''] else []) @
     (if wanted metrics ''invalidations'' then [''invalidations''] else []) @
     (if wanted metrics ''warmings'' then [''warmings''] else [])"

definition csv_row :: "string list \<Rightarrow> bucket_1s \<Rightarrow> string list" where
  "csv_row metrics b =
     [format_rfc3339 (bu_at b)] @
     (if wanted metrics ''cache_hits'' then [int_dec (bu_hits b)] else []) @
     (if wanted metrics ''cache_misses'' then [int_dec (bu_misses b)] else []) @
     (if wanted metrics ''hit_rate'' then [fmt_float 4 (bucket_ratio (bu_hits b) b)] else []) @
     (if wanted metrics ''latency'' then
        (if bu_latencies b \<noteq> [] then [fmt_float 2 (bucket_mean b), fmt_float 2 (bucket_percentile (95 / 100) b)]
         else [''0'', ''0''])
      else []) @
     (if wanted metrics ''errors'' then [int_dec (bu_errors b), fmt_float 4 (bucket_ratio (bu_errors b) b)] else []) @
     (if wanted metrics ''invalidations'' then [int_dec (bu_invalidations b)] else []) @
     (if wanted metrics ''warmings'' then [int_dec (bu_warmings b)] else [])"

definition export_csv :: "bucket_1s list \<Rightarrow> string list \<Rightarrow> string" where
  "export_csv bs metrics =
     join_strings (csv_headers metrics) '','' @ newline @
     concat (map (\<lambda>b. join_strings (csv_row metrics b) '','' @ newline) bs)"

section \<open>The export request\<close>

record export_response =
  ex_format :: string
  ex_data :: string
  ex_filename :: string
  ex_size :: int

definition dash_export ::
    "(json_point list \<Rightarrow> string go_result) \<Rightarrow> time \<Rightarrow> mon_service \<Rightarrow> time \<Rightarrow> time \<Rightarrow> string \<Rightarrow> string list \<Rightarrow>
     export_response go_result" where
  "dash_export encode now s start stop format metrics =
     (let bs = ts_get_range start stop (mc_series (mo_collector s));
          file = ''metrics-'' @ format_stamp now;
          respond = (\<lambda>data filename.
            Inr \<lparr>ex_format = format, ex_data = data, ex_filename = filename, ex_size = int (length data)\<rparr>)
      in if format = ''json'' then respond (export_json encode bs metrics) (file @ ''.json'')
         else if format = ''prometheus'' then respond (export_prometheus bs) (file @ ''.txt'')
         else if format = ''csv'' then respond (export_csv bs metrics) (file @ ''.csv'')
         else Inl (ErrMsg (''unsupported export format: '' @ format)))"

section \<open>Reading the document back\<close>

text \<open>What a reader of the document does: lines, fields, and the integers of a column.\<close>

fun split_on :: "char \<Rightarrow> string \<Rightarrow> string list" where
  "split_on c [] = [[]]"
| "split_on c (x # xs) =
     (if x = c then [] # split_on c xs
      else (case split_on c xs of [] \<Rightarrow> [[x]] | field # rest \<Rightarrow> (x # field) # rest))"

definition csv_parse :: "string \<Rightarrow> string list list" where
  "csv_parse doc = map (split_on (CHR '','')) (butlast (split_on (CHR 0x0A) doc))"

definition csv_column :: "string \<Rightarrow> string \<Rightarrow> string option list" where
  "csv_column name doc =
     (case csv_parse doc of [] \<Rightarrow> [] | header # rows \<Rightarrow> map (\<lambda>row. map_of (zip header row) name) rows)"

lemma split_on_not_Nil [simp]: "split_on c s \<noteq> []"
  by (cases s) (auto split: list.split)

lemma split_on_append: "c \<notin> set a \<Longrightarrow> split_on c (a @ c # b) = a # split_on c b"
  by (induction a) auto

lemma split_on_plain: "c \<notin> set a \<Longrightarrow> split_on c a = [a]"
  by (induction a) auto

lemma join_loop:
  "snd (fold (\<lambda>item (i, result). (Suc i, (if i > 0 then result @ sep else result) @ item)) items (Suc i, r)) =
     r @ concat (map (\<lambda>item. sep @ item) items)"
  by (induction items arbitrary: i r) simp_all

lemma join_Cons: "join_strings (x # xs) sep = x @ concat (map (\<lambda>item. sep @ item) xs)"
  using join_loop [of sep xs 0 x] by (simp add: join_strings_def)

lemma split_join:
  assumes "fs \<noteq> []" "\<forall>f \<in> set fs. c \<notin> set f"
  shows "split_on c (join_strings fs [c]) = fs"
proof -
  obtain x xs where fs: "fs = x # xs" using assms(1) by (cases fs) auto
  have "\<forall>f \<in> set xs. c \<notin> set f \<Longrightarrow> c \<notin> set x \<Longrightarrow>
      split_on c (x @ concat (map (\<lambda>item. [c] @ item) xs)) = x # xs" for x xs
    by (induction xs arbitrary: x) (simp_all add: split_on_plain split_on_append)
  then show ?thesis using assms(2) by (simp add: fs join_Cons)
qed

lemma join_set: "set (join_strings items sep) \<subseteq> \<Union> (set ` set items) \<union> set sep"
  by (cases items) (auto simp: join_Cons, simp add: join_strings_def)

lemma split_lines:
  "\<forall>l \<in> set lines. c \<notin> set l \<Longrightarrow> split_on c (concat (map (\<lambda>l. l @ [c]) lines)) = lines @ [[]]"
  by (induction lines) (simp_all add: split_on_append)

lemma csv_plain:
  "f \<in> set (csv_headers metrics) \<Longrightarrow> plain f"
  "f \<in> set (csv_row metrics b) \<Longrightarrow> plain f"
proof -
  have "list_all plain (csv_headers metrics)" "list_all plain (csv_row metrics b)"
    by (simp_all add: csv_headers_def csv_row_def if_distrib [of "list_all plain"])
  then show "f \<in> set (csv_headers metrics) \<Longrightarrow> plain f" "f \<in> set (csv_row metrics b) \<Longrightarrow> plain f"
    by (simp_all add: list_all_iff)
qed

lemma csv_not_Nil: "csv_headers metrics \<noteq> []" "csv_row metrics b \<noteq> []"
  by (simp_all add: csv_headers_def csv_row_def)

lemma plain_line:
  assumes "\<And>f. f \<in> set fs \<Longrightarrow> plain f"
  shows "CHR 0x0A \<notin> set (join_strings fs '','')"
  using join_set [of fs "'',''"] assms by (fastforce simp: plain_def)

lemma csv_parse_export: "csv_parse (export_csv bs metrics) = csv_headers metrics # map (csv_row metrics) bs"
proof -
  let ?rows = "csv_headers metrics # map (csv_row metrics) bs"
  let ?lines = "map (\<lambda>r. join_strings r '','') ?rows"
  have fs: "plain f" "r \<noteq> []" if "r \<in> set ?rows" "f \<in> set r" for r f
    using that csv_plain by auto
  have doc: "export_csv bs metrics = concat (map (\<lambda>l. l @ [CHR 0x0A]) ?lines)"
    by (simp add: export_csv_def newline_def o_def)
  have "CHR 0x0A \<notin> set (join_strings r '','')" if "r \<in> set ?rows" for r
    by (rule plain_line) (rule fs(1) [OF that])
  then have "\<forall>l \<in> set ?lines. CHR 0x0A \<notin> set l" by (simp only: ball_simps set_map) blast
  then have "butlast (split_on (CHR 0x0A) (export_csv bs metrics)) = ?lines"
    unfolding doc by (simp only: split_lines butlast_snoc)
  moreover have "split_on (CHR '','') (join_strings r '','') = r" if "r \<in> set ?rows" for r
  proof (rule split_join)
    show "r \<noteq> []" using that by (auto simp: csv_not_Nil csv_not_Nil [symmetric])
    show "\<forall>f \<in> set r. CHR '','' \<notin> set f" using fs(1) [OF that] by (auto simp: plain_def)
  qed
  then have "map (split_on (CHR '','')) ?lines = ?rows" by (simp add: o_def cong: map_cong)
  ultimately show ?thesis by (simp add: csv_parse_def)
qed

lemma zip_if:
  "length a = length c \<Longrightarrow> zip ((if p then a else []) @ x) ((if p then c else []) @ y) =
     (if p then zip a c else []) @ zip x y"
  by simp

lemma zip_if_end: "length a = length c \<Longrightarrow> zip (if p then a else []) (if p then c else []) = (if p then zip a c else [])"
  by simp

text \<open>The named fields of a row, and the value under a name.\<close>

lemma csv_fields:
  "zip (csv_headers metrics) (csv_row metrics b) =
     [(''timestamp'', format_rfc3339 (bu_at b))] @
     (if wanted metrics ''cache_hits'' then [(''cache_hits'', int_dec (bu_hits b))] else []) @
     (if wanted metrics ''cache_misses'' then [(''cache_misses'', int_dec (bu_misses b))] else []) @
     (if wanted metrics ''hit_rate'' then [(''hit_rate'', fmt_float 4 (bucket_ratio (bu_hits b) b))] else []) @
     (if wanted metrics ''latency'' then
        (if bu_latencies b \<noteq> []
         then [(''avg_latency_ms'', fmt_float 2 (bucket_mean b)),
           (''p95_latency_ms'', fmt_float 2 (bucket_percentile (95 / 100) b))]
         else [(''avg_latency_ms'', ''0''), (''p95_latency_ms'', ''0'')])
      else []) @
     (if wanted metrics ''errors''
      then [(''errors'', int_dec (bu_errors b)), (''error_rate'', fmt_float 4 (bucket_ratio (bu_errors b) b))] else []) @
     (if wanted metrics ''invalidations'' then [(''invalidations'', int_dec (bu_invalidations b))] else []) @
     (if wanted metrics ''warmings'' then [(''warmings'', int_dec (bu_warmings b))] else [])"
  unfolding csv_headers_def csv_row_def
  by (simp only: append_Cons append_Nil zip_Cons_Cons)
    (cases "bu_latencies b = []"; simp only: zip_if zip_if_end list.size simp_thms if_True if_False not_True_eq_False
      not_False_eq_True zip_Cons_Cons zip_Nil)

lemma map_of_if: "map_of (if p then xs else ys) k = (if p then map_of xs k else map_of ys k)"
  by simp

lemma csv_number:
  "map_of (zip (csv_headers metrics) (csv_row metrics b)) ''cache_hits'' =
     (if wanted metrics ''cache_hits'' then Some (int_dec (bu_hits b)) else None)"
  "map_of (zip (csv_headers metrics) (csv_row metrics b)) ''cache_misses'' =
     (if wanted metrics ''cache_misses'' then Some (int_dec (bu_misses b)) else None)"
  "map_of (zip (csv_headers metrics) (csv_row metrics b)) ''errors'' =
     (if wanted metrics ''errors'' then Some (int_dec (bu_errors b)) else None)"
  "map_of (zip (csv_headers metrics) (csv_row metrics b)) ''invalidations'' =
     (if wanted metrics ''invalidations'' then Some (int_dec (bu_invalidations b)) else None)"
  "map_of (zip (csv_headers metrics) (csv_row metrics b)) ''warmings'' =
     (if wanted metrics ''warmings'' then Some (int_dec (bu_warmings b)) else None)"
  unfolding csv_fields map_of_append
  by (simp_all add: map_add_def map_of_if cong: if_cong)

section \<open>Properties\<close>

lemma csv_columns:
  "map (map_option read_int) (csv_column ''cache_hits'' (export_csv bs metrics)) =
     map (\<lambda>b. if wanted metrics ''cache_hits'' then Some (bu_hits b) else None) bs"
  "map (map_option read_int) (csv_column ''cache_misses'' (export_csv bs metrics)) =
     map (\<lambda>b. if wanted metrics ''cache_misses'' then Some (bu_misses b) else None) bs"
  "map (map_option read_int) (csv_column ''errors'' (export_csv bs metrics)) =
     map (\<lambda>b. if wanted metrics ''errors'' then Some (bu_errors b) else None) bs"
  "map (map_option read_int) (csv_column ''invalidations'' (export_csv bs metrics)) =
     map (\<lambda>b. if wanted metrics ''invalidations'' then Some (bu_invalidations b) else None) bs"
  "map (map_option read_int) (csv_column ''warmings'' (export_csv bs metrics)) =
     map (\<lambda>b. if wanted metrics ''warmings'' then Some (bu_warmings b) else None) bs"
  by (simp_all add: csv_column_def csv_parse_export csv_number read_int_dec)

text \<open>
  Property C37.  The CSV export can be read back: splitting the document at line ends and commas gives the
  header and one row per bucket of the range, and under each requested counter the integers of the
  buckets, exactly and in the order of time; an unknown format is refused.
\<close>

theorem csv_round_trip:
  "(case dash_export encode now s start stop ''csv'' metrics of
      Inl e \<Rightarrow> False
    | Inr r \<Rightarrow>
        (let bs = ts_get_range start stop (mc_series (mo_collector s));
             column = (\<lambda>name. map (map_option read_int) (csv_column name (ex_data r)));
             expected = (\<lambda>name count. map (\<lambda>b. if wanted metrics name then Some (count b) else None) bs)
         in csv_parse (ex_data r) = csv_headers metrics # map (csv_row metrics) bs \<and>
            column ''cache_hits'' = expected ''cache_hits'' bu_hits \<and>
            column ''cache_misses'' = expected ''cache_misses'' bu_misses \<and>
            column ''errors'' = expected ''errors'' bu_errors \<and>
            column ''invalidations'' = expected ''invalidations'' bu_invalidations \<and>
            column ''warmings'' = expected ''warmings'' bu_warmings)) \<and>
   dash_export encode now s start stop ''xml'' metrics = Inl (ErrMsg ''unsupported export format: xml'')"
  by (simp add: dash_export_def csv_parse_export csv_columns Let_def)

end
