(* ===== verification/MonRuns.thy ===== *)
theory MonRuns
  imports MonService
begin

text \<open>
  Whole runs of the monitoring service: any sequence of delivered events, aggregator ticks and alert
  evaluations.  The components are proved separately; here their invariants are combined, the counters are
  computed from the delivered events, and the alerts are derived from the counters.
\<close>

section \<open>Runs\<close>

datatype mon_op =
    CacheMetric cache_metric_event
  | WarmCompleted warm_completed_event
  | InvalMetric inval_metric_event
  | AggregatorTick
  | AlertTick

fun mon_apply :: "(nat \<Rightarrow> time) \<Rightarrow> mon_op \<Rightarrow> mon_service \<Rightarrow> mon_service" where
  "mon_apply clock (CacheMetric e) s = handle_cache_metric clock e s"
| "mon_apply clock (WarmCompleted e) s = handle_warm_completed clock e s"
| "mon_apply clock (InvalMetric e) s = handle_inval_metric clock e s"
| "mon_apply clock AggregatorTick s = mon_aggregate clock s"
| "mon_apply clock AlertTick s = mon_evaluate clock s"

type_synonym mon_trace = "((nat \<Rightarrow> time) \<times> mon_op) list"

definition mon_run :: "time \<Rightarrow> mon_trace \<Rightarrow> mon_service" where
  "mon_run now ops = fold (\<lambda>(clock, a). mon_apply clock a) ops (mon_init now)"

lemma mon_run_nil [simp]: "mon_run now [] = mon_init now"
  by (simp add: mon_run_def)

lemma mon_run_snoc [simp]: "mon_run now (ops @ [(clock, a)]) = mon_apply clock a (mon_run now ops)"
  by (simp add: mon_run_def)

lemma mon_run_induct [case_names init step]:
  assumes "P (mon_init now)" "\<And>ops clock a. P (mon_run now ops) \<Longrightarrow> P (mon_apply clock a (mon_run now ops))"
  shows "P (mon_run now ops)"
proof (induction ops rule: rev_induct)
  case (snoc x ops)
  then show ?case using assms(2) by (cases x) simp
qed (use assms(1) in simp)

section \<open>The events, counted\<close>

text \<open>What one operation adds to each counter.\<close>

definition of_bool_int :: "bool \<Rightarrow> int" where
  "of_bool_int b = (if b then 1 else 0)"

fun hit_of :: "mon_op \<Rightarrow> int" where
  "hit_of (CacheMetric e) = of_bool_int (cme_operation e = ''get'' \<and> cme_hit e)"
| "hit_of _ = 0"

fun miss_of :: "mon_op \<Rightarrow> int" where
  "miss_of (CacheMetric e) = of_bool_int (cme_operation e = ''get'' \<and> \<not> cme_hit e)"
| "miss_of _ = 0"

fun set_of_op :: "mon_op \<Rightarrow> int" where
  "set_of_op (CacheMetric e) = of_bool_int (cme_operation e = ''set'')"
| "set_of_op _ = 0"

fun delete_of :: "mon_op \<Rightarrow> int" where
  "delete_of (CacheMetric e) = of_bool_int (cme_operation e = ''delete'')"
| "delete_of _ = 0"

fun warming_of :: "mon_op \<Rightarrow> int" where
  "warming_of (WarmCompleted e) = 1"
| "warming_of _ = 0"

fun error_of :: "mon_op \<Rightarrow> int" where
  "error_of (WarmCompleted e) = of_bool_int (we_status e \<noteq> ''success'')"
| "error_of _ = 0"

text \<open>The number of invalidated keys travels through a float, which rounds beyond 53 bits.\<close>

fun invalidated_of :: "mon_op \<Rightarrow> int" where
  "invalidated_of (InvalMetric e) = f_to_int (f_of_int (ime_keys e))"
| "invalidated_of _ = 0"

definition tally :: "(mon_op \<Rightarrow> int) \<Rightarrow> mon_trace \<Rightarrow> int" where
  "tally f ops = i64 (sum_list (map (f \<circ> snd) ops))"

lemma tally_nil [simp]: "tally f [] = 0"
  by (simp add: tally_def in_i64_def)

lemma tally_snoc [simp]: "tally f (ops @ [(clock, a)]) = add64 (tally f ops) (f a)"
  by (simp add: tally_def add64_def i64_add_left)

lemma tally_in [simp]: "in_i64 (tally f ops)"
  by (simp add: tally_def i64_range)

lemma add64_tally_0 [simp]: "add64 (tally f ops) 0 = tally f ops"
  by (simp add: add64_def tally_def)

lemma get_counters_aggregate [simp]:
  "mo_collector (mon_aggregate clock s) = mo_collector s" "mo_collector (mon_evaluate clock s) = mo_collector s"
  by (simp_all add: mon_aggregate_def mon_evaluate_def split: option.split)

lemma inval_metric_counters:
  "get_counters (mo_collector (handle_inval_metric clock e s)) =
     (let c = get_counters (mo_collector s)
      in c\<lparr>ct_invalidations := add64 (ct_invalidations c) (f_to_int (f_of_int (ime_keys e)))\<rparr>)"
  by (simp add: handle_inval_metric_def Let_def counters_record count_event_def plain_metric_def)

definition counted :: "mon_trace \<Rightarrow> counters" where
  "counted ops = \<lparr>ct_hits = tally hit_of ops, ct_misses = tally miss_of ops, ct_sets = tally set_of_op ops,
     ct_deletes = tally delete_of ops, ct_evictions = 0, ct_invalidations = tally invalidated_of ops,
     ct_warmings = tally warming_of ops, ct_errors = tally error_of ops\<rparr>"

lemma counted_step:
  "get_counters (mo_collector s) = counted ops \<Longrightarrow>
   get_counters (mo_collector (mon_apply clock a s)) = counted (ops @ [(clock, a)])"
  by (cases a; simp add: counted_def cache_metric_counters warm_completed_counters inval_metric_counters Let_def
      of_bool_int_def)

lemma run_counters: "get_counters (mo_collector (mon_run now ops)) = counted ops"
proof (induction ops rule: rev_induct)
  case Nil
  then show ?case
    by (simp add: mon_init_def new_metrics_collector_def get_counters_def counted_def counters_zero_def)
next
  case (snoc x ops)
  then show ?case by (cases x) (simp add: counted_step)
qed

section \<open>The state invariant\<close>

definition window_ok :: "sliding_window \<Rightarrow> bool" where
  "window_ok w \<longleftrightarrow> 0 < sw_capacity w \<and> length (sw_buffer w) = sw_capacity w \<and> sw_head w < sw_capacity w"

lemma window_ok_add: "window_ok w \<Longrightarrow> window_ok (sw_add st w)"
  by (simp add: window_ok_def sw_add_def)

lemma latest_in_slots: "window_ok w \<Longrightarrow> sw_get_latest w \<in> set (sw_buffer w)"
  by (simp add: window_ok_def sw_get_latest_def)

lemma latest_after_add:
  assumes "window_ok w"
  shows "sw_get_latest (sw_add st w) = st"
proof -
  let ?c = "sw_capacity w" and ?h = "sw_head w"
  have w: "0 < ?c" "?h < ?c" "length (sw_buffer w) = ?c" using assms by (simp_all add: window_ok_def)
  have "((?h + 1) mod ?c + ?c - 1) mod ?c = ?h"
  proof (cases "?h + 1 = ?c")
    case True
    then have "(?h + 1) mod ?c + ?c - 1 = ?h" by simp
    with w show ?thesis by (metis mod_less)
  next
    case False
    then have "(?h + 1) mod ?c + ?c - 1 = ?h + ?c" using w by simp
    with w show ?thesis by simp
  qed
  with w show ?thesis by (simp add: sw_get_latest_def sw_add_def)
qed

lemma window_ok_new: "0 < nat (f_to_int (in_seconds d) + 1) \<Longrightarrow> window_ok (new_sliding_window d)"
  by (simp add: window_ok_def new_sliding_window_def Let_def)

lemma windows_new:
  "window_ok (ag_1s new_aggregator)" "window_ok (ag_10s new_aggregator)" "window_ok (ag_1m new_aggregator)"
proof -
  have s: "in_seconds (1 * second) = Fin 1" "in_seconds (10 * second) = Fin 10" "in_seconds (1 * minute) = Fin 60"
    using fl_int [of 1] fl_int [of 10] fl_int [of 60]
    by (simp_all add: in_seconds_def time_units go_div_def f_of_int_small)
  show "window_ok (ag_1s new_aggregator)" "window_ok (ag_10s new_aggregator)" "window_ok (ag_1m new_aggregator)"
    using s by (simp_all add: new_aggregator_def window_ok_new rat_trunc_def in_i64_def)
qed

definition mon_sound :: "mon_service \<Rightarrow> bool" where
  "mon_sound s \<longleftrightarrow>
     (\<exists>xs. ring_holds xs (mc_latency (mo_collector s))) \<and>
     window_ok (ag_1s (mo_aggregator s)) \<and> window_ok (ag_10s (mo_aggregator s)) \<and>
     window_ok (ag_1m (mo_aggregator s)) \<and> length (ad_anomalies (ag_detector (mo_aggregator s))) \<le> 100 \<and>
     registry_sound (mo_alerts s) \<and> am_rules (mo_alerts s) = am_rules new_alert_manager \<and>
     fst ` set (am_active (mo_alerts s)) \<subseteq> rule_id ` set (am_rules new_alert_manager)"

lemma mon_sound_init: "mon_sound (mon_init now)"
proof -
  have "ring_holds [] (mc_latency (mo_collector (mon_init now)))"
    using ring_holds_new [of 10000] by (simp add: mon_init_def new_metrics_collector_def)
  then show ?thesis
    using windows_new new_alert_manager_sound
    by (auto simp: mon_sound_def mon_init_def new_anomaly_detector_def new_aggregator_def new_alert_manager_def)
qed

lemma mon_sound_record: "mon_sound s \<Longrightarrow> mon_sound (record_into clock e s)"
  by (auto simp: mon_sound_def record_into_def record_metric_def intro: ring_holds_add)

lemma mon_sound_aggregate: "mon_sound s \<Longrightarrow> mon_sound (mon_aggregate clock s)"
  by (auto simp: mon_sound_def mon_aggregate_def ag_aggregate_def Let_def ad_detect_def window_ok_add
      length_keep_last split: option.split)

text \<open>Evaluating the default rules: the rules stay and the active alerts are exactly those that fire.\<close>

lemma evaluate_default_rules:
  assumes "am_rules am = am_rules new_alert_manager"
    and "fst ` set (am_active am) \<subseteq> rule_id ` set (am_rules new_alert_manager)"
  shows "fst ` set (am_active (evaluate_rules clock st am)) =
    rule_id ` {r \<in> set (am_rules new_alert_manager). fires r st}"
proof -
  have "distinct (map rule_id (am_rules new_alert_manager))" by (simp add: default_ids)
  from evaluate_loop_active [OF this, of clock 0 st am] assms
  show ?thesis by (auto simp: evaluate_rules_def Let_def case_prod_beta)
qed

lemma mon_sound_evaluate: "mon_sound s \<Longrightarrow> mon_sound (mon_evaluate clock s)"
  using evaluate_default_rules [of "mo_alerts s" clock "sw_get_latest (ag_1m (mo_aggregator s))"]
  by (auto simp: mon_sound_def mon_evaluate_def evaluate_rules_sound default_rules_fixed)

lemma mon_sound_apply: "mon_sound s \<Longrightarrow> mon_sound (mon_apply clock a s)"
  by (cases a) (simp_all add: handle_cache_metric_def handle_warm_completed_def handle_inval_metric_def Let_def
      mon_sound_record mon_sound_aggregate mon_sound_evaluate)

lemma mon_sound_run: "mon_sound (mon_run now ops)"
  by (induction rule: mon_run_induct) (simp_all add: mon_sound_init mon_sound_apply)

lemma sound_latency:
  assumes "mon_sound s"
  obtains l where "get_latency_stats (mo_collector s) = Some l"
  using assms ring_get_all_exact by (fastforce simp: mon_sound_def get_latency_stats_def)

text \<open>The alerts after a tick and an evaluation: the snapshot taken by the tick is the one evaluated.\<close>

lemma sound_alerts:
  assumes "mon_sound s" "get_latency_stats (mo_collector s) = Some l"
  shows "fst ` set (am_active (mo_alerts (mon_evaluate clock' (mon_aggregate clock s)))) =
    rule_id ` {r \<in> set (am_rules new_alert_manager).
      fires r (snapshot_of (clock 0) (get_counters (mo_collector s)) l)}"
proof -
  let ?s = "mon_aggregate clock s"
  have m: "window_ok (ag_1m (mo_aggregator s))" using assms(1) by (simp add: mon_sound_def)
  have "sw_get_latest (ag_1m (mo_aggregator ?s)) = snapshot_of (clock 0) (get_counters (mo_collector s)) l"
    using latest_after_add [OF m] assms(2) by (simp add: mon_aggregate_def ag_aggregate_def Let_def)
  then show ?thesis
    using evaluate_default_rules [of "mo_alerts ?s" clock' "snapshot_of (clock 0) (get_counters (mo_collector s)) l"]
      mon_sound_aggregate [OF assms(1), of clock]
    by (simp add: mon_evaluate_def mon_sound_def)
qed

text \<open>
  What holds of every snapshot that the aggregator can take in a class of runs bounds the alerts: only the
  rules that fire on such a snapshot can be active.
\<close>

lemma slots_after_add: "\<forall>st \<in> set (sw_buffer w). P st \<Longrightarrow> P x \<Longrightarrow> \<forall>st \<in> set (sw_buffer (sw_add x w)). P st"
  using set_update_subset_insert [of "sw_buffer w" "sw_head w" x] by (auto simp: sw_add_def)

lemma slots_after_aggregate:
  assumes "\<forall>st \<in> set (sw_buffer (ag_1m (mo_aggregator s))). P st"
    and "\<And>l. P (snapshot_of (clock 0) (get_counters (mo_collector s)) l)"
  shows "\<forall>st \<in> set (sw_buffer (ag_1m (mo_aggregator (mon_aggregate clock s)))). P st"
proof (cases "get_latency_stats (mo_collector s)")
  case None
  with assms(1) show ?thesis by (simp add: mon_aggregate_def)
next
  case (Some l)
  let ?x = "snapshot_of (clock 0) (get_counters (mo_collector s)) l"
  have "ag_1m (mo_aggregator (mon_aggregate clock s)) = sw_add ?x (ag_1m (mo_aggregator s))"
    using Some by (simp add: mon_aggregate_def ag_aggregate_def Let_def)
  with slots_after_add [OF assms(1) assms(2) [of l]] show ?thesis by (simp only:)
qed

lemma aggregator_unchanged:
  "mo_aggregator (mon_evaluate clock s) = mo_aggregator s"
  "mo_aggregator (handle_cache_metric clock e s) = mo_aggregator s"
  "mo_aggregator (handle_warm_completed clock e' s) = mo_aggregator s"
  "mo_aggregator (handle_inval_metric clock e'' s) = mo_aggregator s"
  by (simp_all add: mon_evaluate_def handle_cache_metric_def handle_warm_completed_def handle_inval_metric_def
      record_into_def Let_def)

lemma alerts_unchanged:
  "mo_alerts (mon_aggregate clock s) = mo_alerts s"
  "mo_alerts (handle_cache_metric clock e s) = mo_alerts s"
  "mo_alerts (handle_warm_completed clock e' s) = mo_alerts s"
  "mo_alerts (handle_inval_metric clock e'' s) = mo_alerts s"
  by (simp_all add: mon_aggregate_def handle_cache_metric_def handle_warm_completed_def handle_inval_metric_def
      record_into_def Let_def split: option.split)

lemma slots_run:
  assumes "P empty_stats" "\<And>os t l. Q os \<Longrightarrow> P (snapshot_of t (counted os) l)" "\<And>os x. Q (os @ [x]) \<Longrightarrow> Q os"
    and "Q ops"
  shows "\<forall>st \<in> set (sw_buffer (ag_1m (mo_aggregator (mon_run now ops)))). P st"
  using assms(4)
proof (induction ops rule: rev_induct)
  case Nil
  then show ?case
    using assms(1) by (simp add: mon_init_def new_aggregator_def new_sliding_window_def Let_def)
next
  case (snoc x ops)
  obtain clock a where x: "x = (clock, a)" by (cases x)
  have Q: "Q ops" using snoc.prems by (rule assms(3))
  have IH: "\<forall>st \<in> set (sw_buffer (ag_1m (mo_aggregator (mon_run now ops)))). P st" using Q by (rule snoc.IH)
  show ?case
  proof (cases a)
    case AggregatorTick
    then show ?thesis
      using slots_after_aggregate [OF IH, of clock] assms(2) [OF Q] by (simp add: x run_counters)
  qed (use IH in \<open>simp_all add: x aggregator_unchanged\<close>)
qed

lemma active_run:
  assumes "P empty_stats" "\<And>os t l. Q os \<Longrightarrow> P (snapshot_of t (counted os) l)" "\<And>os x. Q (os @ [x]) \<Longrightarrow> Q os"
    and "Q ops"
  shows "fst ` set (am_active (mo_alerts (mon_run now ops))) \<subseteq>
    rule_id ` {r \<in> set (am_rules new_alert_manager). \<exists>st. P st \<and> fires r st}"
  using assms(4)
proof (induction ops rule: rev_induct)
  case Nil
  then show ?case by (simp add: mon_init_def new_alert_manager_def)
next
  case (snoc x ops)
  obtain clock a where x: "x = (clock, a)" by (cases x)
  have Q: "Q ops" using snoc.prems by (rule assms(3))
  let ?s = "mon_run now ops"
  show ?case
  proof (cases a)
    case AlertTick
    let ?st = "sw_get_latest (ag_1m (mo_aggregator ?s))"
    have sound: "mon_sound ?s" by (rule mon_sound_run)
    then have "?st \<in> set (sw_buffer (ag_1m (mo_aggregator ?s)))"
      by (simp add: mon_sound_def latest_in_slots)
    with slots_run [where P = P and Q = Q and now = now, OF assms(1-3) Q] have P: "P ?st" by (rule bspec)
    have "fst ` set (am_active (mo_alerts (mon_run now (ops @ [x])))) =
        rule_id ` {r \<in> set (am_rules new_alert_manager). fires r ?st}"
      using evaluate_default_rules [of "mo_alerts ?s" clock ?st] sound AlertTick
      by (simp add: x mon_evaluate_def mon_sound_def)
    with P show ?thesis by (simp only:) (rule image_mono, blast)
  qed (use snoc.IH [OF Q] in \<open>simp_all only: x mon_run_snoc mon_apply.simps alerts_unchanged\<close>)
qed

text \<open>The default rules on snapshots without evictions, without errors or without requests.\<close>

lemma fl_not_negative: "0 \<le> x \<Longrightarrow> \<not> f_lt (fl x) (Fin 0)"
  using rnd_nonneg [of x] by (simp add: fl_def)

lemma quiet_rules:
  "as_evictions st = 0 \<Longrightarrow> \<not> fires (HighEvictionRate new_high_eviction_rate_rule) st"
  "as_error_rate st = Fin 0 \<Longrightarrow> \<not> fires (HighErrorRate new_high_error_rate_rule) st"
  "as_total st = 0 \<Longrightarrow> \<not> fires (LowHitRate new_low_hit_rate_rule) st"
  by (simp_all add: fires_def eval_high_eviction_rate_def new_high_eviction_rate_rule_def f_of_int_small
      eval_high_error_rate_def new_high_error_rate_rule_def eval_low_hit_rate_def f_const_def fl_not_negative)

lemma default_rules: "set (am_rules new_alert_manager) =
    {HighErrorRate new_high_error_rate_rule, LowHitRate new_low_hit_rate_rule,
     LatencySpike new_latency_spike_rule, HighEvictionRate new_high_eviction_rate_rule}"
  by (simp add: new_alert_manager_def)

lemma rule_ids:
  "rule_id (HighErrorRate new_high_error_rate_rule) = ''high_error_rate''"
  "rule_id (LowHitRate new_low_hit_rate_rule) = ''low_hit_rate''"
  "rule_id (LatencySpike new_latency_spike_rule) = ''latency_spike''"
  by (simp_all add: new_high_error_rate_rule_def new_low_hit_rate_rule_def new_latency_spike_rule_def)

text \<open>No handler reports evictions, so no snapshot of a run has any.\<close>

lemma active_without_evictions:
  "fst ` set (am_active (mo_alerts (mon_run now ops))) \<subseteq> {''high_error_rate'', ''low_hit_rate'', ''latency_spike''}"
proof -
  have "fst ` set (am_active (mo_alerts (mon_run now ops))) \<subseteq>
      rule_id ` {r \<in> set (am_rules new_alert_manager). \<exists>st. as_evictions st = 0 \<and> fires r st}"
    by (rule active_run [where Q = "\<lambda>_. True"]) (simp_all add: empty_stats_def snapshot_of_def counted_def Let_def)
  also have "\<dots> \<subseteq> rule_id ` {HighErrorRate new_high_error_rate_rule, LowHitRate new_low_hit_rate_rule,
      LatencySpike new_latency_spike_rule}"
    unfolding default_rules by (rule image_mono) (use quiet_rules(1) in blast)
  finally show ?thesis by (simp only: image_insert image_empty rule_ids)
qed

text \<open>Events on the topic of cache metrics.\<close>

fun from_cache :: "mon_op \<Rightarrow> bool" where
  "from_cache (CacheMetric e) = True"
| "from_cache _ = False"

lemma tally_zero: "\<forall>(clock, a) \<in> set ops. f a = 0 \<Longrightarrow> tally f ops = 0"
proof (induction ops rule: rev_induct)
  case (snoc x ops)
  then show ?case by (cases x) (simp add: add64_def in_i64_def)
qed simp

lemma not_from_cache: "\<not> from_cache a \<Longrightarrow> hit_of a = 0 \<and> miss_of a = 0 \<and> set_of_op a = 0 \<and> delete_of a = 0"
  by (cases a) simp_all

lemma counted_without_cache:
  assumes "\<forall>(clock, a) \<in> set ops. \<not> from_cache a"
  shows "ct_hits (counted ops) = 0" "ct_misses (counted ops) = 0" "ct_sets (counted ops) = 0"
    "ct_deletes (counted ops) = 0"
  using assms not_from_cache by (auto simp: counted_def intro!: tally_zero)

section \<open>Properties\<close>

text \<open>
  Property C31.  The invariant of the monitoring service, over every sequence of events, aggregator ticks and
  evaluations: reading the latencies always returns, the latest snapshot of each window is one of its slots,
  at most 100 anomalies are remembered, each active alert is filed once under a default rule, is unresolved
  and is counted, and the alert for evictions never becomes active because no handler reports them.
\<close>

theorem monitoring_invariant:
  "let s = mon_run now ops in get_latency_stats (mo_collector s) \<noteq> None \<and>
    sw_get_latest (ag_1s (mo_aggregator s)) \<in> set (sw_buffer (ag_1s (mo_aggregator s))) \<and>
    sw_get_latest (ag_10s (mo_aggregator s)) \<in> set (sw_buffer (ag_10s (mo_aggregator s))) \<and>
    sw_get_latest (ag_1m (mo_aggregator s)) \<in> set (sw_buffer (ag_1m (mo_aggregator s))) \<and>
    length (ad_anomalies (ag_detector (mo_aggregator s))) \<le> 100 \<and>
    registry_sound (mo_alerts s) \<and>
    set (map fst (am_active (mo_alerts s))) \<subseteq> {''high_error_rate'', ''low_hit_rate'', ''latency_spike''}"
proof -
  define s where "s = mon_run now ops"
  have sound: "mon_sound s" unfolding s_def by (rule mon_sound_run)
  then have "get_latency_stats (mo_collector s) \<noteq> None" by (metis sound_latency option.distinct(1))
  moreover have "fst ` set (am_active (mo_alerts s)) \<subseteq> {''high_error_rate'', ''low_hit_rate'', ''latency_spike''}"
    unfolding s_def by (rule active_without_evictions)
  ultimately show ?thesis using sound by (simp add: mon_sound_def latest_in_slots Let_def s_def)
qed

text \<open>
  Property C33.  From events to alerts: after any run, an aggregator tick and an evaluation, the active alerts
  are exactly those whose rule fires on the counters of the delivered events (get requests that hit or missed,
  sets, deletes, invalidated keys, warming completions and the completions that did not succeed) and on the
  latencies that the collector still holds.
\<close>

theorem alerts_follow_events:
  "\<exists>l. get_latency_stats (mo_collector (mon_run now ops)) = Some l \<and>
     set (map fst (am_active (mo_alerts (mon_run now (ops @ [(clock, AggregatorTick), (clock', AlertTick)]))))) =
       rule_id ` {r \<in> set (am_rules new_alert_manager). fires r (snapshot_of (clock 0) (counted ops) l)}"
proof -
  obtain l where l: "get_latency_stats (mo_collector (mon_run now ops)) = Some l"
    using sound_latency [OF mon_sound_run] .
  have "mon_run now (ops @ [(clock, AggregatorTick), (clock', AlertTick)]) =
      mon_evaluate clock' (mon_aggregate clock (mon_run now ops))"
    by (simp add: mon_run_def)
  with sound_alerts [OF mon_sound_run l, of clock' clock] l show ?thesis by (simp add: run_counters)
qed

text \<open>
  Property C34.  Without events from the cache (and no service publishes on the topic of cache metrics) the
  request counters stay 0, the error rate, a quotient by the number of requests, is reported as 0 although
  errors are counted, and the only alert that can become active is the one for latencies.
\<close>

theorem only_latency_alerts:
  assumes "\<forall>(clock, a) \<in> set ops. \<not> from_cache a"
  shows "ct_hits (get_counters (mo_collector (mon_run now ops))) = 0 \<and>
    ct_misses (get_counters (mo_collector (mon_run now ops))) = 0 \<and>
    as_error_rate (sw_get_latest (ag_1m (mo_aggregator (mon_run now ops)))) = Fin 0 \<and>
    set (map fst (am_active (mo_alerts (mon_run now ops)))) \<subseteq> {''latency_spike''}"
proof -
  let ?Q = "\<lambda>os :: mon_trace. \<forall>(clock, a) \<in> set os. \<not> from_cache a"
  let ?P = "\<lambda>st. as_evictions st = 0 \<and> as_error_rate st = Fin 0 \<and> as_total st = 0"
  have P: "?P empty_stats" by (simp add: empty_stats_def)
  have snap: "?P (snapshot_of t (counted os) l)" if "?Q os" for os t l
    using counted_without_cache [OF that]
    by (simp add: snapshot_of_def Let_def add64_def calculate_error_rate_def in_i64_def) (simp add: counted_def)
  have closed: "?Q (os @ [x]) \<Longrightarrow> ?Q os" for os x by simp
  have "fst ` set (am_active (mo_alerts (mon_run now ops))) \<subseteq>
      rule_id ` {r \<in> set (am_rules new_alert_manager). \<exists>st. ?P st \<and> fires r st}"
    by (rule active_run [of ?P ?Q, OF P snap closed assms])
  also have "\<dots> \<subseteq> rule_id ` {LatencySpike new_latency_spike_rule}"
    unfolding default_rules by (rule image_mono) (use quiet_rules in blast)
  finally have "fst ` set (am_active (mo_alerts (mon_run now ops))) \<subseteq> {''latency_spike''}"
    by (simp only: image_insert image_empty rule_ids)
  moreover have "as_error_rate (sw_get_latest (ag_1m (mo_aggregator (mon_run now ops)))) = Fin 0"
  proof -
    have "sw_get_latest (ag_1m (mo_aggregator (mon_run now ops))) \<in> set (sw_buffer (ag_1m (mo_aggregator (mon_run now ops))))"
      using mon_sound_run [of now ops] by (simp add: mon_sound_def latest_in_slots)
    with slots_run [where P = ?P and Q = ?Q and now = now, OF P snap closed assms]
    have "?P (sw_get_latest (ag_1m (mo_aggregator (mon_run now ops))))" by (rule bspec)
    then show ?thesis by simp
  qed
  ultimately show ?thesis using counted_without_cache [OF assms] by (simp add: run_counters)
qed

text \<open>A failed warming, counted as an error, then a tick and an evaluation.\<close>

theorem only_latency_alerts_witness:
  "let e = \<lparr>we_key = ''user:1'', we_status = ''failed'', we_duration_ms = 1, we_strategy = ''priority'', we_at = 0\<rparr>;
       s = mon_run 0 [(\<lambda>_. 0, WarmCompleted e), (\<lambda>_. 0, AggregatorTick), (\<lambda>_. 0, AlertTick)]
   in ct_errors (get_counters (mo_collector s)) = 1 \<and>
      as_error_rate (sw_get_latest (ag_1m (mo_aggregator s))) = Fin 0 \<and>
      set (map fst (am_active (mo_alerts s))) \<subseteq> {''latency_spike''}"
proof -
  let ?e = "\<lparr>we_key = ''user:1'', we_status = ''failed'', we_duration_ms = 1, we_strategy = ''priority'', we_at = 0\<rparr>"
  let ?ops = "[(\<lambda>_. 0, WarmCompleted ?e), (\<lambda>_. 0, AggregatorTick), (\<lambda>_. 0, AlertTick)] :: mon_trace"
  have "ct_errors (get_counters (mo_collector (mon_run 0 ?ops))) = 1"
    unfolding run_counters by (simp add: counted_def tally_def of_bool_int_def in_i64_def)
  then show ?thesis using only_latency_alerts [of ?ops 0] by (simp add: Let_def)
qed

end
