(* ===== verification/Predictive.thy ===== *)
theory Predictive
  imports WarmRuns
begin

text \<open>
  Predictive warming, from the recorded accesses to the queued tasks: the predictor of
  \<open>warming/predictor.go\<close>, the strategies of \<open>warming/strategies.go\<close>, the request and the cron endpoints that
  use them (\<open>warming/service.go\<close>, \<open>warming/cron.go\<close>).
\<close>

section \<open>A predictor with a strategy\<close>

locale predictive_planning = hot_key_source sound accessed predict + planner plan_with
  for sound :: "'p \<Rightarrow> bool" and accessed :: "'p \<Rightarrow> time \<Rightarrow> string set"
    and predict :: "time \<Rightarrow> 'p \<Rightarrow> duration \<Rightarrow> int \<Rightarrow> string list"
    and plan_with :: "plan_options \<Rightarrow> warm_task list"
begin

text \<open>The plan of predicted keys inherits both contracts.\<close>

lemma planned:
  assumes "sound p" "po_keys opts = predict now p window limit"
  shows "wt_key ` set (plan_with opts) \<subseteq> accessed p (now + i64 (- window))"
    "distinct (map wt_key (plan_with opts))"
    "0 < limit \<Longrightarrow> int (length (plan_with opts)) \<le> limit"
proof -
  show "wt_key ` set (plan_with opts) \<subseteq> accessed p (now + i64 (- window))"
    using keys_given [of opts] predict_accessed [OF assms(1), of now window limit] assms(2) by auto
  show "distinct (map wt_key (plan_with opts))"
    using no_key_twice [of opts] predict_once [OF assms(1)] assms(2) by simp
  show "int (length (plan_with opts)) \<le> limit" if "0 < limit"
    using at_most [of opts] predict_at_most [OF assms(1) that, of now window] assms(2) by simp
qed

end

interpretation predictive: predictive_planning log_sound accessed_since predict_hot_keys "plan s" for s
  by unfold_locales

section \<open>The log in every run\<close>

lemma execute_predictor: "ws_predictor (fst (execute_warm_task env clock shared s task)) = ws_predictor s"
proof -
  have "ws_predictor (fst (execute_warm_task_internal env c s task)) = ws_predictor s" for c
    by (simp add: execute_warm_task_internal_def Let_def case_prod_beta split: option.split sum.split)
  then show ?thesis
    by (cases shared)
      (simp_all add: execute_warm_task_def publish_warm_completion_def Let_def case_prod_beta split: option.split)
qed

lemma after_attempt_predictor: "after_attempt now task k x = (s', p) \<Longrightarrow> ws_predictor s' = ws_predictor (fst x)"
  by (auto simp: after_attempt_def publish_warm_completion_def Let_def split: if_splits prod.splits)

lemma queue_and_estimate_predictor [simp]: "ws_predictor (fst (queue_and_estimate ts f s)) = ws_predictor s"
  by (simp add: queue_and_estimate_def case_prod_beta Let_def)

lemma requests_predictor [simp]:
  "ws_predictor (fst (warm_key clock s kreq)) = ws_predictor s"
  "ws_predictor (fst (warm_pattern clock s preq)) = ws_predictor s"
  "ws_predictor (fst (trigger_predictive clock s)) = ws_predictor s"
  "ws_predictor (fst (update_config s ureq)) = ws_predictor s"
  "ws_predictor (fst (execute_job clock s job)) = ws_predictor s"
  "ws_predictor (fst (register_job s job)) = ws_predictor s"
  "ws_predictor (fst (unregister_job s k)) = ws_predictor s"
  "ws_predictor (set_origin_fetcher b s) = ws_predictor s"
  "ws_predictor (set_cache_client b s) = ws_predictor s"
  by (simp_all add: warm_key_def warm_pattern_def trigger_predictive_def update_config_def execute_job_def
      register_job_def unregister_job_def set_origin_fetcher_def set_cache_client_def Let_def
      case_prod_beta split: option.split)

lemma cron_predictor [simp]:
  "ws_predictor (fst (hourly_refresh clock s)) = ws_predictor s"
  "ws_predictor (fst (peak_hours_warmup clock s)) = ws_predictor s"
  "ws_predictor (fst (daily_warmup clock s)) = ws_predictor s"
  by (simp_all add: hourly_refresh_def peak_hours_warmup_def daily_warmup_def warm_predicted_def Let_def
      case_prod_beta)

lemma shutdown_predictor: "warm_shutdown s = Inr s' \<Longrightarrow> ws_predictor s' = ws_predictor s"
  by (auto simp: warm_shutdown_def wp_shutdown_def Let_def split: if_splits)

lemma log_sound_step:
  assumes "warm_step env x y" "log_sound (ws_predictor (fst x))"
  shows "log_sound (ws_predictor (fst y))"
  using assms
  by (cases rule: warm_step.cases)
    (simp_all add: log_sound_record log_sound_cleanup shutdown_predictor after_attempt_predictor execute_predictor)

lemma log_sound_reach: "warm_steps env (warm_start w) x \<Longrightarrow> log_sound (ws_predictor (fst x))"
proof (induction rule: rtranclp_induct)
  case base
  show ?case
    by (simp add: warm_start_def warm_init_def new_worker_pool_def warm_default_config_def log_sound_new)
qed (rule log_sound_step)

section \<open>Queued keys\<close>

text \<open>A request appends tasks, at most \<open>n\<close>, none for the same key as another, and all for keys that were
  accessed after the cutoff.\<close>

definition warms_accessed :: "'w warm_service \<Rightarrow> 'w warm_service \<Rightarrow> time \<Rightarrow> nat \<Rightarrow> bool" where
  "warms_accessed s s' cutoff n \<longleftrightarrow> (\<exists>new. wp_queue (ws_pool s') = wp_queue (ws_pool s) @ new \<and>
     distinct (map wt_key new) \<and> wt_key ` set new \<subseteq> accessed_since (ws_predictor s) cutoff \<and> length new \<le> n)"

lemma warms_nothing: "warms_accessed s s cutoff n"
  by (simp add: warms_accessed_def)

lemma warms_queued:
  assumes "wt_key ` set ts \<subseteq> accessed_since (ws_predictor s) cutoff" "distinct (map wt_key ts)" "length ts \<le> n"
  shows "warms_accessed s (fst (queue_and_estimate ts f s)) cutoff n"
proof -
  let ?new = "take (queue_capacity - length (wp_queue (ws_pool s))) ts"
  have "wp_queue (ws_pool (fst (queue_and_estimate ts f s))) = wp_queue (ws_pool s) @ ?new"
    by (simp add: queue_and_estimate_def queue_tasks_room case_prod_beta Let_def)
  moreover have "distinct (map wt_key ?new)" using assms(2) by (simp add: take_map [symmetric])
  moreover have "wt_key ` set ?new \<subseteq> accessed_since (ws_predictor s) cutoff"
    using assms(1) by (auto dest: in_set_takeD)
  ultimately show ?thesis using assms(3) unfolding warms_accessed_def by (intro exI [of _ ?new]) simp
qed

lemma trigger_warms:
  assumes "log_sound (ws_predictor s)"
  shows "warms_accessed s (fst (trigger_predictive clock s)) (clock 0 + i64 (- (1 * hour))) 100"
proof -
  let ?keys = "predict_hot_keys (clock 0) (ws_predictor s) (1 * hour) 100"
  have "warms_accessed s (fst (queue_and_estimate (plan strategy \<lparr>po_keys = ?keys, po_priority = 80, po_limit = 0\<rparr>) f s))
      (clock 0 + i64 (- (1 * hour))) 100" for strategy and f :: "int \<Rightarrow> int \<Rightarrow> warm_key_response"
    using predictive.planned [OF assms, of "\<lparr>po_keys = ?keys, po_priority = 80, po_limit = 0\<rparr>" "clock 0" "1 * hour" 100 strategy]
    by (intro warms_queued) simp_all
  then show ?thesis
    by (simp add: trigger_predictive_def Let_def warms_nothing split: option.split)
qed

lemma key_tasks_keys: "map wt_key (key_tasks cfg req) = wkr_keys req"
  by (simp add: key_tasks_def Let_def comp_def)

lemma predicted_warms:
  assumes "log_sound (ws_predictor s)" "0 < limit"
  shows "warms_accessed s (fst (warm_predicted window limit priority clock s)) (clock 0 + i64 (- window)) (nat limit)"
proof -
  let ?keys = "predict_hot_keys (clock 0) (ws_predictor s) window limit"
  let ?req = "\<lparr>wkr_keys = ?keys, wkr_priority = priority, wkr_strategy = ''priority''\<rparr>"
  have keys: "map wt_key (key_tasks (ws_cfg s) ?req) = ?keys" by (simp add: key_tasks_keys)
  have "wt_key ` set (key_tasks (ws_cfg s) ?req) = set ?keys" using arg_cong [OF keys, of set] by simp
  moreover have "length (key_tasks (ws_cfg s) ?req) = length ?keys" using arg_cong [OF keys, of length] by simp
  ultimately have "warms_accessed s (fst (queue_and_estimate (key_tasks (ws_cfg s) ?req) f s))
      (clock 0 + i64 (- window)) (nat limit)" for f :: "int \<Rightarrow> int \<Rightarrow> warm_key_response"
    using default_predictor.predict_accessed [OF assms(1), of "clock 0" window limit]
      default_predictor.predict_once [OF assms(1), of "clock 0" window limit]
      default_predictor.predict_at_most [OF assms, of "clock 0" window] keys
    by (intro warms_queued) simp_all
  then show ?thesis
    by (simp add: warm_predicted_def warm_key_def Let_def case_prod_beta warms_nothing)
qed

section \<open>Property\<close>

text \<open>
  Property C24.  Predictive warming, from the accesses to the queue: in every reachable state of the warming
  service, the predictive request and the daily, hourly and peak-hour cron jobs append to the queue at most
  as many tasks as their limit, no two for the same key, and only for keys that were accessed within
  their window.
\<close>

theorem predictive_warming_scope:
  assumes "warm_steps env (warm_start w) (s, pc, hist)"
  shows "warms_accessed s (fst (trigger_predictive clock s)) (clock 0 - 1 * hour) 100 \<and>
    warms_accessed s (fst (daily_warmup clock s)) (clock 0 - 1 * hour) 100 \<and>
    warms_accessed s (fst (hourly_refresh clock s)) (clock 0 - 1 * hour) 50 \<and>
    warms_accessed s (fst (peak_hours_warmup clock s)) (clock 0 - 2 * hour) 100"
proof -
  have sound: "log_sound (ws_predictor s)" using log_sound_reach [OF assms] by simp
  have w: "i64 (- hour) = - hour" "i64 (- (2 * hour)) = - (2 * hour)"
    by (simp_all add: time_units i64_id in_i64_def)
  from trigger_warms [OF sound, of clock] predicted_warms [OF sound, of 50 "1 * hour" 70 clock]
    predicted_warms [OF sound, of 100 "2 * hour" 90 clock]
  show ?thesis
    by (simp add: w daily_warmup_def hourly_refresh_def peak_hours_warmup_def Let_def case_prod_beta)
qed

theorem predictive_warming_scope_witness:
  "\<exists>s. warm_steps happy_env (warm_start 0) (s, \<lambda>_. WkIdle, []) \<and>
     ''k'' \<in> accessed_since (ws_predictor s) (7 - 1 * hour) \<and>
     warms_accessed s (fst (hourly_refresh (\<lambda>_. 7) s)) (7 - 1 * hour) 50"
proof -
  let ?new = "projr (warm_init (0 :: nat))"
  let ?s = "?new\<lparr>ws_predictor := pr_record_access 5 (ws_predictor ?new) ''k''\<rparr>"
  have "warm_step happy_env (?new, \<lambda>_. WkIdle, []) (?s, \<lambda>_. WkIdle, [])" by (rule ws_access)
  then have reach: "warm_steps happy_env (warm_start 0) (?s, \<lambda>_. WkIdle, [])"
    by (simp add: warm_start_def r_into_rtranclp)
  have "''k'' \<in> accessed_since (ws_predictor ?s) (7 - 1 * hour)"
    by (simp add: warm_init_def new_worker_pool_def warm_default_config_def new_predictor_def pr_record_access_def
        record_access_history_def accessed_since_def time_units Let_def)
  with reach predictive_warming_scope [OF reach, of "\<lambda>_. 7"] show ?thesis by blast
qed

end
