(* ===== verification/WarmStop.thy ===== *)
theory WarmStop
  imports WarmRuns
begin

text \<open>
  The end of the warming service: \<open>WorkerPool.Shutdown\<close> closes the workers' channel and waits for them
  (\<open>warming/worker_pool.go\<close>).  Shown here: the wait can always end, because a worker makes finitely many
  attempts at a task, and what happens to requests after it.
\<close>

section \<open>Attempts end\<close>

lemma internal_cfg: "ws_cfg (fst (execute_warm_task_internal env clock s task)) = ws_cfg s"
  by (simp add: execute_warm_task_internal_def Let_def case_prod_beta split: option.split sum.split)

lemma execute_cfg: "ws_cfg (fst (execute_warm_task env clock shared s task)) = ws_cfg s"
  by (cases shared)
    (simp_all add: execute_warm_task_def publish_warm_completion_def Let_def case_prod_beta internal_cfg
      split: option.split)

lemma after_attempt_next:
  assumes "after_attempt now task k x = (s', p)"
  shows "ws_cfg s' = ws_cfg (fst x)"
    and "p = WkDone \<or> p = WkTry task (k + 1) \<and> int k + 1 \<le> wc_retries (ws_cfg s')"
  using assms by (auto simp: after_attempt_def publish_warm_completion_def Let_def split: if_splits prod.splits)

text \<open>The retries that are left decrease with each attempt.\<close>

lemma attempts_end:
  assumes "pc i = WkTry task k"
  shows "\<exists>s' hist'. warm_steps env (s, pc, hist) (s', pc(i := WkDone), hist') \<and> ws_pool s' = ws_pool s"
  using assms
proof (induction "nat (wc_retries (ws_cfg s) - int k)" arbitrary: s pc hist k rule: less_induct)
  case less
  define res where "res = execute_warm_task env (\<lambda>_. 0) None s task"
  obtain s1 p where after: "after_attempt 0 task k res = (s1, p)" by (cases "after_attempt 0 task k res") auto
  let ?h = "if ws_stop s then hist else (wt_key task, snd res) # hist"
  have step: "warm_step env (s, pc, hist) (s1, pc(i := p), ?h)"
    using less.prems _ res_def after by (rule ws_run) (simp add: mono_def)
  have pool: "ws_pool s1 = ws_pool s" using after_attempt_pool [OF after] by (simp add: res_def execute_pool)
  have cfg: "ws_cfg s1 = ws_cfg s" using after_attempt_next(1) [OF after] by (simp add: res_def execute_cfg)
  from after_attempt_next(2) [OF after] show ?case
  proof
    assume "p = WkDone"
    with step pool show ?thesis by blast
  next
    assume p: "p = WkTry task (k + 1) \<and> int k + 1 \<le> wc_retries (ws_cfg s1)"
    then have "nat (wc_retries (ws_cfg s1) - int (k + 1)) < nat (wc_retries (ws_cfg s) - int k)"
      using cfg by simp
    from less.hyps [OF this, of "pc(i := p)" ?h] p obtain s' hist'
      where "warm_steps env (s1, pc(i := p), ?h) (s', pc(i := WkDone), hist')" "ws_pool s' = ws_pool s1"
      by auto
    with step_trans [OF step this(1)] pool show ?thesis by auto
  qed
qed

section \<open>Workers leave\<close>

lemma idle_leaves:
  assumes "i < length (wp_workers (ws_pool s))" "wp_stopped (ws_pool s)" "pc i = WkIdle"
  shows "\<exists>s'. warm_steps env (s, pc, hist) (s', pc(i := WkStopped), hist) \<and> wp_stopped (ws_pool s') \<and>
    length (wp_workers (ws_pool s')) = length (wp_workers (ws_pool s))"
proof (intro exI conjI)
  let ?s = "s\<lparr>ws_pool := worker_stop i (ws_pool s)\<rparr>"
  show "warm_steps env (s, pc, hist) (?s, pc(i := WkStopped), hist)"
    by (rule r_into_rtranclp, rule ws_leave) (rule assms)+
  show "wp_stopped (ws_pool ?s)" "length (wp_workers (ws_pool ?s)) = length (wp_workers (ws_pool s))"
    using assms(2) by (simp_all add: worker_stop_def)
qed

lemma done_leaves:
  assumes "i < length (wp_workers (ws_pool s))" "wp_stopped (ws_pool s)" "pc i = WkDone"
  shows "\<exists>s'. warm_steps env (s, pc, hist) (s', pc(i := WkStopped), hist) \<and> wp_stopped (ws_pool s') \<and>
    length (wp_workers (ws_pool s')) = length (wp_workers (ws_pool s))"
proof -
  let ?s = "s\<lparr>ws_pool := worker_finish i (ws_pool s)\<rparr>"
  have 1: "warm_step env (s, pc, hist) (?s, pc(i := WkIdle), hist)" using assms(1,3) by (rule ws_finish)
  obtain s' where 2: "warm_steps env (?s, pc(i := WkIdle), hist) (s', pc(i := WkStopped), hist)"
    "wp_stopped (ws_pool s')" "length (wp_workers (ws_pool s')) = length (wp_workers (ws_pool s))"
    using idle_leaves [of i ?s "pc(i := WkIdle)" env hist] assms(1,2) by (auto simp: worker_finish_def)
  from step_trans [OF 1 2(1)] 2(2,3) show ?thesis by blast
qed

lemma worker_leaves:
  assumes "i < length (wp_workers (ws_pool s))" "wp_stopped (ws_pool s)"
  shows "\<exists>s' hist'. warm_steps env (s, pc, hist) (s', pc(i := WkStopped), hist') \<and> wp_stopped (ws_pool s') \<and>
    length (wp_workers (ws_pool s')) = length (wp_workers (ws_pool s))"
proof (cases "pc i")
  case WkIdle
  with idle_leaves [OF assms] show ?thesis by blast
next
  case WkDone
  with done_leaves [OF assms] show ?thesis by blast
next
  case (WkTry task k)
  from attempts_end [of pc i, OF this] obtain s1 h1
    where s1: "warm_steps env (s, pc, hist) (s1, pc(i := WkDone), h1)" "ws_pool s1 = ws_pool s" by blast
  with done_leaves [of i s1 "pc(i := WkDone)" env h1] assms obtain s'
    where "warm_steps env (s1, pc(i := WkDone), h1) (s', pc(i := WkStopped), h1)" "wp_stopped (ws_pool s')"
      "length (wp_workers (ws_pool s')) = length (wp_workers (ws_pool s))" by auto
  with rtranclp_trans [OF s1(1) this(1)] show ?thesis by blast
next
  case WkStopped
  then have "pc(i := WkStopped) = pc" by auto
  with assms(2) show ?thesis by (intro exI [of _ s] exI [of _ hist]) simp
qed

lemma workers_leave:
  assumes "n \<le> length (wp_workers (ws_pool s))" "wp_stopped (ws_pool s)"
  shows "\<exists>s' pc' hist'. warm_steps env (s, pc, hist) (s', pc', hist') \<and> wp_stopped (ws_pool s') \<and>
    length (wp_workers (ws_pool s')) = length (wp_workers (ws_pool s)) \<and> (\<forall>i < n. pc' i = WkStopped)"
  using assms(1)
proof (induction n)
  case 0
  with assms(2) show ?case by blast
next
  case (Suc n)
  then obtain s1 pc1 h1 where 1: "warm_steps env (s, pc, hist) (s1, pc1, h1)" "wp_stopped (ws_pool s1)"
    "length (wp_workers (ws_pool s1)) = length (wp_workers (ws_pool s))" "\<forall>i < n. pc1 i = WkStopped" by auto
  obtain s' h' where 2: "warm_steps env (s1, pc1, h1) (s', pc1(n := WkStopped), h')"
    "wp_stopped (ws_pool s')" "length (wp_workers (ws_pool s')) = length (wp_workers (ws_pool s1))"
    using worker_leaves [of n s1 env pc1 h1] 1 Suc.prems by auto
  have "\<forall>i < Suc n. (pc1(n := WkStopped)) i = WkStopped" using 1(4) by (simp add: less_Suc_eq)
  with rtranclp_trans [OF 1(1) 2(1)] 2(2,3) 1(3) show ?case by metis
qed

section \<open>After the workers\<close>

definition all_left :: "'w warm_state \<Rightarrow> bool" where
  "all_left x \<longleftrightarrow> (\<forall>i < length (wp_workers (ws_pool (fst x))). fst (snd x) i = WkStopped)"

lemma all_left_none:
  assumes "pool_sound (ws_pool s) pc" "all_left (s, pc, hist)"
  shows "pc i \<noteq> WkTry task k" "i < length (wp_workers (ws_pool s)) \<Longrightarrow> pc i = WkStopped"
  using assms by (cases "i < length (wp_workers (ws_pool s))"; simp add: all_left_def pool_sound_def)+

lemma queues_only_extends:
  "queues_only p p' \<Longrightarrow> wp_workers p' = wp_workers p \<and> (\<exists>ts. wp_queue p' = wp_queue p @ ts)"
  by (auto simp: queues_only_def queue_tasks_room)

lemmas requests_extend = request_pools [THEN queues_only_extends] cron_pools [THEN queues_only_extends]

text \<open>What a step is then: a request or an end, which adds to the queue at most.\<close>

definition only_queued :: "'w warm_state \<Rightarrow> 'w warm_state \<Rightarrow> bool" where
  "only_queued x y \<longleftrightarrow> exec_view (fst y) = exec_view (fst x) \<and> snd y = snd x \<and>
     wp_workers (ws_pool (fst y)) = wp_workers (ws_pool (fst x)) \<and>
     (\<exists>ts. wp_queue (ws_pool (fst y)) = wp_queue (ws_pool (fst x)) @ ts)"

lemma only_queued_refl: "only_queued x x"
  by (simp add: only_queued_def)

lemma only_queued_trans: "only_queued x y \<Longrightarrow> only_queued y z \<Longrightarrow> only_queued x z"
  by (auto simp: only_queued_def)

lemma only_queued_left: "only_queued x y \<Longrightarrow> all_left x \<Longrightarrow> all_left y"
  by (simp add: only_queued_def all_left_def)

lemma shutdown_extends: "warm_shutdown s = Inr s' \<Longrightarrow>
    wp_workers (ws_pool s') = wp_workers (ws_pool s) \<and> wp_queue (ws_pool s') = wp_queue (ws_pool s)"
  by (auto simp: warm_shutdown_def wp_shutdown_def Let_def split: if_splits)

lemma left_step:
  assumes "warm_step env (s, pc, hist) y" "pool_sound (ws_pool s) pc" "all_left (s, pc, hist)"
  shows "only_queued (s, pc, hist) y"
  using assms(1) all_left_none [OF assms(2,3)]
  by (cases rule: warm_step.cases)
    (simp_all add: only_queued_def requests_extend shutdown_view shutdown_extends)

lemma left_steps:
  assumes "warm_steps env x y" "pool_sound (ws_pool (fst x)) (fst (snd x))" "all_left x"
  shows "only_queued x y"
  using assms
proof (induction rule: rtranclp_induct)
  case (step y z)
  obtain s pc hist where y: "y = (s, pc, hist)" by (cases y) auto
  from step have xy: "only_queued x y" by blast
  have "pool_sound (ws_pool s) pc" using pool_sound_steps [OF step.hyps(1) step.prems(1)] y by simp
  from left_step [OF step.hyps(2) [unfolded y] this] only_queued_left [OF xy step.prems(2)] y
  have "only_queued y z" by simp
  with xy show ?case by (rule only_queued_trans)
qed (rule only_queued_refl)


text \<open>What a request to warm keys queues, when it is answered.\<close>

lemma warm_key_queued:
  assumes "warm_key clock s req = (s', Returned r)"
  shows "wkp_success r"
    and "wkp_queued r = int (min (length (wkr_keys req)) (queue_capacity - length (wp_queue (ws_pool s))))"
    and "wp_queue (ws_pool s') = wp_queue (ws_pool s) @ take (nat (wkp_queued r)) (key_tasks (ws_cfg s) req)"
proof -
  let ?room = "queue_capacity - length (wp_queue (ws_pool s))"
  have len: "length (key_tasks (ws_cfg s) req) = length (wkr_keys req)" by (simp add: key_tasks_def Let_def)
  show "wkp_success r" and n: "wkp_queued r = int (min (length (wkr_keys req)) ?room)"
    using assms len
    by (auto simp: warm_key_def queue_and_estimate_def queue_tasks_room Let_def split: if_splits)
  have "wp_queue (ws_pool s') = wp_queue (ws_pool s) @ take ?room (key_tasks (ws_cfg s) req)"
    using assms by (auto simp: warm_key_def queue_and_estimate_def queue_tasks_room Let_def split: if_splits)
  then show "wp_queue (ws_pool s') = wp_queue (ws_pool s) @ take (nat (wkp_queued r)) (key_tasks (ws_cfg s) req)"
    using n len by (simp add: min_def)
qed

section \<open>A pool that is shut down while idle\<close>

definition leave_first :: "nat \<Rightarrow> worker_pool \<Rightarrow> worker_pool" where
  "leave_first n p = fold worker_stop [0..<n] p"

lemma leave_first_simps:
  "leave_first 0 p = p" "leave_first (Suc n) p = worker_stop n (leave_first n p)"
  by (simp_all add: leave_first_def)

lemma leave_first_others:
  "wp_queue (leave_first n p) = wp_queue p \<and> length (wp_workers (leave_first n p)) = length (wp_workers p) \<and>
   wp_stopped (leave_first n p) = wp_stopped p"
  by (induction n) (simp_all add: leave_first_simps worker_stop_def)

lemma idle_pool_leaves:
  assumes "wp_stopped (ws_pool s)" "n \<le> length (wp_workers (ws_pool s))"
  shows "warm_steps env (s, \<lambda>_. WkIdle, hist)
    (s\<lparr>ws_pool := leave_first n (ws_pool s)\<rparr>, \<lambda>i. if i < n then WkStopped else WkIdle, hist)"
  using assms(2)
proof (induction n)
  case (Suc n)
  let ?s = "s\<lparr>ws_pool := leave_first n (ws_pool s)\<rparr>" and ?pc = "\<lambda>i. if i < n then WkStopped else WkIdle"
  have "warm_step env (?s, ?pc, hist) (?s\<lparr>ws_pool := worker_stop n (ws_pool ?s)\<rparr>, ?pc(n := WkStopped), hist)"
    using Suc.prems assms(1) leave_first_others [of n "ws_pool s"] by (intro ws_leave) simp_all
  moreover have "?pc(n := WkStopped) = (\<lambda>i. if i < Suc n then WkStopped else WkIdle)" by auto
  ultimately show ?case using Suc by (simp add: leave_first_simps)
qed (simp add: leave_first_simps)

definition demo_late_request :: warm_key_request where
  "demo_late_request = \<lparr>wkr_keys = [''k''], wkr_priority = 50, wkr_strategy = ''selective''\<rparr>"

definition demo_closed :: "'w \<Rightarrow> 'w warm_service" where
  "demo_closed w = projr (warm_shutdown (fst (warm_start w)))"

definition demo_left :: "'w \<Rightarrow> 'w warm_service" where
  "demo_left w = demo_closed w\<lparr>ws_pool := leave_first 10 (ws_pool (demo_closed w))\<rparr>"

abbreviation demo_pcs :: "nat \<Rightarrow> wk_pc" where
  "demo_pcs \<equiv> \<lambda>i. if i < 10 then WkStopped else WkIdle"

lemmas warm_start_defs = warm_shutdown_def wp_shutdown_def warm_start_def warm_init_def new_worker_pool_def
  warm_default_config_def

lemma demo_closed_pool:
  "wp_stopped (ws_pool (demo_closed w))" "length (wp_workers (ws_pool (demo_closed w))) = 10"
  "wp_queue (ws_pool (demo_closed w)) = []"
  by (simp_all add: demo_closed_def warm_start_defs)

lemma demo_closed_reached: "warm_step env (warm_start w) (demo_closed w, \<lambda>_. WkIdle, [])"
proof -
  have "warm_shutdown (fst (warm_start w)) = Inr (demo_closed w)" by (simp add: demo_closed_def warm_start_defs)
  from ws_shutdown [OF this, of env "\<lambda>_. WkIdle" "[]"] show ?thesis by (simp add: warm_start_def)
qed

lemma demo_left_queue: "wp_queue (ws_pool (demo_left w)) = []"
  by (simp add: demo_left_def leave_first_others demo_closed_pool)

lemma demo_left_reached: "warm_steps env (warm_start w) (demo_left w, demo_pcs, [])"
proof (rule step_trans)
  show "warm_step env (warm_start w) (demo_closed w, \<lambda>_. WkIdle, [])" by (rule demo_closed_reached)
  show "warm_steps env (demo_closed w, \<lambda>_. WkIdle, []) (demo_left w, demo_pcs, [])"
    using idle_pool_leaves [of "demo_closed w" 10 env "[]"] demo_closed_pool [of w] by (simp add: demo_left_def)
qed

lemma demo_left_all: "all_left (demo_left w, demo_pcs, [])"
  by (simp add: all_left_def demo_left_def leave_first_others demo_closed_pool)

lemma demo_late_returns: "\<exists>r. snd (warm_key clock (demo_left w) demo_late_request) = Returned r"
  by (simp add: warm_key_def demo_left_def demo_closed_def demo_late_request_def queue_and_estimate_def Let_def
      case_prod_beta warm_start_defs)

section \<open>Properties\<close>

text \<open>
  Property C27.  The pool's \<open>Shutdown\<close> can always return: from every reachable state in which its channel has
  been closed, whatever the queue, the origin and the attempts under way, there is a continuation in which
  every worker has left, so the wait group is empty.
\<close>

theorem pool_shutdown_returns:
  assumes "warm_steps env (warm_start w) x" "wp_stopped (ws_pool (fst x))"
  shows "\<exists>y. warm_steps env x y \<and> all_left y"
proof -
  obtain s pc hist where x: "x = (s, pc, hist)" by (cases x) auto
  from workers_leave [of "length (wp_workers (ws_pool s))" s env pc hist] assms(2)
  obtain s' pc' hist' where "warm_steps env (s, pc, hist) (s', pc', hist')"
    "length (wp_workers (ws_pool s')) = length (wp_workers (ws_pool s))"
    "\<forall>i < length (wp_workers (ws_pool s)). pc' i = WkStopped" by (auto simp: x)
  then show ?thesis unfolding x by (intro exI [of _ "(s', pc', hist')"]) (simp add: all_left_def)
qed

theorem pool_shutdown_returns_witness:
  "\<exists>x y. warm_steps happy_env (warm_start 0) x \<and> wp_stopped (ws_pool (fst x)) \<and> warm_steps happy_env x y \<and> all_left y"
proof -
  let ?x = "(demo_closed 0, (\<lambda>_. WkIdle) :: nat \<Rightarrow> wk_pc, [] :: (string \<times> go_error option) list)"
  have x: "warm_steps happy_env (warm_start 0) ?x" "wp_stopped (ws_pool (fst ?x))"
    by (simp_all add: demo_closed_pool r_into_rtranclp [of "warm_step happy_env", OF demo_closed_reached])
  from pool_shutdown_returns [OF this] x show ?thesis by blast
qed

text \<open>
  Property C28.  After the pool has been shut down the service still accepts what it will never do: a request
  to warm keys is answered with success and the number of queued tasks, but those tasks stay in the queue
  in every continuation, nothing is executed, and no counter of executions and no event changes.
\<close>

theorem accepted_after_shutdown:
  assumes "warm_steps env (warm_start w) (s, pc, hist)" "all_left (s, pc, hist)"
    and "warm_key clock s req = (s', Returned r)" "warm_steps env (s', pc, hist) y"
  shows "wkp_success r \<and>
    wkp_queued r = int (min (length (wkr_keys req)) (queue_capacity - length (wp_queue (ws_pool s)))) \<and>
    set (take (nat (wkp_queued r)) (key_tasks (ws_cfg s) req)) \<subseteq> set (wp_queue (ws_pool (fst y))) \<and>
    exec_view (fst y) = exec_view s \<and> snd y = (pc, hist)"
proof -
  note queued = warm_key_queued [OF assms(3)]
  have step: "warm_step env (s, pc, hist) (s', pc, hist)"
    using ws_warm_key [of env s pc hist clock req] assms(3) by simp
  have sound: "pool_sound (ws_pool s) pc" using pool_sound_steps [OF assms(1) warm_start_sound] by simp
  from left_step [OF step sound assms(2)] have 1: "only_queued (s, pc, hist) (s', pc, hist)" .
  have "pool_sound (ws_pool s') pc" using pool_sound_step [OF step] sound by simp
  from left_steps [OF assms(4)] this only_queued_left [OF 1 assms(2)]
  have 2: "only_queued (s', pc, hist) y" by simp
  with queued(3) have "set (take (nat (wkp_queued r)) (key_tasks (ws_cfg s) req)) \<subseteq> set (wp_queue (ws_pool (fst y)))"
    by (auto simp: only_queued_def)
  with queued only_queued_trans [OF 1 2] show ?thesis by (simp add: only_queued_def)
qed

theorem accepted_after_shutdown_witness:
  "\<exists>s pc r. warm_steps happy_env (warm_start 0) (s, pc, []) \<and> all_left (s, pc, []) \<and>
     snd (warm_key (\<lambda>_. 0) s demo_late_request) = Returned r \<and> wkp_success r \<and> wkp_queued r = 1"
proof -
  let ?w = "warm_key (\<lambda>_. 0) (demo_left (0 :: nat)) demo_late_request"
  obtain r where r: "snd ?w = Returned r" using demo_late_returns [of "\<lambda>_. 0" 0] by blast
  then have "?w = (fst ?w, Returned r)" by (simp add: prod_eq_iff)
  from accepted_after_shutdown [OF demo_left_reached demo_left_all this rtranclp.rtrancl_refl [of "warm_step happy_env"]]
  have "wkp_success r \<and> wkp_queued r = 1"
    by (simp add: demo_late_request_def demo_left_queue queue_capacity_def)
  with r demo_left_reached [of happy_env 0] demo_left_all [of "0 :: nat"] show ?thesis by blast
qed

end
