(* ===== verification/Lifecycle.thy ===== *)
theory Lifecycle
  imports CacheManager MonRuns
begin

text \<open>
  The background goroutines and their end: the loops \<open>runTTLCleanup\<close> (\<open>cache-manager/service.go\<close>),
  \<open>Aggregator.Run\<close> (\<open>monitoring/aggregator.go\<close>) and \<open>AlertManager.Run\<close> (\<open>monitoring/alerts.go\<close>), the
  functions \<open>Stop\<close> and \<open>Shutdown\<close> that close their channels and wait for them, and the processes in which
  they run beside the handlers of events and requests.
\<close>

section \<open>Loops over a ticker\<close>

text \<open>A goroutine that has been created, one that is at its \<open>select\<close>, one that has returned.\<close>

datatype loop_pc = LpSpawned | LpSelect | LpEnded

text \<open>A goroutine only advances: the stages are ordered, and having returned is the last.\<close>

instantiation loop_pc :: "{linorder, order_top}"
begin

fun stage :: "loop_pc \<Rightarrow> nat" where
  "stage LpSpawned = 0"
| "stage LpSelect = 1"
| "stage LpEnded = 2"

definition less_eq_loop_pc :: "loop_pc \<Rightarrow> loop_pc \<Rightarrow> bool" where
  "less_eq_loop_pc a b \<longleftrightarrow> stage a \<le> stage b"

definition less_loop_pc :: "loop_pc \<Rightarrow> loop_pc \<Rightarrow> bool" where
  "less_loop_pc a b \<longleftrightarrow> stage a < stage b"

definition top_loop_pc :: loop_pc where
  "top_loop_pc = LpEnded"

lemma stage_inject: "stage a = stage b \<longleftrightarrow> a = b"
  by (cases a; cases b) simp_all

instance
proof
  fix a :: loop_pc
  show "a \<le> top" by (cases a) (simp_all add: less_eq_loop_pc_def top_loop_pc_def)
qed (auto simp: less_eq_loop_pc_def less_loop_pc_def stage_inject [symmetric])

end

text \<open>When both channels are ready, \<open>select\<close> takes either, so a tick is possible after the channel has been
  closed.\<close>

inductive loop_step ::
    "('c \<Rightarrow> 's \<Rightarrow> 's) \<Rightarrow> ('s \<Rightarrow> bool) \<Rightarrow> loop_pc \<times> 's \<Rightarrow> loop_pc \<times> 's \<Rightarrow> bool"
  for tick is_closed where
  lp_start: "loop_step tick is_closed (LpSpawned, s) (LpSelect, s)"
| lp_tick: "loop_step tick is_closed (LpSelect, s) (LpSelect, tick c s)"
| lp_leave: "is_closed s \<Longrightarrow> loop_step tick is_closed (LpSelect, s) (LpEnded, s)"

inductive_cases loop_stepE: "loop_step tick is_closed (pc, s) (pc', s')"

inductive_simps ended_loop [simp]: "loop_step tick is_closed (LpEnded, s) x"

lemma loop_advances: "loop_step tick is_closed (pc, s) (pc', s') \<Longrightarrow> pc \<le> pc'"
  by (erule loop_stepE) (simp_all add: less_eq_loop_pc_def)

lemma ended_top: "LpEnded = top"
  by (simp add: top_loop_pc_def)

text \<open>The contract of such a loop: its work leaves the channel alone, and closing the channel closes it.\<close>

locale background_loop =
  fixes tick :: "'c \<Rightarrow> 's \<Rightarrow> 's"
    and is_closed :: "'s \<Rightarrow> bool"
    and close_channel :: "'s \<Rightarrow> 's"
  assumes tick_keeps: "is_closed (tick c s) = is_closed s"
    and close_closes: "is_closed (close_channel s)"
begin

lemma step_keeps: "loop_step tick is_closed (pc, s) (pc', s') \<Longrightarrow> is_closed s' = is_closed s"
  by (erule loop_stepE) (simp_all add: tick_keeps)

lemma never_restarts: "loop_step tick is_closed (pc, s) (pc', s') \<Longrightarrow> pc' \<noteq> LpSpawned"
  by (erule loop_stepE) simp_all

text \<open>A loop whose channel is closed can end without further work.\<close>

lemma can_end: "is_closed s \<Longrightarrow> (loop_step tick is_closed)\<^sup>*\<^sup>* (pc, s) (LpEnded, s)"
proof (cases pc)
  case LpSpawned
  assume "is_closed s"
  have "loop_step tick is_closed (LpSpawned, s) (LpSelect, s)" by (rule lp_start)
  moreover have "loop_step tick is_closed (LpSelect, s) (LpEnded, s)" using \<open>is_closed s\<close> by (rule lp_leave)
  ultimately show ?thesis using LpSpawned by (blast intro: rtranclp_trans r_into_rtranclp)
qed (auto intro: lp_leave)

lemma ends_after_close: "(loop_step tick is_closed)\<^sup>*\<^sup>* (pc, close_channel s) (LpEnded, close_channel s)"
  by (rule can_end) (rule close_closes)

end

section \<open>The monitoring process\<close>

definition aggregator_closed :: "mon_service \<Rightarrow> bool" where
  "aggregator_closed s = ag_stopped (mo_aggregator s)"

definition alerts_closed :: "mon_service \<Rightarrow> bool" where
  "alerts_closed s = am_stopped (mo_alerts s)"

definition close_aggregator :: "mon_service \<Rightarrow> mon_service" where
  "close_aggregator s = s\<lparr>mo_aggregator := (mo_aggregator s)\<lparr>ag_stopped := True\<rparr>\<rparr>"

definition close_alerts :: "mon_service \<Rightarrow> mon_service" where
  "close_alerts s = s\<lparr>mo_alerts := (mo_alerts s)\<lparr>am_stopped := True\<rparr>\<rparr>"

text \<open>A call of \<open>Shutdown\<close>: it closes the channel of the aggregator, waits for its goroutine, then does the
  same with the alert manager.\<close>

datatype shutdown_pc = SdCall | SdJoinAggregator | SdCloseAlerts | SdJoinAlerts | SdReturned

text \<open>The two goroutines add themselves to their wait groups when they start, so waiting returns as long as
  they have not.\<close>

definition group_idle :: "loop_pc \<Rightarrow> bool" where
  "group_idle pc \<longleftrightarrow> pc \<noteq> LpSelect"

record mon_process =
  mp_service :: mon_service
  mp_aggregator :: loop_pc
  mp_alerts :: loop_pc
  mp_callers :: "nat \<Rightarrow> shutdown_pc"
  mp_panicked :: bool

definition mp_start :: "time \<Rightarrow> mon_process" where
  "mp_start now = \<lparr>mp_service = mon_init now, mp_aggregator = LpSpawned, mp_alerts = LpSpawned,
     mp_callers = (\<lambda>_. SdCall), mp_panicked = False\<rparr>"

definition is_event :: "mon_op \<Rightarrow> bool" where
  "is_event a \<longleftrightarrow> a \<noteq> AggregatorTick \<and> a \<noteq> AlertTick"

text \<open>Where caller \<open>i\<close> is next.\<close>

definition caller_to :: "nat \<Rightarrow> shutdown_pc \<Rightarrow> mon_process \<Rightarrow> mon_process" where
  "caller_to i pc p = p\<lparr>mp_callers := (mp_callers p)(i := pc)\<rparr>"

text \<open>A panic ends the process.\<close>

inductive mp_step :: "mon_process \<Rightarrow> mon_process \<Rightarrow> bool" where
  mp_event: "\<not> mp_panicked p \<Longrightarrow> is_event a \<Longrightarrow>
    mp_step p (p\<lparr>mp_service := mon_apply clock a (mp_service p)\<rparr>)"
| mp_aggregator_loop: "\<not> mp_panicked p \<Longrightarrow>
    loop_step mon_aggregate aggregator_closed (mp_aggregator p, mp_service p) (pc, s) \<Longrightarrow>
    mp_step p (p\<lparr>mp_aggregator := pc, mp_service := s\<rparr>)"
| mp_alerts_loop: "\<not> mp_panicked p \<Longrightarrow>
    loop_step mon_evaluate alerts_closed (mp_alerts p, mp_service p) (pc, s) \<Longrightarrow>
    mp_step p (p\<lparr>mp_alerts := pc, mp_service := s\<rparr>)"
| mp_close_aggregator: "\<not> mp_panicked p \<Longrightarrow> mp_callers p i = SdCall \<Longrightarrow> \<not> aggregator_closed (mp_service p) \<Longrightarrow>
    mp_step p (caller_to i SdJoinAggregator (p\<lparr>mp_service := close_aggregator (mp_service p)\<rparr>))"
| mp_join_aggregator: "\<not> mp_panicked p \<Longrightarrow> mp_callers p i = SdJoinAggregator \<Longrightarrow> group_idle (mp_aggregator p) \<Longrightarrow>
    mp_step p (caller_to i SdCloseAlerts p)"
| mp_close_alerts: "\<not> mp_panicked p \<Longrightarrow> mp_callers p i = SdCloseAlerts \<Longrightarrow> \<not> alerts_closed (mp_service p) \<Longrightarrow>
    mp_step p (caller_to i SdJoinAlerts (p\<lparr>mp_service := close_alerts (mp_service p)\<rparr>))"
| mp_join_alerts: "\<not> mp_panicked p \<Longrightarrow> mp_callers p i = SdJoinAlerts \<Longrightarrow> group_idle (mp_alerts p) \<Longrightarrow>
    mp_step p (caller_to i SdReturned p)"
| mp_panic: "\<not> mp_panicked p \<Longrightarrow> mp_callers p i = SdCall \<and> aggregator_closed (mp_service p) \<or>
      mp_callers p i = SdCloseAlerts \<and> alerts_closed (mp_service p) \<Longrightarrow>
    mp_step p (p\<lparr>mp_panicked := True\<rparr>)"

abbreviation mp_steps :: "mon_process \<Rightarrow> mon_process \<Rightarrow> bool" where
  "mp_steps \<equiv> mp_step\<^sup>*\<^sup>*"

section \<open>The process implements the sequential runs\<close>

text \<open>The service with both channels open, as the sequential runs have it.\<close>

definition channels_open :: "mon_service \<Rightarrow> mon_service" where
  "channels_open s = s\<lparr>mo_aggregator := (mo_aggregator s)\<lparr>ag_stopped := False\<rparr>,
     mo_alerts := (mo_alerts s)\<lparr>am_stopped := False\<rparr>\<rparr>"

lemma trigger_stopped: "trigger_alert now a (am\<lparr>am_stopped := b\<rparr>) = trigger_alert now a am\<lparr>am_stopped := b\<rparr>"
  by (simp add: trigger_alert_def split: option.split)

lemma resolve_stopped: "resolve_alert now k (am\<lparr>am_stopped := b\<rparr>) = resolve_alert now k am\<lparr>am_stopped := b\<rparr>"
  by (simp add: resolve_alert_def Let_def split: option.split)

lemma loop_stopped:
  "evaluate_loop ident eval clock i st rs (am\<lparr>am_stopped := b\<rparr>) =
     (fst (evaluate_loop ident eval clock i st rs am)\<lparr>am_stopped := b\<rparr>,
      snd (evaluate_loop ident eval clock i st rs am))"
proof (induction rs arbitrary: i am)
  case (Cons r rs)
  show ?case
    by (cases "snd (eval r st)") (simp_all add: Let_def case_prod_beta trigger_stopped resolve_stopped Cons.IH)
qed simp

lemma evaluate_stopped: "evaluate_rules clock st (am\<lparr>am_stopped := b\<rparr>) = evaluate_rules clock st am\<lparr>am_stopped := b\<rparr>"
  by (simp add: evaluate_rules_def Let_def case_prod_beta loop_stopped)

lemma evaluate_keeps_stopped [simp]: "am_stopped (evaluate_rules clock st am) = am_stopped am"
  using arg_cong [OF evaluate_stopped [of clock st "am_stopped am" am], of am_stopped] by simp

lemma aggregate_keeps_stopped [simp]: "ag_stopped (ag_aggregate clock c l a) = ag_stopped a"
  by (simp add: ag_aggregate_def Let_def)

lemma aggregate_stopped: "ag_aggregate clock c l (a\<lparr>ag_stopped := b\<rparr>) = ag_aggregate clock c l a\<lparr>ag_stopped := b\<rparr>"
  by (simp add: ag_aggregate_def Let_def)

interpretation aggregator_loop: background_loop mon_aggregate aggregator_closed close_aggregator
  by unfold_locales (simp_all add: aggregator_closed_def close_aggregator_def mon_aggregate_def split: option.split)

interpretation alerts_loop: background_loop mon_evaluate alerts_closed close_alerts
  by unfold_locales (simp_all add: alerts_closed_def close_alerts_def mon_evaluate_def)

interpretation cleanup_loop: background_loop cm_cleanup_tick cm_stopped cm_shutdown
  by unfold_locales (simp_all add: cm_cleanup_tick_def cm_shutdown_def case_prod_beta)


lemma apply_open: "mon_apply clock a (channels_open s) = channels_open (mon_apply clock a s)"
proof (cases a)
  case AggregatorTick
  then show ?thesis
    by (simp add: channels_open_def mon_aggregate_def aggregate_stopped split: option.split)
next
  case AlertTick
  then show ?thesis by (simp add: channels_open_def mon_evaluate_def evaluate_stopped)
qed (simp_all add: channels_open_def handle_cache_metric_def handle_warm_completed_def handle_inval_metric_def
    record_into_def Let_def)

lemma open_close [simp]:
  "channels_open (close_aggregator s) = channels_open s" "channels_open (close_alerts s) = channels_open s"
  by (simp_all add: channels_open_def close_aggregator_def close_alerts_def)

lemma caller_to_simps [simp]:
  "mp_service (caller_to i pc p) = mp_service p" "mp_aggregator (caller_to i pc p) = mp_aggregator p"
  "mp_alerts (caller_to i pc p) = mp_alerts p" "mp_callers (caller_to i pc p) = (mp_callers p)(i := pc)"
  "mp_panicked (caller_to i pc p) = mp_panicked p"
  by (simp_all add: caller_to_def)

text \<open>Each step is one operation of a sequential run, or none.\<close>

lemma step_simulated:
  assumes "mp_step p q"
  obtains "channels_open (mp_service q) = channels_open (mp_service p)"
    | clock a where "channels_open (mp_service q) = mon_apply clock a (channels_open (mp_service p))"
  using assms
proof cases
  case (mp_event a clock)
  then show ?thesis using that(2) [of clock a] by (simp add: apply_open)
next
  case (mp_aggregator_loop pc s)
  from mp_aggregator_loop(3) show ?thesis
  proof cases
    case (lp_tick c)
    then show ?thesis using that(2) [of c AggregatorTick] mp_aggregator_loop apply_open [of c AggregatorTick] by simp
  qed (use that(1) mp_aggregator_loop in auto)
next
  case (mp_alerts_loop pc s)
  from mp_alerts_loop(3) show ?thesis
  proof cases
    case (lp_tick c)
    then show ?thesis using that(2) [of c AlertTick] mp_alerts_loop apply_open [of c AlertTick] by simp
  qed (use that(1) mp_alerts_loop in auto)
qed (use that(1) in auto)

lemma open_start: "channels_open (mp_service (mp_start now)) = mon_run now []"
  by (simp add: channels_open_def mp_start_def mon_init_def new_aggregator_def new_alert_manager_def)

section \<open>Callers\<close>

text \<open>Only one call gets past the first channel, and the channels are closed exactly when it has done so.\<close>

definition callers_sound :: "mon_process \<Rightarrow> bool" where
  "callers_sound p \<longleftrightarrow> (\<exists>i pc. mp_callers p = (\<lambda>_. SdCall)(i := pc) \<and>
     aggregator_closed (mp_service p) = (pc \<noteq> SdCall) \<and>
     alerts_closed (mp_service p) = (pc \<in> {SdJoinAlerts, SdReturned}))"

lemma callers_soundI:
  "mp_callers p = (\<lambda>_. SdCall)(i := pc) \<Longrightarrow> aggregator_closed (mp_service p) = (pc \<noteq> SdCall) \<Longrightarrow>
   alerts_closed (mp_service p) = (pc \<in> {SdJoinAlerts, SdReturned}) \<Longrightarrow> callers_sound p"
  unfolding callers_sound_def by blast

text \<open>The one caller that has got anywhere.\<close>

lemma callers_soundD:
  assumes "callers_sound p" "mp_callers p i \<noteq> SdCall"
  shows "mp_callers p = (\<lambda>_. SdCall)(i := mp_callers p i)" "aggregator_closed (mp_service p)"
    "alerts_closed (mp_service p) = (mp_callers p i \<in> {SdJoinAlerts, SdReturned})"
  using assms by (auto simp: callers_sound_def fun_eq_iff split: if_splits)

lemma callers_none:
  assumes "callers_sound p" "\<not> aggregator_closed (mp_service p)"
  shows "mp_callers p = (\<lambda>_. SdCall)" "\<not> alerts_closed (mp_service p)"
  using assms by (auto simp: callers_sound_def)

lemma event_keeps_closed:
  assumes "is_event a"
  shows "aggregator_closed (mon_apply clock a s) = aggregator_closed s"
    "alerts_closed (mon_apply clock a s) = alerts_closed s"
    "mo_aggregator (mon_apply clock a s) = mo_aggregator s" "mo_alerts (mon_apply clock a s) = mo_alerts s"
  using assms
  by (cases a; simp add: is_event_def aggregator_closed_def alerts_closed_def handle_cache_metric_def
      handle_warm_completed_def handle_inval_metric_def record_into_def Let_def)+

lemma loops_keep_closed:
  "aggregator_closed (mon_evaluate clock s) = aggregator_closed s" "alerts_closed (mon_aggregate clock s) = alerts_closed s"
  by (simp_all add: aggregator_closed_def alerts_closed_def mon_evaluate_def mon_aggregate_def split: option.split)

lemma closing [simp]:
  "aggregator_closed (close_alerts s) = aggregator_closed s" "alerts_closed (close_aggregator s) = alerts_closed s"
  by (simp_all add: aggregator_closed_def alerts_closed_def close_alerts_def close_aggregator_def)

lemma loop_step_closed:
  "loop_step mon_aggregate aggregator_closed (pc, s) (pc', s') \<Longrightarrow>
     aggregator_closed s' = aggregator_closed s \<and> alerts_closed s' = alerts_closed s"
  "loop_step mon_evaluate alerts_closed (pc, s) (pc', s') \<Longrightarrow>
     aggregator_closed s' = aggregator_closed s \<and> alerts_closed s' = alerts_closed s"
  by (auto simp: aggregator_loop.step_keeps alerts_loop.step_keeps loops_keep_closed elim: loop_stepE)

lemma caller_moves:
  assumes "callers_sound p" "mp_callers p i \<noteq> SdCall"
  shows "mp_callers (caller_to i pc (p\<lparr>mp_service := s\<rparr>)) = (\<lambda>_. SdCall)(i := pc)"
    "mp_callers (caller_to i pc p) = (\<lambda>_. SdCall)(i := pc)"
  using arg_cong [OF callers_soundD(1) [OF assms], of "\<lambda>f. f(i := pc)"] by simp_all

lemma callers_sound_step:
  assumes "mp_step p q" "callers_sound p"
  shows "callers_sound q"
  using assms(1)
proof cases
  case (mp_close_aggregator i)
  with callers_none [OF assms(2)] show ?thesis
    by (intro callers_soundI [of _ i SdJoinAggregator]) (simp_all add: aggregator_loop.close_closes)
next
  case (mp_join_aggregator i)
  with callers_soundD [OF assms(2), of i] caller_moves(2) [OF assms(2), of i SdCloseAlerts] show ?thesis
    by (intro callers_soundI [of _ i SdCloseAlerts]) simp_all
next
  case (mp_close_alerts i)
  with callers_soundD [OF assms(2), of i] caller_moves(1) [OF assms(2), of i SdJoinAlerts] show ?thesis
    by (intro callers_soundI [of _ i SdJoinAlerts]) (simp_all add: alerts_loop.close_closes)
next
  case (mp_join_alerts i)
  with callers_soundD [OF assms(2), of i] caller_moves(2) [OF assms(2), of i SdReturned] show ?thesis
    by (intro callers_soundI [of _ i SdReturned]) simp_all
qed (use assms(2) loop_step_closed in \<open>auto simp: callers_sound_def event_keeps_closed\<close>)

lemma callers_sound_reach: "mp_steps (mp_start now) p \<Longrightarrow> callers_sound p"
proof (induction rule: rtranclp_induct)
  case base
  show ?case
    by (intro callers_soundI [of _ 0 SdCall])
      (simp_all add: mp_start_def mon_init_def aggregator_closed_def alerts_closed_def
        new_aggregator_def new_alert_manager_def fun_eq_iff)
qed (rule callers_sound_step)


section \<open>Ends\<close>

text \<open>What a loop can do by itself, the process can do.\<close>

lemma lift_aggregator:
  assumes "(loop_step mon_aggregate aggregator_closed)\<^sup>*\<^sup>* (mp_aggregator p, mp_service p) y" "\<not> mp_panicked p"
  shows "mp_steps p (p\<lparr>mp_aggregator := fst y, mp_service := snd y\<rparr>)"
  using assms(1)
proof (induction rule: rtranclp_induct)
  case (step y z)
  let ?q = "p\<lparr>mp_aggregator := fst y, mp_service := snd y\<rparr>"
  have "mp_step ?q (?q\<lparr>mp_aggregator := fst z, mp_service := snd z\<rparr>)"
    using assms(2) step.hyps(2) by (intro mp_aggregator_loop) simp_all
  with step.IH show ?case by simp
qed simp

lemma lift_alerts:
  assumes "(loop_step mon_evaluate alerts_closed)\<^sup>*\<^sup>* (mp_alerts p, mp_service p) y" "\<not> mp_panicked p"
  shows "mp_steps p (p\<lparr>mp_alerts := fst y, mp_service := snd y\<rparr>)"
  using assms(1)
proof (induction rule: rtranclp_induct)
  case (step y z)
  let ?q = "p\<lparr>mp_alerts := fst y, mp_service := snd y\<rparr>"
  have "mp_step ?q (?q\<lparr>mp_alerts := fst z, mp_service := snd z\<rparr>)"
    using assms(2) step.hyps(2) by (intro mp_alerts_loop) simp_all
  with step.IH show ?case by simp
qed simp

definition can_return :: "nat \<Rightarrow> mon_process \<Rightarrow> bool" where
  "can_return i p \<longleftrightarrow> (\<exists>q. mp_steps p q \<and> mp_callers q i = SdReturned)"

lemma can_return_steps: "mp_steps p q \<Longrightarrow> can_return i q \<Longrightarrow> can_return i p"
  unfolding can_return_def by (blast intro: rtranclp_trans)

lemma can_return_step: "mp_step p q \<Longrightarrow> can_return i q \<Longrightarrow> can_return i p"
  by (rule can_return_steps) (rule r_into_rtranclp)

lemma join_alerts_returns:
  assumes "\<not> mp_panicked p" "mp_callers p i = SdJoinAlerts" "alerts_closed (mp_service p)"
  shows "can_return i p"
proof (rule can_return_steps)
  let ?q = "p\<lparr>mp_alerts := LpEnded\<rparr>"
  show "mp_steps p ?q" using lift_alerts [OF alerts_loop.can_end [OF assms(3)] assms(1)] by simp
  have "mp_step ?q (caller_to i SdReturned ?q)"
    using assms by (intro mp_join_alerts) (simp_all add: group_idle_def)
  then show "can_return i ?q"
    by (rule can_return_step) (auto simp: can_return_def)
qed

lemma close_alerts_returns:
  assumes "\<not> mp_panicked p" "mp_callers p i = SdCloseAlerts" "\<not> alerts_closed (mp_service p)"
  shows "can_return i p"
  using mp_close_alerts [OF assms]
  by (rule can_return_step) (use assms in \<open>auto intro: join_alerts_returns simp: alerts_loop.close_closes\<close>)

lemma join_aggregator_returns:
  assumes "\<not> mp_panicked p" "mp_callers p i = SdJoinAggregator" "aggregator_closed (mp_service p)"
    and "\<not> alerts_closed (mp_service p)"
  shows "can_return i p"
proof (rule can_return_steps)
  let ?q = "p\<lparr>mp_aggregator := LpEnded\<rparr>"
  show "mp_steps p ?q" using lift_aggregator [OF aggregator_loop.can_end [OF assms(3)] assms(1)] by simp
  have "mp_step ?q (caller_to i SdCloseAlerts ?q)"
    using assms by (intro mp_join_aggregator) (simp_all add: group_idle_def)
  then show "can_return i ?q"
    by (rule can_return_step) (use assms in \<open>auto intro: close_alerts_returns\<close>)
qed

lemma call_returns:
  assumes "\<not> mp_panicked p" "mp_callers p i = SdCall" "\<not> aggregator_closed (mp_service p)"
    and "\<not> alerts_closed (mp_service p)"
  shows "can_return i p"
  using mp_close_aggregator [OF assms(1-3)]
  by (rule can_return_step) (use assms in \<open>auto intro: join_aggregator_returns simp: aggregator_loop.close_closes\<close>)

text \<open>When both loops had started before the call, its return means that both have ended.\<close>

definition quiet_sound :: "mon_process \<Rightarrow> bool" where
  "quiet_sound p \<longleftrightarrow> mp_aggregator p \<noteq> LpSpawned \<and> mp_alerts p \<noteq> LpSpawned \<and>
     (\<forall>i. mp_callers p i \<in> {SdCloseAlerts, SdJoinAlerts, SdReturned} \<longrightarrow> mp_aggregator p = LpEnded) \<and>
     (\<forall>i. mp_callers p i = SdReturned \<longrightarrow> mp_alerts p = LpEnded)"

lemma loop_progress:
  "loop_step tick is_closed (pc, s) (pc', s') \<Longrightarrow>
     pc' \<noteq> LpSpawned \<and> pc \<noteq> LpEnded \<and> (pc' = LpEnded \<longrightarrow> is_closed s)"
  by (erule loop_stepE) simp_all

lemma quiet_sound_step: "mp_step p q \<Longrightarrow> quiet_sound p \<Longrightarrow> quiet_sound q"
  by (cases rule: mp_step.cases, assumption)
    (auto simp: quiet_sound_def group_idle_def dest!: loop_progress split: if_splits, (metis loop_pc.exhaust)+)

lemma quiet_sound_steps: "mp_steps p q \<Longrightarrow> quiet_sound p \<Longrightarrow> quiet_sound q"
  by (induction rule: rtranclp_induct) (simp_all add: quiet_sound_step)

text \<open>After that nothing changes but the collector.\<close>

lemma ended_step:
  assumes "mp_step p q" "mp_aggregator p = LpEnded" "mp_alerts p = LpEnded" "aggregator_closed (mp_service p)"
    "alerts_closed (mp_service p)"
  shows "mp_aggregator q = LpEnded \<and> mp_alerts q = LpEnded \<and>
    mo_aggregator (mp_service q) = mo_aggregator (mp_service p) \<and> mo_alerts (mp_service q) = mo_alerts (mp_service p)"
  using assms by (cases rule: mp_step.cases) (auto simp: event_keeps_closed)

lemma ended_steps:
  assumes "mp_steps p q" "mp_aggregator p = LpEnded" "mp_alerts p = LpEnded" "aggregator_closed (mp_service p)"
    "alerts_closed (mp_service p)"
  shows "mp_aggregator q = LpEnded \<and> mp_alerts q = LpEnded \<and>
    mo_aggregator (mp_service q) = mo_aggregator (mp_service p) \<and> mo_alerts (mp_service q) = mo_alerts (mp_service p)"
  using assms
proof (induction rule: rtranclp_induct)
  case (step q r)
  then have q: "mp_aggregator q = LpEnded" "mp_alerts q = LpEnded"
    "mo_aggregator (mp_service q) = mo_aggregator (mp_service p)" "mo_alerts (mp_service q) = mo_alerts (mp_service p)"
    by blast+
  then have "aggregator_closed (mp_service q)" "alerts_closed (mp_service q)"
    using step.prems by (simp_all add: aggregator_closed_def alerts_closed_def)
  from ended_step [OF step.hyps(2) q(1,2) this] q show ?case by simp
qed simp


section \<open>The cache-manager process\<close>

text \<open>A call of \<open>Shutdown\<close> tests whether the channel is closed, closes it if not, and waits.  Its goroutine is
  added to the wait group before it is created, so only its end lets the wait return.\<close>

datatype cm_shutdown_pc = CsCall | CsClose | CsJoin | CsReturned

record 'w cm_process =
  cp_service :: "'w cm_service"
  cp_cleanup :: loop_pc
  cp_callers :: "nat \<Rightarrow> cm_shutdown_pc"
  cp_panicked :: bool

definition cp_start :: "'w \<Rightarrow> 'w cm_process" where
  "cp_start w = \<lparr>cp_service = cm_init w, cp_cleanup = LpSpawned, cp_callers = (\<lambda>_. CsCall), cp_panicked = False\<rparr>"

definition cp_caller_to :: "nat \<Rightarrow> cm_shutdown_pc \<Rightarrow> 'w cm_process \<Rightarrow> 'w cm_process" where
  "cp_caller_to i pc p = p\<lparr>cp_callers := (cp_callers p)(i := pc)\<rparr>"

text \<open>The operations of the service other than the clean-up and the end.\<close>

fun served :: "cm_op \<Rightarrow> bool" where
  "served (CmCleanup now) = False"
| "served CmShutdown = False"
| "served _ = True"

inductive cp_step :: "('w, 'v) cm_env \<Rightarrow> 'w cm_process \<Rightarrow> 'w cm_process \<Rightarrow> bool" for env where
  cp_serve: "\<not> cp_panicked p \<Longrightarrow> served a \<Longrightarrow> cp_step env p (p\<lparr>cp_service := cm_apply env a (cp_service p)\<rparr>)"
| cp_loop: "\<not> cp_panicked p \<Longrightarrow> loop_step cm_cleanup_tick cm_stopped (cp_cleanup p, cp_service p) (pc, s) \<Longrightarrow>
    cp_step env p (p\<lparr>cp_cleanup := pc, cp_service := s\<rparr>)"
| cp_test: "\<not> cp_panicked p \<Longrightarrow> cp_callers p i = CsCall \<Longrightarrow>
    cp_step env p (cp_caller_to i (if cm_stopped (cp_service p) then CsJoin else CsClose) p)"
| cp_close: "\<not> cp_panicked p \<Longrightarrow> cp_callers p i = CsClose \<Longrightarrow> \<not> cm_stopped (cp_service p) \<Longrightarrow>
    cp_step env p (cp_caller_to i CsJoin (p\<lparr>cp_service := cm_shutdown (cp_service p)\<rparr>))"
| cp_close_closed: "\<not> cp_panicked p \<Longrightarrow> cp_callers p i = CsClose \<Longrightarrow> cm_stopped (cp_service p) \<Longrightarrow>
    cp_step env p (p\<lparr>cp_panicked := True\<rparr>)"
| cp_join: "\<not> cp_panicked p \<Longrightarrow> cp_callers p i = CsJoin \<Longrightarrow> cp_cleanup p = LpEnded \<Longrightarrow>
    cp_step env p (cp_caller_to i CsReturned p)"

abbreviation cp_steps :: "('w, 'v) cm_env \<Rightarrow> 'w cm_process \<Rightarrow> 'w cm_process \<Rightarrow> bool" where
  "cp_steps env \<equiv> (cp_step env)\<^sup>*\<^sup>*"

lemma cp_caller_to_simps [simp]:
  "cp_service (cp_caller_to i pc p) = cp_service p" "cp_cleanup (cp_caller_to i pc p) = cp_cleanup p"
  "cp_callers (cp_caller_to i pc p) = (cp_callers p)(i := pc)" "cp_panicked (cp_caller_to i pc p) = cp_panicked p"
  by (simp_all add: cp_caller_to_def)

text \<open>No operation touches the channel.\<close>

lemma fetch_origin_stopped: "cm_stopped (fst (cm_fetch_origin env clk s key)) = cm_stopped s"
  unfolding cm_fetch_origin_def Let_def
  by (auto simp: case_prod_beta split: sum.split)

lemma fetch_stopped: "cm_stopped (fst (cm_fetch_with_fallback env clk s key)) = cm_stopped s"
  unfolding cm_fetch_with_fallback_def Let_def
  by (auto simp: case_prod_beta fetch_origin_stopped split: sum.split)

lemma get_stopped: "cm_stopped (fst (cm_get env now clk joined s key)) = cm_stopped s"
  unfolding cm_get_def Let_def
  by (auto simp: case_prod_beta fetch_stopped split: option.split sum.split)

lemma set_stopped: "cm_stopped (fst (cm_set env clk s key req)) = cm_stopped s"
  unfolding cm_set_def Let_def by (auto simp: case_prod_beta split: sum.split)

lemma invalidate_keys_stopped: "cm_stopped (fst (cm_invalidate_keys env s ks)) = cm_stopped s"
  by (induction ks arbitrary: s) (simp_all add: Let_def case_prod_beta)

lemma invalidate_stopped: "cm_stopped (fst (cm_invalidate env now s ks p)) = cm_stopped s"
  unfolding cm_invalidate_def Let_def by (auto simp: case_prod_beta invalidate_keys_stopped)

lemma handle_keys_stopped: "cm_stopped (cm_handle_keys s ks) = cm_stopped s"
  by (induction ks arbitrary: s) simp_all

lemma served_keeps_stopped: "served a \<Longrightarrow> cm_stopped (cm_apply env a s) = cm_stopped s"
proof (cases a)
  case CmPending
  then show ?thesis by (auto simp: cm_run_pending_def Let_def split: list.split)
qed (simp_all add: get_stopped set_stopped invalidate_stopped cm_handle_invalidate_def handle_keys_stopped
    cm_handle_refresh_def cm_publish_invalidation_def cm_publish_refresh_def
    cm_set_l2_cache_def cm_set_origin_def Let_def case_prod_beta)

definition cp_sound :: "'w cm_process \<Rightarrow> bool" where
  "cp_sound p \<longleftrightarrow> (\<forall>i. cp_callers p i \<in> {CsJoin, CsReturned} \<longrightarrow> cm_stopped (cp_service p)) \<and>
     (\<forall>i. cp_callers p i = CsReturned \<longrightarrow> cp_cleanup p = LpEnded) \<and>
     (cp_cleanup p = LpEnded \<longrightarrow> cm_stopped (cp_service p))"

lemma cp_sound_step: "cp_step env p q \<Longrightarrow> cp_sound p \<Longrightarrow> cp_sound q"
  by (cases rule: cp_step.cases, assumption)
    (auto simp: cp_sound_def served_keeps_stopped cleanup_loop.step_keeps cleanup_loop.close_closes
      dest: loop_progress split: if_splits)


lemma cp_sound_reach: "cp_steps env (cp_start w) p \<Longrightarrow> cp_sound p"
proof (induction rule: rtranclp_induct)
  case base
  show ?case by (simp add: cp_sound_def cp_start_def)
qed (rule cp_sound_step)

lemma cleanup_advances: "cp_step env p q \<Longrightarrow> cp_cleanup p \<le> cp_cleanup q"
  by (cases rule: cp_step.cases, assumption) (auto dest: loop_advances)

lemma cleanup_advances_steps: "cp_steps env p q \<Longrightarrow> cp_cleanup p \<le> cp_cleanup q"
  by (induction rule: rtranclp_induct) (auto dest: cleanup_advances intro: order_trans)

lemma ended_cleanup_steps: "cp_steps env p q \<Longrightarrow> cp_cleanup p = LpEnded \<Longrightarrow> cp_cleanup q = LpEnded"
  using cleanup_advances_steps [of env p q] by (simp add: ended_top top_unique)

lemma lift_cleanup:
  assumes "(loop_step cm_cleanup_tick cm_stopped)\<^sup>*\<^sup>* (cp_cleanup p, cp_service p) y" "\<not> cp_panicked p"
  shows "cp_steps env p (p\<lparr>cp_cleanup := fst y, cp_service := snd y\<rparr>)"
  using assms(1)
proof (induction rule: rtranclp_induct)
  case (step y z)
  let ?q = "p\<lparr>cp_cleanup := fst y, cp_service := snd y\<rparr>"
  have "cp_step env ?q (?q\<lparr>cp_cleanup := fst z, cp_service := snd z\<rparr>)"
    using assms(2) step.hyps(2) by (intro cp_loop) simp_all
  with step.IH show ?case by simp
qed simp

lemma cp_join_returns:
  assumes "\<not> cp_panicked p" "cp_callers p i = CsJoin" "cm_stopped (cp_service p)"
  shows "\<exists>q. cp_steps env p q \<and> cp_callers q i = CsReturned \<and> cp_service q = cp_service p \<and> \<not> cp_panicked q"
proof -
  let ?q = "p\<lparr>cp_cleanup := LpEnded\<rparr>"
  have "cp_steps env p ?q" using lift_cleanup [OF cleanup_loop.can_end [OF assms(3)] assms(1), of env] by simp
  moreover have "cp_step env ?q (cp_caller_to i CsReturned ?q)"
    using assms by (intro cp_join) simp_all
  ultimately have "cp_steps env p (cp_caller_to i CsReturned ?q)" by (rule rtranclp.rtrancl_into_rtrancl)
  with assms(1) show ?thesis by (intro exI [of _ "cp_caller_to i CsReturned ?q"]) simp
qed

text \<open>Once the channel is closed and nobody is about to close it, nobody ever will.\<close>

definition cp_settled :: "'w cm_process \<Rightarrow> bool" where
  "cp_settled p \<longleftrightarrow> cm_stopped (cp_service p) \<and> (\<forall>i. cp_callers p i \<noteq> CsClose) \<and> \<not> cp_panicked p"

lemma cp_settled_step: "cp_step env p q \<Longrightarrow> cp_settled p \<Longrightarrow> cp_settled q"
  by (cases rule: cp_step.cases, assumption)
    (auto simp: cp_settled_def served_keeps_stopped cleanup_loop.step_keeps split: if_splits)

lemma cp_settled_steps: "cp_steps env p q \<Longrightarrow> cp_settled p \<Longrightarrow> cp_settled q"
  by (induction rule: rtranclp_induct) (simp_all add: cp_settled_step)


lemma cp_call_returns:
  assumes "\<not> cp_panicked p" "\<forall>j. cp_callers p j \<noteq> CsClose"
    and "cp_callers p i = CsCall"
  shows "\<exists>q. cp_steps env p q \<and> cp_callers q i = CsReturned \<and> cp_service q = cm_shutdown (cp_service p) \<and>
    cp_settled q"
proof -
  let ?closed = "cp_caller_to i CsJoin (p\<lparr>cp_service := cm_shutdown (cp_service p)\<rparr>)"
  have closed: "cp_steps env p ?closed"
  proof (cases "cm_stopped (cp_service p)")
    case True
    then have "cm_shutdown (cp_service p) = cp_service p" by (simp add: cm_shutdown_def)
    then show ?thesis using cp_test [OF assms(1,3), of env] True by simp
  next
    case False
    let ?test = "cp_caller_to i CsClose p"
    have "cp_step env p ?test" using cp_test [OF assms(1,3), of env] False by simp
    moreover have "cp_step env ?test (cp_caller_to i CsJoin (?test\<lparr>cp_service := cm_shutdown (cp_service ?test)\<rparr>))"
      using assms(1) False by (intro cp_close) simp_all
    ultimately show ?thesis by (simp add: cp_caller_to_def step_trans)
  qed
  obtain q where q: "cp_steps env ?closed q" "cp_callers q i = CsReturned" "cp_service q = cp_service ?closed"
    using cp_join_returns [of ?closed i env] assms(1) by (auto simp: cleanup_loop.close_closes)
  have "cp_settled ?closed"
    using assms(1,2) by (simp add: cp_settled_def cleanup_loop.close_closes)
  with q(1) have "cp_settled q" by (rule cp_settled_steps)
  with q rtranclp_trans [OF closed q(1)] show ?thesis by auto
qed

section \<open>Runs\<close>

text \<open>Three concrete runs: \<open>Shutdown\<close> before the goroutines have started, \<open>Shutdown\<close> after, and two calls of the
  cache manager's \<open>Shutdown\<close> that overlap.\<close>

definition mp_stopped :: "time \<Rightarrow> loop_pc \<Rightarrow> loop_pc \<Rightarrow> mon_process" where
  "mp_stopped now a b = caller_to 0 SdReturned
     \<lparr>mp_service = close_alerts (close_aggregator (mon_init now)), mp_aggregator = a, mp_alerts = b,
      mp_callers = (\<lambda>_. SdCall), mp_panicked = False\<rparr>"

definition mp_running :: "time \<Rightarrow> mon_process" where
  "mp_running now = mp_start now\<lparr>mp_aggregator := LpSelect, mp_alerts := LpSelect\<rparr>"

lemma channels_open_at_start: "\<not> aggregator_closed (mon_init now)" "\<not> alerts_closed (mon_init now)"
  by (simp_all add: aggregator_closed_def alerts_closed_def mon_init_def new_aggregator_def new_alert_manager_def)

lemma stopped_before_start: "mp_steps (mp_start now) (mp_stopped now LpSpawned LpSpawned)"
proof -
  let ?p = "mp_start now"
  let ?p1 = "caller_to 0 SdJoinAggregator (?p\<lparr>mp_service := close_aggregator (mp_service ?p)\<rparr>)"
  let ?p2 = "caller_to 0 SdCloseAlerts ?p1"
  let ?p3 = "caller_to 0 SdJoinAlerts (?p2\<lparr>mp_service := close_alerts (mp_service ?p2)\<rparr>)"
  have "mp_step ?p ?p1"
    by (rule mp_close_aggregator) (simp_all add: mp_start_def channels_open_at_start)
  moreover have "mp_step ?p1 ?p2"
    by (rule mp_join_aggregator) (simp_all add: mp_start_def group_idle_def)
  moreover have "mp_step ?p2 ?p3"
    by (rule mp_close_alerts) (simp_all add: mp_start_def channels_open_at_start)
  moreover have "mp_step ?p3 (caller_to 0 SdReturned ?p3)"
    by (rule mp_join_alerts) (simp_all add: mp_start_def group_idle_def)
  ultimately have "mp_steps ?p (caller_to 0 SdReturned ?p3)" by (rule four_steps)
  moreover have "caller_to 0 SdReturned ?p3 = mp_stopped now LpSpawned LpSpawned"
    by (simp add: caller_to_def mp_stopped_def mp_start_def)
  ultimately show ?thesis by simp
qed

lemma loops_start: "mp_steps (mp_start now) (mp_running now)"
proof -
  let ?p = "mp_start now"
  have "mp_step ?p (?p\<lparr>mp_aggregator := LpSelect, mp_service := mp_service ?p\<rparr>)" (is "mp_step _ ?q")
    by (rule mp_aggregator_loop) (simp_all add: mp_start_def lp_start)
  moreover have "mp_step ?q (?q\<lparr>mp_alerts := LpSelect, mp_service := mp_service ?q\<rparr>)"
    by (rule mp_alerts_loop) (simp_all add: mp_start_def lp_start)
  ultimately show ?thesis by (simp add: mp_running_def)
qed

section \<open>Properties\<close>



text \<open>
  Further result.  \<open>Shutdown\<close> of the monitoring service can always be completed by the first caller: from every
  reachable state in which it is under way, or in which nobody has called it yet, its caller can return.
\<close>

theorem shutdown_completes:
  assumes "mp_steps (mp_start now) p" "\<not> mp_panicked p"
    and "mp_callers p i \<noteq> SdCall \<or> \<not> aggregator_closed (mp_service p)"
  shows "\<exists>q. mp_steps p q \<and> mp_callers q i = SdReturned"
proof -
  have sound: "callers_sound p" using assms(1) by (rule callers_sound_reach)
  have "can_return i p"
  proof (cases "mp_callers p i")
    case SdCall
    with assms(3) callers_none [OF sound] assms(2) show ?thesis by (blast intro: call_returns)
  next
    case SdReturned
    then show ?thesis by (auto simp: can_return_def)
  qed (use callers_soundD(2,3) [OF sound, of i] assms(2) in
      \<open>auto intro: join_aggregator_returns close_alerts_returns join_alerts_returns\<close>)
  then show ?thesis by (simp add: can_return_def)
qed

theorem shutdown_completes_witness:
  "\<exists>q. mp_steps (mp_running 0) q \<and> mp_callers q 0 = SdReturned"
  by (rule shutdown_completes [OF loops_start]) (simp_all add: mp_running_def mp_start_def channels_open_at_start)

text \<open>
  Further result.  When both goroutines had started before the call, a \<open>Shutdown\<close> that has returned leaves the
  monitoring service at rest: both loops have ended, and no later step changes the windows, the anomalies or
  the alerts.
\<close>

theorem shutdown_quiesces:
  assumes "mp_steps (mp_start now) p0" "mp_callers p0 = (\<lambda>_. SdCall)"
    and "mp_aggregator p0 \<noteq> LpSpawned" "mp_alerts p0 \<noteq> LpSpawned"
    and "mp_steps p0 p" "mp_callers p i = SdReturned" "mp_steps p q"
  shows "mp_aggregator q = LpEnded \<and> mp_alerts q = LpEnded \<and>
    mo_aggregator (mp_service q) = mo_aggregator (mp_service p) \<and>
    mo_alerts (mp_service q) = mo_alerts (mp_service p)"
proof -
  have "quiet_sound p0" using assms(2-4) by (simp add: quiet_sound_def)
  then have "quiet_sound p" using assms(5) by (rule quiet_sound_steps [rotated])
  with assms(6) have ended: "mp_aggregator p = LpEnded" "mp_alerts p = LpEnded"
    by (auto simp: quiet_sound_def)
  have "callers_sound p" using rtranclp_trans [OF assms(1,5)] by (rule callers_sound_reach)
  from callers_soundD(2,3) [OF this, of i] assms(6)
  have "aggregator_closed (mp_service p)" "alerts_closed (mp_service p)" by simp_all
  from ended_steps [OF assms(7) ended this] show ?thesis .
qed

theorem shutdown_quiesces_witness:
  "\<exists>q. mp_steps (mp_running 0) q \<and> mp_callers q 0 = SdReturned \<and> mp_aggregator q = LpEnded \<and> mp_alerts q = LpEnded"
proof -
  have running: "mp_callers (mp_running 0) = (\<lambda>_. SdCall)" "mp_aggregator (mp_running 0) \<noteq> LpSpawned"
    "mp_alerts (mp_running 0) \<noteq> LpSpawned"
    by (simp_all add: mp_running_def mp_start_def)
  have "can_return 0 (mp_running 0)"
    by (rule call_returns) (simp_all add: mp_running_def mp_start_def channels_open_at_start)
  then obtain q where q: "mp_steps (mp_running 0) q" "mp_callers q 0 = SdReturned" by (auto simp: can_return_def)
  from shutdown_quiesces [OF loops_start running q rtranclp.rtrancl_refl] q show ?thesis by blast
qed

text \<open>
  Further result.  A \<open>Shutdown\<close> of the monitoring service that is called before its goroutines have started does
  not wait for them, because they add themselves to the wait groups when they start: it returns, and the
  aggregator still does its work afterwards.
\<close>

theorem shutdown_misses_late_loops:
  "\<exists>p q. mp_steps (mp_start now) p \<and> mp_callers p 0 = SdReturned \<and> mp_steps p q \<and>
     mp_service q = mon_aggregate clock (mp_service p)"
proof (intro exI conjI)
  let ?p = "mp_stopped now LpSpawned LpSpawned" and ?q = "mp_stopped now LpSelect LpSpawned"
  show "mp_steps (mp_start now) ?p" by (rule stopped_before_start)
  show "mp_callers ?p 0 = SdReturned" by (simp add: mp_stopped_def)
  have "mp_step ?p (?p\<lparr>mp_aggregator := LpSelect, mp_service := mp_service ?p\<rparr>)"
    by (rule mp_aggregator_loop) (simp_all add: mp_stopped_def lp_start)
  moreover have "?p\<lparr>mp_aggregator := LpSelect, mp_service := mp_service ?p\<rparr> = ?q"
    by (simp add: mp_stopped_def caller_to_def)
  ultimately have "mp_step ?p ?q" by simp
  moreover have "mp_step ?q (?q\<lparr>mp_aggregator := LpSelect, mp_service := mon_aggregate clock (mp_service ?p)\<rparr>)"
    by (rule mp_aggregator_loop) (simp_all add: mp_stopped_def lp_tick)
  ultimately show "mp_steps ?p (?q\<lparr>mp_aggregator := LpSelect, mp_service := mon_aggregate clock (mp_service ?p)\<rparr>)"
    by (rule two_steps)
  show "mp_service (?q\<lparr>mp_aggregator := LpSelect, mp_service := mon_aggregate clock (mp_service ?p)\<rparr>) =
      mon_aggregate clock (mp_service ?p)" by simp
qed

text \<open>
  Further result.  A second call of the monitoring service's \<open>Shutdown\<close> never gets past its first statement, and
  ends the process if it is executed: the channel is closed without a test.
\<close>

theorem second_shutdown_panics:
  assumes "mp_steps (mp_start now) p" "mp_callers p i \<noteq> SdCall" "mp_callers p j = SdCall" "mp_steps p q"
  shows "mp_callers q j = SdCall \<and> (mp_panicked q \<or> mp_step q (q\<lparr>mp_panicked := True\<rparr>))"
proof -
  have stay: "mp_callers q i \<noteq> SdCall" using assms(4,2)
  proof (induction rule: rtranclp_induct)
    case (step q r)
    from step.hyps(2) step.IH [OF step.prems] show ?case by cases (auto split: if_splits)
  qed
  have "callers_sound q" using rtranclp_trans [OF assms(1,4)] by (rule callers_sound_reach)
  note q = callers_soundD [OF this stay]
  from assms(2,3) have "i \<noteq> j" by auto
  with q(1) have "mp_callers q j = SdCall" by (metis fun_upd_other)
  with q(2) show ?thesis by (auto intro: mp_panic)
qed

theorem second_shutdown_panics_witness:
  "mp_callers (mp_stopped 0 LpSpawned LpSpawned) 1 = SdCall \<and>
     mp_step (mp_stopped 0 LpSpawned LpSpawned) (mp_stopped 0 LpSpawned LpSpawned\<lparr>mp_panicked := True\<rparr>)"
proof -
  let ?p = "mp_stopped 0 LpSpawned LpSpawned"
  have "mp_callers ?p 0 \<noteq> SdCall" "mp_callers ?p 1 = SdCall" "\<not> mp_panicked ?p"
    by (simp_all add: mp_stopped_def)
  with second_shutdown_panics [OF stopped_before_start this(1,2) rtranclp.rtrancl_refl] show ?thesis by blast
qed

text \<open>
  Further result.  \<open>Shutdown\<close> of the cache manager waits for the clean-up: in every run, once a call has
  returned the goroutine has ended, whenever it was started, and it stays so.
\<close>

theorem cm_shutdown_joins:
  assumes "cp_steps env (cp_start w) p" "cp_callers p i = CsReturned" "cp_steps env p q"
  shows "cp_cleanup q = LpEnded \<and> (\<nexists>x. loop_step cm_cleanup_tick cm_stopped (cp_cleanup q, cp_service q) x)"
proof -
  have "cp_cleanup p = LpEnded" using cp_sound_reach [OF assms(1)] assms(2) by (auto simp: cp_sound_def)
  with assms(3) have "cp_cleanup q = LpEnded" by (rule ended_cleanup_steps)
  then show ?thesis by simp
qed

theorem cm_shutdown_joins_witness:
  "\<forall>env. \<exists>q. cp_steps env (cp_start (0 :: nat)) q \<and> cp_callers q 0 = CsReturned \<and> cp_cleanup q = LpEnded"
proof
  fix env :: "(nat, 'v) cm_env"
  obtain q where q: "cp_steps env (cp_start (0 :: nat)) q" "cp_callers q 0 = CsReturned"
    using cp_call_returns [of "cp_start (0 :: nat)" 0 env] by (auto simp: cp_start_def)
  from cm_shutdown_joins [OF q rtranclp.rtrancl_refl] q
  show "\<exists>q. cp_steps env (cp_start (0 :: nat)) q \<and> cp_callers q 0 = CsReturned \<and> cp_cleanup q = LpEnded" by blast
qed

text \<open>
  Further result.  A call of the cache manager's \<open>Shutdown\<close> that is executed without another call in between
  returns, with the effect of the atomic operation; after it, every further call is harmless: no run panics.
\<close>

theorem cm_shutdown_completes:
  assumes "cp_steps env (cp_start w) p" "\<not> cp_panicked p" "\<forall>j. cp_callers p j \<noteq> CsClose"
    and "cp_callers p i = CsCall"
  shows "\<exists>q. cp_steps env p q \<and> cp_callers q i = CsReturned \<and> cp_service q = cm_shutdown (cp_service p) \<and>
    (\<forall>r. cp_steps env q r \<longrightarrow> \<not> cp_panicked r)"
proof -
  obtain q where q: "cp_steps env p q" "cp_callers q i = CsReturned" "cp_service q = cm_shutdown (cp_service p)"
    "cp_settled q"
    using cp_call_returns [OF assms(2-4), of env] by blast
  have "\<not> cp_panicked r" if "cp_steps env q r" for r
    using cp_settled_steps [OF that q(4)] by (simp add: cp_settled_def)
  with q show ?thesis by blast
qed

theorem cm_shutdown_completes_witness:
  "\<forall>env. \<exists>q. cp_steps env (cp_start (0 :: nat)) q \<and> cp_callers q 0 = CsReturned \<and> cm_stopped (cp_service q)"
proof
  fix env :: "(nat, 'v) cm_env"
  from cm_shutdown_completes [of env "0 :: nat" "cp_start 0" 0]
  show "\<exists>q. cp_steps env (cp_start (0 :: nat)) q \<and> cp_callers q 0 = CsReturned \<and> cm_stopped (cp_service q)"
    by (auto simp: cp_start_def cleanup_loop.close_closes)
qed

text \<open>
  Property C12.  Two calls of the cache manager's \<open>Shutdown\<close> that overlap can end the process, although the
  code means to make repeated calls safe: both can find the channel open before either closes it.
\<close>

theorem overlapping_shutdowns_panic:
  "\<exists>p. cp_steps env (cp_start w) p \<and> cp_panicked p"
proof (intro exI conjI)
  let ?p = "cp_start w"
  let ?p1 = "cp_caller_to 0 CsClose ?p"
  let ?p2 = "cp_caller_to 1 CsClose ?p1"
  let ?p3 = "cp_caller_to 0 CsJoin (?p2\<lparr>cp_service := cm_shutdown (cp_service ?p2)\<rparr>)"
  have open_start: "\<not> cm_stopped (cm_init w)" by (simp add: cm_init_def)
  have "cp_step env ?p ?p1" using cp_test [of ?p 0 env] open_start by (simp add: cp_start_def)
  moreover have "cp_step env ?p1 ?p2" using cp_test [of ?p1 1 env] open_start by (simp add: cp_start_def)
  moreover have "cp_step env ?p2 ?p3"
    by (rule cp_close) (simp_all add: cp_start_def open_start)
  moreover have "cp_step env ?p3 (?p3\<lparr>cp_panicked := True\<rparr>)"
    by (rule cp_close_closed [of _ 1]) (simp_all add: cp_start_def cm_shutdown_def)
  ultimately show "cp_steps env ?p (?p3\<lparr>cp_panicked := True\<rparr>)" by (rule four_steps)
qed simp

end
