(* ===== verification/Cluster.thy ===== *)
theory Cluster
  imports CacheManager Invalidation
begin

text \<open>
  Several cache-manager instances, the invalidation service and the two topics between them as one
  transition system.  The instances share the level-2 cache and the origin.  A topic keeps what was
  published; an instance may receive a message at any later time, in any order and repeatedly (delivery
  at least once, as the topics are configured).  A fetch is not atomic: between reading the value and
  storing it in the level-1 cache, messages may be delivered and other operations may run.
\<close>

section \<open>A fetch in two steps\<close>

text \<open>What \<open>fetchWithFallback\<close> holds between its last read and its write to the level-1 cache.\<close>

datatype fetched = FromL2 cache_entry | FromOrigin json

definition origin_read ::
    "('w, 'v) cm_env \<Rightarrow> 'w cm_service \<Rightarrow> string \<Rightarrow> 'w cm_service \<times> fetched go_result" where
  "origin_read env s key =
     (if \<not> cm_has_origin s
      then (s, Inl (ErrMsg ''cache miss and no origin fetcher configured''))
      else
        (let (w, r) = origin_fetch env (cm_world s) key; s = s\<lparr>cm_world := w\<rparr> in
         case r of
           Inl err \<Rightarrow> (s, Inl (ErrWrap ''origin fetch failed: '' err))
         | Inr v \<Rightarrow>
             (case marshal_value env v of
                Inl err \<Rightarrow> (s, Inl (ErrWrap ''failed to marshal origin value: '' err))
              | Inr value_json \<Rightarrow> (s, Inr (FromOrigin value_json)))))"

definition fetch_read ::
    "('w, 'v) cm_env \<Rightarrow> 'w cm_service \<Rightarrow> string \<Rightarrow> 'w cm_service \<times> fetched go_result" where
  "fetch_read env s key =
     (if cm_uses_l2 s then
        (let (w, r) = l2_get env (cm_world s) key; s = s\<lparr>cm_world := w\<rparr> in
         case r of
           Inl err \<Rightarrow> origin_read env (cm_count inc_l2_errors s) key
         | Inr (data, ok) \<Rightarrow>
             (if ok then
                (case unmarshal_entry env data of
                   Inr entry \<Rightarrow> (s, Inr (FromL2 entry))
                 | Inl err \<Rightarrow> origin_read env s key)
              else origin_read env (cm_count inc_l2_misses s) key))
      else origin_read env s key)"

definition fetch_store ::
    "(nat \<Rightarrow> time) \<Rightarrow> 'w cm_service \<Rightarrow> string \<Rightarrow> fetched \<Rightarrow> 'w cm_service \<times> cache_entry" where
  "fetch_store clk s key f =
     (case f of
        FromL2 entry \<Rightarrow>
          (let s = s\<lparr>cm_l1 := l1_set (clk 1) (cm_l1 s) key (ce_value entry)
                 (time_sub (ce_expires_at entry) (clk 0))\<rparr>
           in (cm_count inc_l2_hits s, entry\<lparr>ce_source := ''l2''\<rparr>))
      | FromOrigin value_json \<Rightarrow>
          (let ttl = cfg_default_ttl (cm_cfg s);
               expires_at = time_add (clk 2) ttl;
               s = s\<lparr>cm_l1 := l1_set (clk 3) (cm_l1 s) key value_json ttl\<rparr>;
               entry = \<lparr>ce_value = value_json, ce_cached_at = clk 4, ce_expires_at = expires_at,
                 ce_source = ''origin''\<rparr>
           in (if cm_uses_l2 s then s\<lparr>cm_pending := cm_pending s @ [(key, entry, ttl)]\<rparr> else s, entry)))"

text \<open>The lookup at the beginning of \<open>Get\<close>.\<close>

definition get_lookup :: "time \<Rightarrow> 'w cm_service \<Rightarrow> string \<Rightarrow> 'w cm_service \<times> cache_entry option" where
  "get_lookup now s key =
     (let (l1, hit) = l1_get now (cm_l1 s) key; s = s\<lparr>cm_l1 := l1\<rparr>
      in (if hit \<noteq> None then cm_count inc_hits s else s, hit))"

lemma origin_split:
  "cm_fetch_origin env clk s key =
     (case origin_read env s key of
        (s, Inl err) \<Rightarrow> (s, Inl err)
      | (s, Inr f) \<Rightarrow> (let (s, e) = fetch_store clk s key f in (s, Inr e)))"
  by (simp add: cm_fetch_origin_def origin_read_def fetch_store_def Let_def cm_uses_l2_def
      split: prod.split sum.split)

lemma fetch_split:
  "cm_fetch_with_fallback env clk s key =
     (case fetch_read env s key of
        (s, Inl err) \<Rightarrow> (s, Inl err)
      | (s, Inr f) \<Rightarrow> (let (s, e) = fetch_store clk s key f in (s, Inr e)))"
  by (simp add: cm_fetch_with_fallback_def fetch_read_def Let_def origin_split fetch_store_def
      split: prod.split sum.split)

lemma get_split:
  "cm_get env now clk None s key =
     (if key = [] then (s, None, Some (ErrMsg ''key cannot be empty''))
      else case get_lookup now s key of
        (s, Some e) \<Rightarrow> (s, Some (entry_to_response e ''l1''), None)
      | (s, None) \<Rightarrow>
          (case fetch_read env s key of
             (s, Inl err) \<Rightarrow> (cm_count inc_misses s, Some miss_response, Some err)
           | (s, Inr f) \<Rightarrow>
               (let (s, e) = fetch_store clk s key f in (s, Some (entry_to_response e (ce_source e)), None))))"
  by (simp add: cm_get_def get_lookup_def fetch_split Let_def split: prod.split option.split sum.split)

lemma origin_read_l1 [simp]: "cm_l1 (fst (origin_read env s key)) = cm_l1 s"
  by (simp add: origin_read_def Let_def split: prod.split sum.split)

lemma fetch_read_l1 [simp]: "cm_l1 (fst (fetch_read env s key)) = cm_l1 s"
  by (simp add: fetch_read_def Let_def split: prod.split sum.split)

section \<open>The shared world\<close>

text \<open>
  What the instances share: the level-2 cache and the origin (\<open>'x\<close>, behind the interfaces) and what the
  two topics hold.  A refresh event is kept with the number of invalidation events published before it.
\<close>

record 'x world =
  wd_store :: 'x
  wd_invals :: "inval_event list"
  wd_refreshes :: "(refresh_event \<times> nat) list"

abbreviation on_store :: "('x \<Rightarrow> 'x \<times> 'r) \<Rightarrow> 'x world \<Rightarrow> 'x world \<times> 'r" where
  "on_store f w \<equiv> (let (x, r) = f (wd_store w) in (w\<lparr>wd_store := x\<rparr>, r))"

text \<open>The environment of an instance in the cluster: the interfaces act on the shared store, an event
  that was accepted by the topic is kept.\<close>

definition shared_env :: "('x, 'v) cm_env \<Rightarrow> ('x world, 'v) cm_env" where
  "shared_env env =
     \<lparr>l2_get = (\<lambda>w k. on_store (\<lambda>x. l2_get env x k) w),
      l2_set = (\<lambda>w k d t. on_store (\<lambda>x. l2_set env x k d t) w),
      l2_delete = (\<lambda>w k. on_store (\<lambda>x. l2_delete env x k) w),
      l2_delete_pattern = (\<lambda>w k. on_store (\<lambda>x. l2_delete_pattern env x k) w),
      origin_fetch = (\<lambda>w k. on_store (\<lambda>x. origin_fetch env x k) w),
      publish_inval = (\<lambda>w ev. (let (w, e) = on_store (\<lambda>x. publish_inval env x ev) w
         in (if e = None then w\<lparr>wd_invals := wd_invals w @ [ev]\<rparr> else w, e))),
      publish_refresh = (\<lambda>w ev. (let (w, e) = on_store (\<lambda>x. publish_refresh env x ev) w
         in (if e = None then w\<lparr>wd_refreshes := wd_refreshes w @ [(ev, length (wd_invals w))]\<rparr> else w, e))),
      marshal_value = marshal_value env, marshal_entry = marshal_entry env,
      unmarshal_entry = unmarshal_entry env\<rparr>"

text \<open>The bus of the invalidation service: a list that records what is published.\<close>

definition recording_env ::
    "(string \<Rightarrow> regex go_result) \<Rightarrow> keys_codec \<Rightarrow> inval_event list inv_env" where
  "recording_env ext codec =
     \<lparr>ivt_publish = (\<lambda>w ev. (w @ [ev], None)), ivt_regexp = ext, ivt_codec = codec\<rparr>"

text \<open>The same bus with a topic that may refuse an event.\<close>

definition topic_env ::
    "(inval_event \<Rightarrow> go_error option) \<Rightarrow> (string \<Rightarrow> regex go_result) \<Rightarrow> keys_codec \<Rightarrow> inval_event list inv_env" where
  "topic_env fail ext codec =
     \<lparr>ivt_publish = (\<lambda>w ev. (case fail ev of None \<Rightarrow> (w @ [ev], None) | Some e \<Rightarrow> (w, Some e))),
      ivt_regexp = ext, ivt_codec = codec\<rparr>"

lemma recording_topic: "recording_env ext codec = topic_env (\<lambda>_. None) ext codec"
  by (simp add: recording_env_def topic_env_def)

section \<open>State and steps\<close>

text \<open>
  \<open>cl_flights\<close> are the running fetches of an instance: at most one per key (theory Coalescer), with the
  value read and the number of invalidation events published before the read; \<open>cl_since\<close> is that number
  for the entry of a key in the level-1 cache; \<open>cl_acked\<close> are the invalidation events delivered to an
  instance.  The last two do not influence the behaviour.
\<close>

record 'x cluster =
  cl_nodes :: "nat \<Rightarrow> 'x world cm_service"
  cl_world :: "'x world"
  cl_inval :: "inval_event list inv_service"
  cl_flights :: "nat \<Rightarrow> (string \<times> fetched \<times> nat) list"
  cl_since :: "nat \<Rightarrow> string \<Rightarrow> nat"
  cl_acked :: "nat \<Rightarrow> nat set"

datatype 'x action =
    Lookup nat time string
  | Fetch nat string
  | Store nat "nat \<Rightarrow> time" string
  | Local nat cm_op
  | Deliver nat nat
  | DeliverRefresh nat time nat
  | KeyRequest "nat \<Rightarrow> time" inv_request
  | PatternRequest "nat \<Rightarrow> time" inv_request
  | Outside 'x

text \<open>An operation of one instance on the shared world.\<close>

definition on_node ::
    "nat \<Rightarrow> ('x world cm_service \<Rightarrow> 'x world cm_service) \<Rightarrow> 'x cluster \<Rightarrow> 'x cluster" where
  "on_node i f c = (let s = f ((cl_nodes c i)\<lparr>cm_world := cl_world c\<rparr>)
     in c\<lparr>cl_nodes := (cl_nodes c)(i := s), cl_world := cm_world s\<rparr>)"

definition published :: "'x cluster \<Rightarrow> nat" where
  "published c = length (wd_invals (cl_world c))"

definition mark :: "nat \<Rightarrow> string \<Rightarrow> nat \<Rightarrow> 'x cluster \<Rightarrow> 'x cluster" where
  "mark i k n c = c\<lparr>cl_since := (cl_since c)(i := (cl_since c i)(k := n))\<rparr>"

text \<open>The key a \<open>Set\<close> writes, if it is accepted.\<close>

fun writes :: "cm_op \<Rightarrow> string option" where
  "writes (CmSet clk k req) = (if k = [] \<or> sr_value req = [] then None else Some k)"
| "writes _ = None"

definition on_inval ::
    "(inval_event list inv_service \<Rightarrow> inval_event list inv_service) \<Rightarrow> 'x cluster \<Rightarrow> 'x cluster" where
  "on_inval f c = (let s = f ((cl_inval c)\<lparr>is_bus := wd_invals (cl_world c)\<rparr>)
     in c\<lparr>cl_inval := s, cl_world := (cl_world c)\<lparr>wd_invals := is_bus s\<rparr>\<rparr>)"

fun cl_apply ::
    "('x, 'v) cm_env \<Rightarrow> inval_event list inv_env \<Rightarrow> 'x action \<Rightarrow> 'x cluster \<Rightarrow> 'x cluster" where
  "cl_apply env ienv (Lookup i now k) c = on_node i (\<lambda>s. fst (get_lookup now s k)) c"
| "cl_apply env ienv (Fetch i k) c =
     (let n = published c; r = snd (fetch_read (shared_env env) ((cl_nodes c i)\<lparr>cm_world := cl_world c\<rparr>) k);
          c = on_node i (\<lambda>s. fst (fetch_read (shared_env env) s k)) c
      in case r of
           Inl err \<Rightarrow> on_node i (cm_count inc_misses) c
         | Inr f \<Rightarrow> c\<lparr>cl_flights := (cl_flights c)(i := (k, f, n) # cl_flights c i)\<rparr>)"
| "cl_apply env ienv (Store i clk k) c =
     (case map_of (cl_flights c i) k of
        None \<Rightarrow> c
      | Some (f, n) \<Rightarrow>
          (let c = mark i k n (on_node i (\<lambda>s. fst (fetch_store clk s k f)) c)
           in c\<lparr>cl_flights := (cl_flights c)(i := AList.delete k (cl_flights c i))\<rparr>))"
| "cl_apply env ienv (Local i op) c =
     (let n = published c; c = on_node i (cm_apply (shared_env env) op) c
      in case writes op of None \<Rightarrow> c | Some k \<Rightarrow> mark i k n c)"
| "cl_apply env ienv (Deliver i n) c =
     (let c = on_node i (\<lambda>s. cm_handle_invalidate s (wd_invals (cl_world c) ! n)) c
      in c\<lparr>cl_acked := (cl_acked c)(i := insert n (cl_acked c i))\<rparr>)"
| "cl_apply env ienv (DeliverRefresh i now m) c =
     (let (ev, n) = wd_refreshes (cl_world c) ! m
      in mark i (re_key ev) n (on_node i (\<lambda>s. cm_handle_refresh now s ev) c))"
| "cl_apply env ienv (KeyRequest clk req) c = on_inval (\<lambda>s. fst (inv_key ienv clk s req)) c"
| "cl_apply env ienv (PatternRequest clk req) c = on_inval (\<lambda>s. fst (inv_pattern ienv clk s req)) c"
| "cl_apply env ienv (Outside x) c = c\<lparr>cl_world := (cl_world c)\<lparr>wd_store := x\<rparr>\<rparr>"

text \<open>When a step is possible: an instance has one fetch per key at a time, only what was published is
  delivered, and the operations that have steps of their own are not local (a \<open>Get\<close> that joins the fetch of
  another caller is).\<close>

fun cl_enabled :: "'x action \<Rightarrow> 'x cluster \<Rightarrow> bool" where
  "cl_enabled (Lookup i now k) c \<longleftrightarrow> k \<noteq> []"
| "cl_enabled (Fetch i k) c \<longleftrightarrow> k \<noteq> [] \<and> map_of (cl_flights c i) k = None"
| "cl_enabled (Store i clk k) c \<longleftrightarrow> map_of (cl_flights c i) k \<noteq> None"
| "cl_enabled (Local i op) c \<longleftrightarrow>
     (case op of CmGet _ _ joined _ \<Rightarrow> joined \<noteq> None | CmOnInvalidate _ \<Rightarrow> False | CmOnRefresh _ _ \<Rightarrow> False
      | _ \<Rightarrow> True)"
| "cl_enabled (Deliver i n) c \<longleftrightarrow> n < published c"
| "cl_enabled (DeliverRefresh i now m) c \<longleftrightarrow> m < length (wd_refreshes (cl_world c))"
| "cl_enabled _ c \<longleftrightarrow> True"

inductive cl_step ::
    "('x, 'v) cm_env \<Rightarrow> inval_event list inv_env \<Rightarrow> 'x action \<Rightarrow> 'x cluster \<Rightarrow> 'x cluster \<Rightarrow> bool"
  for env ienv where
  "cl_enabled a c \<Longrightarrow> cl_step env ienv a c (cl_apply env ienv a c)"

inductive_cases cl_stepE [elim!]: "cl_step env ienv a c c'"

text \<open>The start: every instance freshly initialised, nothing published.\<close>

definition cl_start :: "'x \<Rightarrow> 'x cluster" where
  "cl_start x = (let w = \<lparr>wd_store = x, wd_invals = [], wd_refreshes = []\<rparr> in
     \<lparr>cl_nodes = (\<lambda>_. cm_init w), cl_world = w,
      cl_inval = \<lparr>is_matcher = pm_new, is_table = ensure_schema None,
        is_metrics = \<lparr>im_total = 0, im_key = 0, im_pattern = 0, im_audit_writes = 0,
          im_publishes = 0, im_errors = 0\<rparr>, is_jobs = [], is_bus = []\<rparr>,
      cl_flights = (\<lambda>_. []), cl_since = (\<lambda>_ _. 0), cl_acked = (\<lambda>_. {})\<rparr>)"

text \<open>Runs in which every step satisfies a side condition on the step and the state before it.\<close>

inductive cl_reach ::
    "('x, 'v) cm_env \<Rightarrow> inval_event list inv_env \<Rightarrow> ('x action \<Rightarrow> 'x cluster \<Rightarrow> bool) \<Rightarrow> 'x cluster \<Rightarrow> 'x cluster \<Rightarrow> bool"
  for env ienv side c0 where
  start: "cl_reach env ienv side c0 c0"
| step: "cl_reach env ienv side c0 c \<Longrightarrow> cl_step env ienv a c c' \<Longrightarrow> side a c \<Longrightarrow> cl_reach env ienv side c0 c'"

text \<open>The keys an invalidation event is about, as the handler reads it.\<close>

definition ev_matches :: "inval_event \<Rightarrow> string \<Rightarrow> bool" where
  "ev_matches ev k \<longleftrightarrow> k \<in> set (ie_keys ev) \<or> ie_pattern ev \<noteq> [] \<and> lru_match (ie_pattern ev) k"

section \<open>What a step does to the level-1 caches\<close>

definition keeps_within :: "string option \<Rightarrow> l1_cache \<Rightarrow> l1_cache \<Rightarrow> bool" where
  "keeps_within w c c' \<longleftrightarrow> l1_inv c' \<and> (\<forall>k. l1_content c' k \<noteq> None \<longrightarrow> l1_content c k \<noteq> None \<or> w = Some k)"

named_theorems keeps \<open>operations that add no entry but that of the written key\<close>

lemma keeps_same [keeps]: "l1_inv c \<Longrightarrow> keeps_within w c c"
  by (simp add: keeps_within_def)

lemma keeps_get [keeps]: "l1_inv c \<Longrightarrow> keeps_within w c (fst (l1_get now c k))"
  by (auto simp: keeps_within_def l1.get_invar l1.get_content split: option.splits if_splits)

lemma keeps_set [keeps]: "l1_inv c \<Longrightarrow> keeps_within (Some k) c (l1_set now c k v ttl)"
  unfolding keeps_within_def using l1.set_invar l1.set_other by metis

lemma keeps_cleanup [keeps]: "l1_inv c \<Longrightarrow> keeps_within w c (fst (l1_cleanup_expired now c))"
  by (auto simp: keeps_within_def l1_cleanup_refines l1_content_def lru_find_None
      simp flip: not_None_eq)

lemma keeps_inval [keeps]: "l1_inv c \<Longrightarrow> keeps_within w c (inval_l1 c ks p)"
  using l1_steps_inv [OF l1_steps_inval] by (auto simp: keeps_within_def inval_content)

lemma keeps_lookup [keeps]: "l1_inv (cm_l1 s) \<Longrightarrow> keeps_within w (cm_l1 s) (cm_l1 (fst (get_lookup now s k)))"
  using keeps_get [of "cm_l1 s" w now k] by (simp add: get_lookup_def case_prod_beta Let_def)

lemma keeps_store [keeps]: "l1_inv (cm_l1 s) \<Longrightarrow> keeps_within (Some k) (cm_l1 s) (cm_l1 (fst (fetch_store clk s k f)))"
  by (cases f) (simp_all add: fetch_store_def Let_def keeps_set)

lemma keeps_refresh [keeps]:
  "l1_inv (cm_l1 s) \<Longrightarrow> keeps_within (Some (re_key ev)) (cm_l1 s) (cm_l1 (cm_handle_refresh now s ev))"
  by (simp add: cm_handle_refresh_def Let_def keeps_set)

lemma cm_set_content:
  "cm_l1 (fst (cm_set env clk s k req)) = cm_l1 s \<and> (k = [] \<or> sr_value req = []) \<or>
   (\<exists>ttl. cm_l1 (fst (cm_set env clk s k req)) = l1_set (clk 1) (cm_l1 s) k (sr_value req) ttl) \<and>
     k \<noteq> [] \<and> sr_value req \<noteq> []"
  unfolding cm_set_def Let_def by (auto simp: case_prod_beta split: sum.split)

lemma keeps_local [keeps]:
  assumes "l1_inv (cm_l1 s)" "cl_enabled (Local i op) c"
  shows "keeps_within (writes op) (cm_l1 s) (cm_l1 (cm_apply env op s))"
proof (cases op)
  case (CmGet now clk joined k)
  then show ?thesis
    using assms keeps_get [OF assms(1), of None now k]
    by (auto simp: cm_get_def case_prod_beta Let_def keeps_same split: option.split sum.split)
next
  case (CmSet clk k req)
  then show ?thesis
    using assms(1) cm_set_content [of env clk s k req] by (auto simp: keeps)
next
  case CmPending
  then show ?thesis
    using assms(1) by (auto simp: cm_run_pending_def Let_def keeps split: list.split)
qed (use assms in \<open>auto simp: cm_invalidate_l1 cm_cleanup_tick_def cm_publish_invalidation_def
    cm_publish_refresh_def cm_set_l2_cache_def cm_set_origin_def cm_shutdown_def case_prod_beta keeps Let_def\<close>)

section \<open>What a step does to the topics\<close>

definition grows :: "'x world \<Rightarrow> 'x world \<Rightarrow> bool" where
  "grows w w' \<longleftrightarrow> prefix (wd_invals w) (wd_invals w') \<and> prefix (wd_refreshes w) (wd_refreshes w')"

lemma grows_refl [simp]: "grows w w"
  by (simp add: grows_def)

lemma grows_trans: "grows u v \<Longrightarrow> grows v w \<Longrightarrow> grows u w"
  unfolding grows_def by (meson prefix_order.trans)

lemma grows_store [simp]: "grows w (w'\<lparr>wd_store := x\<rparr>) = grows w w'"
  by (simp add: grows_def)

lemma grows_shared:
  "grows w (fst (l2_get (shared_env env) w k))" "grows w (fst (l2_set (shared_env env) w k d t))"
  "grows w (fst (l2_delete (shared_env env) w k))" "grows w (fst (l2_delete_pattern (shared_env env) w k))"
  "grows w (fst (origin_fetch (shared_env env) w k))" "grows w (fst (publish_inval (shared_env env) w ev))"
  "grows w (fst (publish_refresh (shared_env env) w r))"
  by (auto simp: shared_env_def Let_def case_prod_beta) (auto simp: grows_def)

lemma grows_origin_read: "grows (cm_world s) (cm_world (fst (origin_read (shared_env env) s k)))"
  using grows_shared(5) [of "cm_world s" env k]
  by (auto simp: origin_read_def Let_def case_prod_beta split: sum.split)

lemma grows_fetch_read: "grows (cm_world s) (cm_world (fst (fetch_read (shared_env env) s k)))"
proof -
  have "grows (cm_world s) (cm_world (fst (origin_read (shared_env env) u k)))"
    if "grows (cm_world s) (cm_world u)" for u
    using that grows_origin_read by (rule grows_trans)
  with grows_shared(1) [of "cm_world s" env k] show ?thesis
    by (auto simp: fetch_read_def Let_def case_prod_beta split: sum.split)
qed

lemma grows_invalidate_keys: "grows (cm_world s) (cm_world (fst (cm_invalidate_keys (shared_env env) s ks)))"
proof (induction ks arbitrary: s)
  case (Cons k ks)
  have "grows (cm_world s) (cm_world (fst (cm_invalidate_keys (shared_env env) u ks)))"
    if "grows (cm_world s) (cm_world u)" for u
    using that Cons.IH by (rule grows_trans)
  with grows_shared(3) [of "cm_world s" env k] show ?case
    by (simp add: Let_def case_prod_beta)
qed simp

lemma grows_local: "grows (cm_world s) (cm_world (cm_apply (shared_env env) op s))"
proof (cases op)
  case (CmGet now clk joined k)
  have fetch: "grows (cm_world u) (cm_world (fst (cm_fetch_with_fallback (shared_env env) clk u k)))" for u
    using grows_fetch_read [of u env k]
    by (auto simp: fetch_split fetch_store_def Let_def case_prod_beta split: sum.split fetched.split)
  show ?thesis
    using fetch [of "s\<lparr>cm_l1 := fst (l1_get now (cm_l1 s) k)\<rparr>"]
    by (auto simp: CmGet cm_get_def Let_def case_prod_beta split: option.split sum.split)
next
  case (CmSet clk k req)
  show ?thesis
    using grows_shared(2) [of "cm_world s" env k]
    by (auto simp: CmSet cm_set_def Let_def case_prod_beta split: sum.split)
next
  case (CmInvalidate now ks p)
  let ?u = "fst (cm_invalidate_keys (shared_env env) s ks)"
  have u: "grows (cm_world s) (cm_world ?u)" by (rule grows_invalidate_keys)
  have p: "grows (cm_world s) (fst (l2_delete_pattern (shared_env env) (cm_world ?u) p))"
    using u grows_shared(4) by (rule grows_trans)
  have e: "grows (cm_world s) (fst (publish_inval (shared_env env) w ev))" if "grows (cm_world s) w" for w ev
    using that grows_shared(6) by (rule grows_trans)
  show ?thesis
    using u p by (simp add: CmInvalidate cm_invalidate_def Let_def case_prod_beta e)
next
  case CmPending
  show ?thesis
    using grows_shared(2) [of "cm_world s" env]
    by (auto simp: CmPending cm_run_pending_def Let_def case_prod_beta split: list.split)
next
  case (CmOnInvalidate ev)
  have "cm_world (cm_handle_keys u ks) = cm_world u" for u :: "'a world cm_service" and ks
    by (induction ks arbitrary: u) simp_all
  then show ?thesis by (simp add: CmOnInvalidate cm_handle_invalidate_def Let_def case_prod_beta)
qed (simp_all add: cm_cleanup_tick_def cm_publish_invalidation_def cm_publish_refresh_def cm_handle_refresh_def
    cm_set_l2_cache_def cm_set_origin_def cm_shutdown_def case_prod_beta Let_def grows_shared)

lemma handle_world [simp]: "cm_world (cm_handle_invalidate s ev) = cm_world s"
proof -
  have "cm_world (cm_handle_keys u ks) = cm_world u" for u :: "'a cm_service" and ks
    by (induction ks arbitrary: u) simp_all
  then show ?thesis by (simp add: cm_handle_invalidate_def Let_def case_prod_beta)
qed

lemma simple_worlds [simp]:
  "cm_world (fst (get_lookup now s k)) = cm_world s" "cm_world (fst (fetch_store clk s k f)) = cm_world s"
  "cm_world (cm_handle_refresh now s r) = cm_world s"
  by (simp_all add: get_lookup_def fetch_store_def cm_handle_refresh_def Let_def case_prod_beta split: fetched.split)

lemma bus_key: "prefix (is_bus s) (is_bus (fst (inv_key (topic_env fail ext codec) clk s req)))"
  by (auto simp: inv_key_def topic_env_def Let_def split: option.split)

lemma bus_pattern: "prefix (is_bus s) (is_bus (fst (inv_pattern (topic_env fail ext codec) clk s req)))"
  by (auto simp: inv_pattern_def topic_env_def Let_def case_prod_beta split: option.split)

section \<open>The coherence invariant\<close>

abbreviation l1_at :: "'x cluster \<Rightarrow> nat \<Rightarrow> l1_cache" where
  "l1_at c i \<equiv> cm_l1 (cl_nodes c i)"

abbreviation events :: "'x cluster \<Rightarrow> inval_event list" where
  "events c \<equiv> wd_invals (cl_world c)"

text \<open>
  The side condition under which the caches are coherent: no event is delivered to an instance while a
  fetch of a key it matches is running there that read its value before the event was published, and no
  refresh is delivered after an invalidation of its key that was published after it.
\<close>

fun orderly :: "'x action \<Rightarrow> 'x cluster \<Rightarrow> bool" where
  "orderly (Deliver i n) c \<longleftrightarrow> (\<forall>(k, f, m) \<in> set (cl_flights c i). ev_matches (events c ! n) k \<longrightarrow> n < m)"
| "orderly (DeliverRefresh i now j) c \<longleftrightarrow>
     (\<forall>n \<in> cl_acked c i. ev_matches (events c ! n) (re_key (fst (wd_refreshes (cl_world c) ! j))) \<longrightarrow>
        n < snd (wd_refreshes (cl_world c) ! j))"
| "orderly _ c \<longleftrightarrow> True"

text \<open>Every entry and every value of a running fetch is younger than every delivered event about its key.\<close>

definition coherent :: "'x cluster \<Rightarrow> bool" where
  "coherent c \<longleftrightarrow> (\<forall>i. l1_inv (l1_at c i)) \<and> (\<forall>i. \<forall>n \<in> cl_acked c i. n < published c) \<and>
     (\<forall>i. \<forall>n \<in> cl_acked c i. \<forall>k. l1_content (l1_at c i) k \<noteq> None \<longrightarrow> ev_matches (events c ! n) k \<longrightarrow>
        n < cl_since c i k) \<and>
     (\<forall>i. \<forall>n \<in> cl_acked c i. \<forall>(k, f, m) \<in> set (cl_flights c i). ev_matches (events c ! n) k \<longrightarrow> n < m)"

lemma coherentD:
  assumes "coherent c"
  shows "l1_inv (l1_at c i)" "n \<in> cl_acked c i \<Longrightarrow> n < published c"
    "n \<in> cl_acked c i \<Longrightarrow> l1_content (l1_at c i) k \<noteq> None \<Longrightarrow> ev_matches (events c ! n) k \<Longrightarrow> n < cl_since c i k"
    "n \<in> cl_acked c i \<Longrightarrow> (k, f, m) \<in> set (cl_flights c i) \<Longrightarrow> ev_matches (events c ! n) k \<Longrightarrow> n < m"
  using assms unfolding coherent_def by blast+

lemma coherent_start: "coherent (cl_start x)"
  by (simp add: coherent_def cl_start_def Let_def cm_init_def l1_new_refines)

text \<open>A step of one instance that writes at most the key \<open>w\<close> and receives nothing.\<close>

lemma coherent_one:
  assumes c: "coherent c" and log: "prefix (events c) (events c')"
    and others: "\<And>j. j \<noteq> i \<Longrightarrow> l1_at c' j = l1_at c j \<and> cl_since c' j = cl_since c j \<and> cl_flights c' j = cl_flights c j"
    and acked: "cl_acked c' = cl_acked c"
    and keeps: "keeps_within w (l1_at c i) (l1_at c' i)"
    and since: "\<And>k. w \<noteq> Some k \<Longrightarrow> cl_since c' i k = cl_since c i k"
    and fresh: "\<And>k n. w = Some k \<Longrightarrow> n \<in> cl_acked c i \<Longrightarrow> ev_matches (events c ! n) k \<Longrightarrow> n < cl_since c' i k"
    and flights: "\<And>k f m. (k, f, m) \<in> set (cl_flights c' i) \<Longrightarrow> (k, f, m) \<in> set (cl_flights c i) \<or> m = published c"
  shows "coherent c'"
proof -
  have same: "events c' ! n = events c ! n" if "n \<in> cl_acked c j" for j n
  proof -
    have "n < length (events c)" using coherentD(2) [OF c that] by (simp add: published_def)
    with log show ?thesis by (auto simp: prefix_def nth_append)
  qed
  have pub: "published c \<le> published c'" using log by (simp add: published_def prefix_length_le)
  have entries: "n < cl_since c' j k"
    if "n \<in> cl_acked c j" "l1_content (l1_at c' j) k \<noteq> None" "ev_matches (events c ! n) k" for j n k
  proof (cases "j = i")
    case True
    show ?thesis
    proof (cases "w = Some k")
      case False
      with keeps that True have "l1_content (l1_at c i) k \<noteq> None" unfolding keeps_within_def by blast
      with coherentD(3) [OF c] that since [OF False] True show ?thesis by simp
    qed (use fresh that True in blast)
  qed (use others coherentD(3) [OF c] that in auto)
  have running: "n < m"
    if "n \<in> cl_acked c j" "(k, f, m) \<in> set (cl_flights c' j)" "ev_matches (events c ! n) k" for j n k f m
  proof (cases "j = i")
    case True
    with flights that coherentD(2,4) [OF c] show ?thesis by blast
  qed (use others coherentD(4) [OF c] that in auto)
  have "l1_inv (l1_at c' j)" for j
    using keeps others [of j] coherentD(1) [OF c, of j] by (cases "j = i") (simp_all add: keeps_within_def)
  moreover have "n < published c'" if "n \<in> cl_acked c j" for j n
    using coherentD(2) [OF c that] pub by simp
  ultimately show ?thesis
    unfolding coherent_def acked using entries running by (auto simp: same)
qed

text \<open>The delivery of an event.\<close>

lemma coherent_deliver:
  assumes c: "coherent c" and n: "n < published c" and ok: "orderly (Deliver i n) c"
  shows "coherent (cl_apply env ienv (Deliver i n) c)"
proof -
  let ?c = "cl_apply env ienv (Deliver i n) c"
  have l1: "l1_at ?c j = (if j = i then inval_l1 (l1_at c i) (ie_keys (events c ! n)) (ie_pattern (events c ! n))
      else l1_at c j)" for j
    by (simp add: on_node_def Let_def cm_handle_l1)
  have rest: "events ?c = events c" "cl_since ?c = cl_since c" "cl_flights ?c = cl_flights c"
    "cl_acked ?c = (cl_acked c)(i := insert n (cl_acked c i))" "published ?c = published c"
    by (simp_all add: on_node_def Let_def published_def)
  have inv: "l1_inv (l1_at c j)" for j by (rule coherentD(1) [OF c])
  have content: "l1_content (l1_at ?c j) k =
      (if j = i \<and> ev_matches (events c ! n) k then None else l1_content (l1_at c j) k)" for j k
    unfolding l1 by (simp add: inval_content [OF inv] ev_matches_def)
  have "l1_inv (l1_at ?c j)" for j
    unfolding l1 using l1_steps_inv [OF l1_steps_inval inv] inv by simp
  moreover have "m < cl_since c j k" if "m \<in> cl_acked ?c j" "l1_content (l1_at ?c j) k \<noteq> None"
      "ev_matches (events c ! m) k" for j m k
    using that coherentD(3) [OF c] unfolding content rest by (auto split: if_splits)
  moreover have "m < p" if "m \<in> cl_acked ?c j" "(k, f, p) \<in> set (cl_flights c j)" "ev_matches (events c ! m) k"
      for j m k f p
    using that coherentD(4) [OF c] ok unfolding rest by (auto split: if_splits)
  moreover have "m < published c" if "m \<in> cl_acked ?c j" for j m
    using that coherentD(2) [OF c] n unfolding rest by (auto split: if_splits)
  ultimately show ?thesis unfolding coherent_def rest(1-3,5) by blast
qed

text \<open>The state after an operation of one instance.\<close>

lemma on_node_simps [simp]:
  "l1_at (on_node i f c) j = (if j = i then cm_l1 (f ((cl_nodes c i)\<lparr>cm_world := cl_world c\<rparr>)) else l1_at c j)"
  "cl_world (on_node i f c) = cm_world (f ((cl_nodes c i)\<lparr>cm_world := cl_world c\<rparr>))"
  "cl_since (on_node i f c) = cl_since c" "cl_flights (on_node i f c) = cl_flights c"
  "cl_acked (on_node i f c) = cl_acked c" "cl_inval (on_node i f c) = cl_inval c"
  by (simp_all add: on_node_def Let_def)

lemma mark_simps [simp]:
  "cl_nodes (mark i k n c) = cl_nodes c" "cl_world (mark i k n c) = cl_world c"
  "cl_flights (mark i k n c) = cl_flights c" "cl_acked (mark i k n c) = cl_acked c"
  "cl_since (mark i k n c) j = (if j = i then (cl_since c i)(k := n) else cl_since c j)"
  by (simp_all add: mark_def)

lemma on_inval_simps [simp]:
  "cl_nodes (on_inval f c) = cl_nodes c" "cl_since (on_inval f c) = cl_since c"
  "cl_flights (on_inval f c) = cl_flights c" "cl_acked (on_inval f c) = cl_acked c"
  "wd_invals (cl_world (on_inval f c)) = is_bus (f ((cl_inval c)\<lparr>is_bus := events c\<rparr>))"
  "wd_store (cl_world (on_inval f c)) = wd_store (cl_world c)"
  by (simp_all add: on_inval_def Let_def)

lemma keeps_world: "keeps_within w (cm_l1 (s\<lparr>cm_world := x\<rparr>)) c \<Longrightarrow> keeps_within w (cm_l1 s) c"
  by simp

lemma grows_events: "grows (cl_world c) w \<Longrightarrow> prefix (events c) (wd_invals w)"
  by (simp add: grows_def)

lemma coherent_fetch:
  assumes c: "coherent c"
  shows "coherent (cl_apply env ienv (Fetch i k) c)"
proof -
  let ?s = "(cl_nodes c i)\<lparr>cm_world := cl_world c\<rparr>" and ?c = "cl_apply env ienv (Fetch i k) c"
  have log: "prefix (events c) (events ?c)"
    using grows_events [of c] grows_fetch_read [of ?s env k]
    by (auto simp: Let_def split: sum.split)
  have l1: "l1_at ?c j = l1_at c j" for j
    by (auto simp: Let_def split: sum.split)
  have same: "cl_since ?c = cl_since c" "cl_acked ?c = cl_acked c" by (auto simp: Let_def split: sum.split)
  have fl: "cl_flights ?c j = cl_flights c j \<or> (\<exists>f. j = i \<and> cl_flights ?c j = (k, f, published c) # cl_flights c i)" for j
    by (auto simp: Let_def split: sum.split)
  show ?thesis
  proof (rule coherent_one [OF c log, where i = i and w = None])
    show "keeps_within None (l1_at c i) (l1_at ?c i)" unfolding l1 by (rule keeps_same [OF coherentD(1) [OF c]])
    show "l1_at ?c j = l1_at c j \<and> cl_since ?c j = cl_since c j \<and> cl_flights ?c j = cl_flights c j" if "j \<noteq> i" for j
      using fl [of j] l1 same that by auto
    show "(k', f, m) \<in> set (cl_flights c i) \<or> m = published c" if "(k', f, m) \<in> set (cl_flights ?c i)" for k' f m
      using fl [of i] that by auto
  qed (use same in simp_all)
qed

lemma coherent_store:
  assumes c: "coherent c" and run: "map_of (cl_flights c i) k = Some (f, m)"
  shows "coherent (cl_apply env ienv (Store i clk k) c)"
proof -
  let ?c = "cl_apply env ienv (Store i clk k) c"
  have fl: "(k, f, m) \<in> set (cl_flights c i)" using run by (rule map_of_SomeD)
  show ?thesis
  proof (rule coherent_one [OF c, where i = i and w = "Some k"])
    have "keeps_within (Some k) (cm_l1 ((cl_nodes c i)\<lparr>cm_world := cl_world c\<rparr>))
        (cm_l1 (fst (fetch_store clk ((cl_nodes c i)\<lparr>cm_world := cl_world c\<rparr>) k f)))"
      by (rule keeps_store) (simp add: coherentD(1) [OF c])
    then show "keeps_within (Some k) (l1_at c i) (l1_at ?c i)" using run by (simp add: Let_def)
    show "n < cl_since ?c i k'" if "Some k = Some k'" "n \<in> cl_acked c i" "ev_matches (events c ! n) k'" for k' n
      using that coherentD(4) [OF c _ fl] run by (simp add: Let_def)
  qed (use run in \<open>auto simp: Let_def al_delete_in\<close>)
qed

lemma coherent_local:
  assumes c: "coherent c" and en: "cl_enabled (Local i op) c"
  shows "coherent (cl_apply env ienv (Local i op) c)"
proof -
  let ?s = "(cl_nodes c i)\<lparr>cm_world := cl_world c\<rparr>" and ?c = "cl_apply env ienv (Local i op) c"
  have l1: "l1_at ?c j = (if j = i then cm_l1 (cm_apply (shared_env env) op ?s) else l1_at c j)" for j
    by (simp add: Let_def split: option.split)
  have rest: "cl_flights ?c = cl_flights c" "cl_acked ?c = cl_acked c"
    "cl_since ?c j k = (if j = i \<and> writes op = Some k then published c else cl_since c j k)" for j k
    by (auto simp: Let_def split: option.split)
  show ?thesis
  proof (rule coherent_one [OF c, where i = i and w = "writes op"])
    show "prefix (events c) (events ?c)"
      using grows_events [of c] grows_local [of ?s env op] by (auto simp: Let_def split: option.split)
    have "l1_inv (cm_l1 ?s)" by (simp add: coherentD(1) [OF c])
    from keeps_local [OF this en] show "keeps_within (writes op) (l1_at c i) (l1_at ?c i)" unfolding l1 by simp
  qed (unfold l1 rest, use coherentD(2) [OF c] in \<open>simp_all add: rest(3) fun_eq_iff\<close>)
qed

lemma coherent_refresh:
  assumes c: "coherent c" and ok: "orderly (DeliverRefresh i now j) c"
  shows "coherent (cl_apply env ienv (DeliverRefresh i now j) c)"
proof -
  obtain ev n where ev: "wd_refreshes (cl_world c) ! j = (ev, n)" by fastforce
  let ?s = "(cl_nodes c i)\<lparr>cm_world := cl_world c\<rparr>"
  show ?thesis
  proof (rule coherent_one [OF c, where i = i and w = "Some (re_key ev)"])
    have "l1_inv (cm_l1 ?s)" by (simp add: coherentD(1) [OF c])
    from keeps_refresh [OF this, of ev now]
    show "keeps_within (Some (re_key ev)) (l1_at c i) (l1_at (cl_apply env ienv (DeliverRefresh i now j) c) i)"
      by (simp add: ev)
  qed (use ok in \<open>auto simp: ev\<close>)
qed

lemma coherent_step:
  assumes c: "coherent c" and step: "cl_step env (topic_env fail ext codec) a c c'" and ok: "orderly a c"
  shows "coherent c'"
  using step
proof
  assume en: "cl_enabled a c" and c': "c' = cl_apply env (topic_env fail ext codec) a c"
  show ?thesis
  proof (cases a)
    case (Lookup i now k)
    have "l1_inv (cm_l1 ((cl_nodes c i)\<lparr>cm_world := cl_world c\<rparr>))" by (simp add: coherentD(1) [OF c])
    from keeps_lookup [OF this, of None now k] show ?thesis
      unfolding c' Lookup by (intro coherent_one [OF c, where i = i and w = None]) simp_all
  next
    case (Store i clk k)
    with en obtain f m where "map_of (cl_flights c i) k = Some (f, m)" by auto
    then show ?thesis unfolding c' Store by (rule coherent_store [OF c])
  next
    case (KeyRequest clk req)
    show ?thesis unfolding c' KeyRequest
      using bus_key [of "(cl_inval c)\<lparr>is_bus := events c\<rparr>" "fail" ext codec clk req]
      by (intro coherent_one [OF c, where i = 0 and w = None]) (simp_all add: keeps_same coherentD(1) [OF c])
  next
    case (PatternRequest clk req)
    show ?thesis unfolding c' PatternRequest
      using bus_pattern [of "(cl_inval c)\<lparr>is_bus := events c\<rparr>" "fail" ext codec clk req]
      by (intro coherent_one [OF c, where i = 0 and w = None]) (simp_all add: keeps_same coherentD(1) [OF c])
  next
    case (Outside x)
    show ?thesis unfolding c' Outside
      by (intro coherent_one [OF c, where i = 0 and w = None]) (simp_all add: keeps_same coherentD(1) [OF c])
  next
    case (Fetch i k)
    show ?thesis unfolding c' Fetch by (rule coherent_fetch [OF c])
  next
    case (Local i op)
    show ?thesis unfolding c' Local by (rule coherent_local [OF c en [unfolded Local]])
  next
    case (Deliver i n)
    with en have "n < published c" by simp
    then show ?thesis unfolding c' Deliver by (rule coherent_deliver [OF c _ ok [unfolded Deliver]])
  next
    case (DeliverRefresh i now j)
    show ?thesis unfolding c' DeliverRefresh by (rule coherent_refresh [OF c ok [unfolded DeliverRefresh]])
  qed
qed

lemma coherent_reach:
  assumes "cl_reach env (topic_env fail ext codec) orderly (cl_start x) c"
  shows "coherent c"
  using assms
proof induction
  case start
  show ?case by (rule coherent_start)
next
  case (step c a c')
  from coherent_step [OF step.IH step.hyps(2,3)] show ?case .
qed

section \<open>Instances that do not take part\<close>

text \<open>The instance that performs a step, if any; the steps of an invalidation by the service.\<close>

fun actor :: "'x action \<Rightarrow> nat option" where
  "actor (Lookup i now k) = Some i"
| "actor (Fetch i k) = Some i"
| "actor (Store i clk k) = Some i"
| "actor (Local i op) = Some i"
| "actor (Deliver i n) = Some i"
| "actor (DeliverRefresh i now j) = Some i"
| "actor _ = None"

fun invalidating :: "'x action \<Rightarrow> bool" where
  "invalidating (KeyRequest clk req) = True"
| "invalidating (PatternRequest clk req) = True"
| "invalidating (Deliver i n) = True"
| "invalidating _ = False"

lemma on_node_other: "j \<noteq> i \<Longrightarrow> cl_nodes (on_node i f c) j = cl_nodes c j"
  by (simp add: on_node_def Let_def)

lemma node_unchanged: "actor a \<noteq> Some j \<Longrightarrow> cl_nodes (cl_apply env ienv a c) j = cl_nodes c j"
proof (cases a)
  case (Fetch i k)
  then show "actor a \<noteq> Some j \<Longrightarrow> ?thesis" by (auto simp: Let_def on_node_other split: sum.split)
qed (auto simp: Let_def on_node_other split: option.split prod.split)

lemma reach_node_unchanged:
  assumes "cl_reach env ienv (\<lambda>a _. actor a \<noteq> Some j) c c'"
  shows "cl_nodes c' j = cl_nodes c j"
  using assms by induction (auto simp: node_unchanged)

lemma handle_keeps:
  "cm_has_l2 (cm_handle_invalidate s ev) = cm_has_l2 s" "cm_cfg (cm_handle_invalidate s ev) = cm_cfg s"
proof -
  have "cm_has_l2 (cm_handle_keys u ks) = cm_has_l2 u \<and> cm_cfg (cm_handle_keys u ks) = cm_cfg u"
    for u :: "'a cm_service" and ks by (induction ks arbitrary: u) simp_all
  then show "cm_has_l2 (cm_handle_invalidate s ev) = cm_has_l2 s" "cm_cfg (cm_handle_invalidate s ev) = cm_cfg s"
    by (simp_all add: cm_handle_invalidate_def Let_def case_prod_beta)
qed

lemma invalidating_keeps:
  assumes "invalidating a"
  shows "wd_store (cl_world (cl_apply env ienv a c)) = wd_store (cl_world c) \<and>
    cm_uses_l2 (cl_nodes (cl_apply env ienv a c) i) = cm_uses_l2 (cl_nodes c i)"
proof (cases a)
  case (Deliver j n)
  then show ?thesis by (simp add: Let_def on_node_def cm_uses_l2_def handle_keeps)
qed (use assms in simp_all)

lemma reach_invalidating:
  assumes "cl_reach env ienv (\<lambda>a _. invalidating a) c c'"
  shows "wd_store (cl_world c') = wd_store (cl_world c) \<and> cm_uses_l2 (cl_nodes c' i) = cm_uses_l2 (cl_nodes c i)"
  using assms by induction (auto simp: invalidating_keeps)

lemma cm_set_keeps_events:
  "wd_invals (cm_world (fst (cm_set (shared_env env) clk s k req))) = wd_invals (cm_world s)"
  by (simp add: cm_set_def shared_env_def Let_def case_prod_beta split: sum.split)

text \<open>Runs given as a list of steps, for concrete states.\<close>

fun run_ok ::
    "('x, 'v) cm_env \<Rightarrow> inval_event list inv_env \<Rightarrow> ('x action \<Rightarrow> 'x cluster \<Rightarrow> bool) \<Rightarrow> 'x action list \<Rightarrow> 'x cluster \<Rightarrow> bool" where
  "run_ok env ienv side [] c = True"
| "run_ok env ienv side (a # as) c = (cl_enabled a c \<and> side a c \<and> run_ok env ienv side as (cl_apply env ienv a c))"

definition run_list ::
    "('x, 'v) cm_env \<Rightarrow> inval_event list inv_env \<Rightarrow> 'x action list \<Rightarrow> 'x cluster \<Rightarrow> 'x cluster" where
  "run_list env ienv as c = fold (cl_apply env ienv) as c"

lemma reach_list:
  "cl_reach env ienv side c0 c \<Longrightarrow> run_ok env ienv side as c \<Longrightarrow> cl_reach env ienv side c0 (run_list env ienv as c)"
proof (induction as arbitrary: c)
  case (Cons a as)
  then have "cl_reach env ienv side c0 (cl_apply env ienv a c)"
    by (auto intro: cl_reach.step cl_step.intros)
  with Cons show ?case by (simp add: run_list_def)
qed (simp add: run_list_def)

section \<open>Properties\<close>

text \<open>
  Further result.  A \<open>Get\<close> that runs by itself is its three steps: the lookup in the level-1 cache, the read from
  the level-2 cache or the origin, and the store, on every branch and with the same errors and counters.
\<close>

theorem get_in_steps:
  "cm_get env now clk None s key =
     (if key = [] then (s, None, Some (ErrMsg ''key cannot be empty''))
      else case get_lookup now s key of
        (s, Some e) \<Rightarrow> (s, Some (entry_to_response e ''l1''), None)
      | (s, None) \<Rightarrow>
          (case fetch_read env s key of
             (s, Inl err) \<Rightarrow> (cm_count inc_misses s, Some miss_response, Some err)
           | (s, Inr f) \<Rightarrow>
               (let (s, e) = fetch_store clk s key f in (s, Some (entry_to_response e (ce_source e)), None))))"
  by (rule get_split)


text \<open>
  Property C10.  The side condition is needed: if an event about a key is delivered while a fetch of the key is
  running that read its value before the event was published, the fetch then stores the old value, and
  the instance serves it for the whole default lifetime although it has processed the event.
\<close>

theorem fetch_overtaken_by_invalidation:
  assumes "l1_inv (cm_l1 (cl_nodes c i))" and "map_of (cl_flights c i) k = Some (FromOrigin v, m)"
    and "m \<le> n" and "ev_matches (wd_invals (cl_world c) ! n) k"
    and "now \<le> time_add (clk 3) (cfg_default_ttl (cm_cfg (cl_nodes c i)))"
  shows "let c' = cl_apply env ienv (Store i clk k) (cl_apply env ienv (Deliver i n) c)
    in n \<in> cl_acked c' i \<and> cl_since c' i k \<le> n \<and>
       map_option ce_value (snd (get_lookup now (cl_nodes c' i) k)) = Some v"
proof -
  let ?d = "cl_apply env ienv (Deliver i n) c"
  let ?c = "cl_apply env ienv (Store i clk k) ?d"
  let ?s = "(cl_nodes ?d i)\<lparr>cm_world := cl_world ?d\<rparr>"
  have inv: "l1_inv (cm_l1 ?s)"
    using l1_steps_inv [OF l1_steps_inval assms(1)] by (simp add: Let_def on_node_def cm_handle_l1)
  have cfg: "cm_cfg ?s = cm_cfg (cl_nodes c i)" by (simp add: Let_def on_node_def handle_keeps)
  have run: "map_of (cl_flights ?d i) k = Some (FromOrigin v, m)" using assms(2) by (simp add: Let_def)
  have l1: "l1_at ?c i = l1_set (clk 3) (cm_l1 ?s) k v (cfg_default_ttl (cm_cfg ?s))"
    using run by (subst cl_apply.simps) (simp add: Let_def fetch_store_def del: cl_apply.simps)
  have content: "l1_content (l1_at ?c i) k = Some (v, time_add (clk 3) (cfg_default_ttl (cm_cfg (cl_nodes c i))))"
    unfolding l1 cfg by (rule l1.set_same [OF inv])
  have inv': "l1_inv (l1_at ?c i)" unfolding l1 by (rule l1.set_invar [OF inv])
  have "n \<in> cl_acked ?c i \<and> cl_since ?c i k \<le> n"
    using run assms(3) by (simp add: Let_def)
  moreover have "map_option ce_value (snd (get_lookup now (cl_nodes ?c i) k)) = Some v"
    using l1.get_result [OF inv', of now k] content assms(5)
    by (simp add: get_lookup_def case_prod_beta Let_def time_after_def del: cl_apply.simps)
  ultimately show ?thesis by (simp add: Let_def del: cl_apply.simps)
qed

text \<open>
  Further result.  A write is not broadcast: a \<open>Set\<close> on one instance publishes nothing, and whatever happens
  elsewhere afterwards, another instance that holds the key keeps serving the value it had, up to its
  expiry.
\<close>

theorem set_not_broadcast:
  assumes "i \<noteq> j" and "l1_inv (cm_l1 (cl_nodes c j))"
    and "l1_content (cm_l1 (cl_nodes c j)) k = Some (old, expiry)" and "now \<le> expiry"
    and "cl_reach env ienv (\<lambda>a _. actor a \<noteq> Some j) (cl_apply env ienv (Local i (CmSet clk k req)) c) c'"
  shows "wd_invals (cl_world (cl_apply env ienv (Local i (CmSet clk k req)) c)) = wd_invals (cl_world c) \<and>
    map_option ce_value (snd (get_lookup now (cl_nodes c' j) k)) = Some old"
proof -
  have "cl_nodes c' j = cl_nodes c j"
    using reach_node_unchanged [OF assms(5)] node_unchanged [of "Local i (CmSet clk k req)" j env ienv c] assms(1)
    by (simp del: cl_apply.simps)
  moreover have "map_option ce_value (snd (get_lookup now (cl_nodes c j) k)) = Some old"
    using l1.get_result [OF assms(2), of now k] assms(3,4)
    by (simp add: get_lookup_def case_prod_beta Let_def time_after_def)
  moreover have "wd_invals (cl_world (cl_apply env ienv (Local i (CmSet clk k req)) c)) = wd_invals (cl_world c)"
    by (simp add: Let_def cm_set_keeps_events)
  ultimately show ?thesis by simp
qed

text \<open>
  Property C11.  The invalidation service does not reach the level-2 cache: after requests to it and any
  deliveries of their events, an instance that no longer holds a key reads the old entry from the level-2
  cache again and returns it as a hit.
\<close>

theorem invalidation_leaves_l2:
  assumes "cl_reach env ienv (\<lambda>a _. invalidating a) c c'" and "cm_uses_l2 (cl_nodes c i)" and "k \<noteq> []"
    and "l2_get env (wd_store (cl_world c)) k = (x, Inr (data, True))" and "unmarshal_entry env data = Inr e"
    and "snd (get_lookup now (cl_nodes c' i) k) = None"
  shows "snd (cm_get (shared_env env) now clk None ((cl_nodes c' i)\<lparr>cm_world := cl_world c'\<rparr>) k) =
    (Some (entry_to_response e ''l2''), None)"
proof -
  let ?s = "(cl_nodes c' i)\<lparr>cm_world := cl_world c'\<rparr>"
  have look: "get_lookup now ?s k = (?s\<lparr>cm_l1 := fst (l1_get now (l1_at c' i) k)\<rparr>, None)"
    using assms(6) by (auto simp: get_lookup_def case_prod_beta Let_def split: if_splits)
  have store: "wd_store (cl_world c') = wd_store (cl_world c)" and l2: "cm_uses_l2 (cl_nodes c' i)"
    using reach_invalidating [OF assms(1), of i] assms(2) by simp_all
  then have "snd (fetch_read (shared_env env) (?s\<lparr>cm_l1 := l\<rparr>) k) = Inr (FromL2 e)" for l
    using assms(4,5) by (simp add: fetch_read_def shared_env_def cm_uses_l2_def Let_def)
  then show ?thesis
    using assms(3) unfolding get_split look
    by (auto simp: Let_def fetch_store_def case_prod_beta entry_to_response_def split: sum.split prod.split)
qed

section \<open>Witnesses\<close>

text \<open>An origin that holds one value, the store; without a level-2 cache, or with one that holds it too.\<close>

definition one_value_env :: "(json, json) cm_env" where
  "one_value_env = \<lparr>l2_get = (\<lambda>x k. (x, Inr (x, True))), l2_set = (\<lambda>x k v t. (v, None)),
     l2_delete = (\<lambda>x k. (x, None)), l2_delete_pattern = (\<lambda>x k. (x, None)),
     origin_fetch = (\<lambda>x k. (x, Inr x)),
     publish_inval = (\<lambda>x ev. (x, None)), publish_refresh = (\<lambda>x ev. (x, None)),
     marshal_value = Inr, marshal_entry = (\<lambda>e. Inr (ce_value e)),
     unmarshal_entry = (\<lambda>d. Inr \<lparr>ce_value = d, ce_cached_at = 0, ce_expires_at = 100, ce_source = []\<rparr>)\<rparr>"

definition demo_topic :: "inval_event list inv_env" where
  "demo_topic = topic_env (\<lambda>_. None) (\<lambda>_. Inl (ErrMsg [])) \<lparr>kc_enc = (\<lambda>ks. Inr (concat ks)), kc_dec = (\<lambda>d. Inr [d])\<rparr>"

definition key_request :: "string \<Rightarrow> json action" where
  "key_request k = KeyRequest (\<lambda>_. 0) \<lparr>iq_keys = [k], iq_pattern = [], iq_by = [], iq_request = ''r'', iq_cache_keys = []\<rparr>"

definition demo_set :: "json \<Rightarrow> cm_op" where
  "demo_set v = CmSet (\<lambda>_. 0) ''k'' \<lparr>sr_value = v, sr_ttl = 60\<rparr>"

lemmas cluster_evals = run_list_def key_request_def demo_set_def cl_start_def inv_key_def topic_env_def
  deduplicate_keys_def ev_matches_def published_def on_inval_def on_node_def mark_def Let_def cm_set_def
  cm_init_def cm_uses_l2_def cm_default_config_def shared_env_def one_value_env_def demo_topic_def
  fetch_read_def origin_read_def cm_set_origin_def cm_set_l2_cache_def


text \<open>The origin changes its value, the change is announced, and the instance serves the old value.\<close>

theorem fetch_overtaken_by_invalidation_witness:
  "let c = run_list one_value_env demo_topic [Local 0 (CmSetOrigin True), Fetch 0 ''k'', Outside ''2'', key_request ''k''] (cl_start ''1'');
       c' = cl_apply one_value_env demo_topic (Store 0 (\<lambda>_. 0) ''k'') (cl_apply one_value_env demo_topic (Deliver 0 0) c)
   in wd_store (cl_world c') = ''2'' \<and> 0 \<in> cl_acked c' 0 \<and> cl_since c' 0 ''k'' \<le> 0 \<and>
      map_option ce_value (snd (get_lookup 5 (cl_nodes c' 0) ''k'')) = Some ''1''"
proof -
  let ?c = "run_list one_value_env demo_topic [Local 0 (CmSetOrigin True), Fetch 0 ''k'', Outside ''2'', key_request ''k''] (cl_start ''1'')"
  have inv: "l1_inv (cm_l1 (cl_nodes ?c 0))"
    by (simp add: cluster_evals l1_new_refines)
  have run: "map_of (cl_flights ?c 0) ''k'' = Some (FromOrigin ''1'', 0)"
    by (simp add: cluster_evals)
  have m: "ev_matches (wd_invals (cl_world ?c) ! 0) ''k''" "5 \<le> time_add 0 (cfg_default_ttl (cm_cfg (cl_nodes ?c 0)))"
    by (simp_all add: cluster_evals time_add_def time_units)
  have "wd_store (cl_world (cl_apply one_value_env demo_topic (Store 0 (\<lambda>_. 0) ''k'')
      (cl_apply one_value_env demo_topic (Deliver 0 0) ?c))) = ''2''"
    by (simp add: cluster_evals)
  with fetch_overtaken_by_invalidation [OF inv run _ m(1), of 5 "\<lambda>_. 0" one_value_env demo_topic] m(2)
  show ?thesis by (simp add: Let_def del: cl_apply.simps)
qed

theorem set_not_broadcast_witness:
  "let c = run_list one_value_env demo_topic [Local 1 (demo_set ''1'')] (cl_start ''0'');
       c' = cl_apply one_value_env demo_topic (Local 0 (demo_set ''2'')) c
   in map_option ce_value (snd (get_lookup 5 (cl_nodes c' 1) ''k'')) = Some ''1''"
proof -
  let ?c = "run_list one_value_env demo_topic [Local 1 (demo_set ''1'')] (cl_start ''0'')"
  have l1: "cm_l1 (cl_nodes ?c 1) = l1_set 0 (l1_new 10000) ''k'' ''1'' (dur_mul 60 second)"
    by (simp add: cluster_evals)
  have inv: "l1_inv (cm_l1 (cl_nodes ?c 1))"
    unfolding l1 by (rule l1.set_invar [OF l1_new_refines(1)])
  have held: "l1_content (cm_l1 (cl_nodes ?c 1)) ''k'' = Some (''1'', time_add 0 (dur_mul 60 second))"
    unfolding l1 by (rule l1.set_same [OF l1_new_refines(1)])
  have "(5::int) \<le> time_add 0 (dur_mul 60 second)"
    by (simp add: time_add_def dur_mul_def second_def in_i64_def)
  from set_not_broadcast [OF _ inv held this cl_reach.start, of 0 one_value_env demo_topic "\<lambda>_. 0"
      "\<lparr>sr_value = ''2'', sr_ttl = 60\<rparr>"] show ?thesis
    by (simp add: demo_set_def Let_def del: cl_apply.simps)
qed

theorem invalidation_leaves_l2_witness:
  "let c = run_list one_value_env demo_topic [Local 0 (CmSetL2 True), Local 0 (demo_set ''1'')] (cl_start ''0'');
       c' = run_list one_value_env demo_topic [key_request ''k'', Deliver 0 0] c
   in map_option gr_value (fst (snd (cm_get (shared_env one_value_env) 0 (\<lambda>_. 0) None
        ((cl_nodes c' 0)\<lparr>cm_world := cl_world c'\<rparr>) ''k''))) = Some ''1''"
proof -
  let ?c = "run_list one_value_env demo_topic [Local 0 (CmSetL2 True), Local 0 (demo_set ''1'')] (cl_start ''0'')"
  let ?c' = "run_list one_value_env demo_topic [key_request ''k'', Deliver 0 0] ?c"
  let ?e = "\<lparr>ce_value = ''1'', ce_cached_at = 0, ce_expires_at = 100, ce_source = []\<rparr> :: cache_entry"
  have reach: "cl_reach one_value_env demo_topic (\<lambda>a _. invalidating a) ?c ?c'"
    by (rule reach_list [OF cl_reach.start]) (simp add: cluster_evals)
  have l2: "cm_uses_l2 (cl_nodes ?c 0)" "l2_get one_value_env (wd_store (cl_world ?c)) ''k'' = (''1'', Inr (''1'', True))"
    by (simp_all add: cluster_evals)
  have l1: "cm_l1 (cl_nodes ?c' 0) = inval_l1 (l1_set 0 (l1_new 10000) ''k'' ''1'' (dur_mul 60 second)) [''k''] []"
    by (simp add: cluster_evals cm_handle_l1)
  have inv: "l1_inv (l1_set 0 (l1_new 10000) ''k'' ''1'' (dur_mul 60 second))"
    by (rule l1.set_invar [OF l1_new_refines(1)])
  have "snd (l1_get 0 (cm_l1 (cl_nodes ?c' 0)) ''k'') = None"
    using l1.get_result [of "cm_l1 (cl_nodes ?c' 0)" 0 "''k''"] l1_steps_inv [OF l1_steps_inval inv]
    unfolding l1 by (simp add: inval_content [OF inv])
  then have "snd (get_lookup 0 (cl_nodes ?c' 0) ''k'') = None" by (simp add: get_lookup_def case_prod_beta Let_def)
  from invalidation_leaves_l2 [OF reach l2(1) _ l2(2) _ this, of ?e "\<lambda>_. 0"] show ?thesis
    by (simp add: Let_def one_value_env_def entry_to_response_def)
qed

end
