(* ===== verification/Endpoints.thy ===== *)
theory Endpoints
  imports CacheManager Invalidation Scheduler Dashboard Streams Export MonRuns
begin

text \<open>
  The endpoints of the four services and the handlers of their subscriptions: package-level functions that
  check the package variable \<open>svc\<close> and call the method of the service, and the start-up that sets it.  All
  services together are one record, a request to any of them one datatype.
\<close>

section \<open>Calling a service that may not exist\<close>

definition not_initialized :: go_error where
  "not_initialized = ErrMsg ''service not initialized''"

text \<open>\<open>refuse\<close> makes a response of an error.\<close>

definition with_service :: "(go_error \<Rightarrow> 'r) \<Rightarrow> 's option \<Rightarrow> ('s \<Rightarrow> 's \<times> 'r) \<Rightarrow> 's option \<times> 'r" where
  "with_service refuse svc f =
     (case svc of None \<Rightarrow> (None, refuse not_initialized) | Some s \<Rightarrow> (let (s, r) = f s in (Some s, r)))"

text \<open>An endpoint that only reads.\<close>

definition ask_service :: "(go_error \<Rightarrow> 'r) \<Rightarrow> 's option \<Rightarrow> ('s \<Rightarrow> 'r) \<Rightarrow> 'r" where
  "ask_service refuse svc f = (case svc of None \<Rightarrow> refuse not_initialized | Some s \<Rightarrow> f s)"

text \<open>A handler of a subscription acknowledges the message in any case.\<close>

definition on_message :: "'s option \<Rightarrow> ('s \<Rightarrow> 's) \<Rightarrow> 's option \<times> go_error option" where
  "on_message svc f = (case svc of None \<Rightarrow> (None, None) | Some s \<Rightarrow> (Some (f s), None))"

section \<open>Cache manager\<close>

type_synonym clock = "nat \<Rightarrow> time"

definition api_get ::
    "('w, 'v) cm_env \<Rightarrow> time \<Rightarrow> clock \<Rightarrow> cache_entry go_result option \<Rightarrow> 'w cm_service option \<Rightarrow> string \<Rightarrow>
     'w cm_service option \<times> get_response option \<times> go_error option" where
  "api_get env now clk joined svc key =
     with_service (\<lambda>e. (None, Some e)) svc (\<lambda>s. cm_get env now clk joined s key)"

definition api_set ::
    "('w, 'v) cm_env \<Rightarrow> clock \<Rightarrow> 'w cm_service option \<Rightarrow> string \<Rightarrow> set_request \<Rightarrow>
     'w cm_service option \<times> time go_result" where
  "api_set env clk svc key req = with_service Inl svc (\<lambda>s. cm_set env clk s key req)"

definition api_invalidate ::
    "('w, 'v) cm_env \<Rightarrow> time \<Rightarrow> 'w cm_service option \<Rightarrow> string list \<Rightarrow> string \<Rightarrow>
     'w cm_service option \<times> int go_result" where
  "api_invalidate env now svc keys pat =
     with_service Inl svc (\<lambda>s. (let (s, n) = cm_invalidate env now s keys pat in (s, Inr n)))"

definition api_cache_metrics :: "'w cm_service option \<Rightarrow> metrics_response go_result" where
  "api_cache_metrics svc = ask_service Inl svc (\<lambda>s. Inr (cm_get_metrics s))"

definition sub_invalidate :: "'w cm_service option \<Rightarrow> inval_event \<Rightarrow> 'w cm_service option \<times> go_error option" where
  "sub_invalidate svc ev = on_message svc (\<lambda>s. cm_handle_invalidate s ev)"

definition sub_refresh ::
    "time \<Rightarrow> 'w cm_service option \<Rightarrow> refresh_event \<Rightarrow> 'w cm_service option \<times> go_error option" where
  "sub_refresh now svc ev = on_message svc (\<lambda>s. cm_handle_refresh now s ev)"

section \<open>Invalidation\<close>

definition api_invalidate_key ::
    "'b inv_env \<Rightarrow> clock \<Rightarrow> 'b inv_service option \<Rightarrow> inv_request \<Rightarrow> 'b inv_service option \<times> inv_response go_result" where
  "api_invalidate_key env clk svc req = with_service Inl svc (\<lambda>s. inv_key env clk s req)"

definition api_invalidate_pattern ::
    "'b inv_env \<Rightarrow> clock \<Rightarrow> 'b inv_service option \<Rightarrow> inv_request \<Rightarrow> 'b inv_service option \<times> inv_response go_result" where
  "api_invalidate_pattern env clk svc req = with_service Inl svc (\<lambda>s. inv_pattern env clk s req)"

definition api_audit_logs ::
    "'b inv_env \<Rightarrow> go_error option \<Rightarrow> go_error option \<Rightarrow> 'b inv_service option \<Rightarrow> int \<Rightarrow> int \<Rightarrow> string \<Rightarrow>
     'b inv_service option \<times> audit_page go_result" where
  "api_audit_logs env fail1 fail2 svc limit offset pattern =
     with_service Inl svc (\<lambda>s. inv_get_audit_logs env fail1 fail2 s limit offset pattern)"

definition api_inval_metrics :: "'b inv_service option \<Rightarrow> inv_metrics_response go_result" where
  "api_inval_metrics svc = ask_service Inl svc (\<lambda>s. Inr (inv_get_metrics s))"

section \<open>Warming\<close>

definition api_warm_key ::
    "clock \<Rightarrow> 'x warm_service option \<Rightarrow> warm_key_request \<Rightarrow> 'x warm_service option \<times> warm_key_response outcome" where
  "api_warm_key clk svc req = with_service Failed svc (\<lambda>s. warm_key clk s req)"

definition api_warm_pattern ::
    "clock \<Rightarrow> 'x warm_service option \<Rightarrow> warm_pattern_request \<Rightarrow>
     'x warm_service option \<times> warm_pattern_response outcome" where
  "api_warm_pattern clk svc req = with_service Failed svc (\<lambda>s. warm_pattern clk s req)"

definition api_status :: "'x warm_service option \<Rightarrow> status_response go_result" where
  "api_status svc = ask_service Inl svc (\<lambda>s. Inr (get_status s))"

definition api_trigger_predictive ::
    "clock \<Rightarrow> 'x warm_service option \<Rightarrow> 'x warm_service option \<times> warm_key_response outcome" where
  "api_trigger_predictive clk svc = with_service Failed svc (\<lambda>s. trigger_predictive clk s)"

definition api_config :: "'x warm_service option \<Rightarrow> config_view go_result" where
  "api_config svc = ask_service Inl svc (\<lambda>s. Inr (get_config s))"

definition api_update_config ::
    "'x warm_service option \<Rightarrow> update_config_request \<Rightarrow> 'x warm_service option \<times> config_view go_result" where
  "api_update_config svc req = with_service Inl svc (\<lambda>s. update_config s req)"

text \<open>A cron job without a service does nothing and reports no error.\<close>

definition cron_job ::
    "(clock \<Rightarrow> 'x warm_service \<Rightarrow> 'x warm_service \<times> unit outcome) \<Rightarrow> clock \<Rightarrow> 'x warm_service option \<Rightarrow>
     'x warm_service option \<times> unit outcome" where
  "cron_job job clk svc = with_service (\<lambda>_. Returned ()) svc (job clk)"

section \<open>Monitoring\<close>

definition api_mon_metrics :: "time \<Rightarrow> mon_service option \<Rightarrow> string \<Rightarrow> get_metrics_response go_result" where
  "api_mon_metrics now svc req = ask_service Inl svc (\<lambda>s. mon_get_metrics now s req)"

definition api_aggregated :: "mon_service option \<Rightarrow> get_aggregated_request \<Rightarrow> get_aggregated_response go_result" where
  "api_aggregated svc req = ask_service Inl svc (\<lambda>s. mon_get_aggregated s req)"

definition api_alerts :: "mon_service option \<Rightarrow> get_alerts_response go_result" where
  "api_alerts svc = ask_service Inl svc (\<lambda>s. Inr (mon_get_alerts s))"

definition api_overview :: "clock \<Rightarrow> mon_service option \<Rightarrow> string \<Rightarrow> overview_response go_result" where
  "api_overview clk svc time_range = ask_service Inl svc (\<lambda>s. dash_overview clk s time_range)"

definition api_distribution :: "time \<Rightarrow> mon_service option \<Rightarrow> string \<Rightarrow> distribution_response go_result option" where
  "api_distribution now svc window =
     ask_service (\<lambda>e. Some (Inl e)) svc (\<lambda>s. dash_latency_distribution now s window)"

definition api_heatmap :: "mon_service option \<Rightarrow> time \<Rightarrow> time \<Rightarrow> string \<Rightarrow> heatmap_response go_result" where
  "api_heatmap svc start stop metric = ask_service Inl svc (\<lambda>s. dash_heatmap s start stop metric)"

definition api_comparison :: "mon_service option \<Rightarrow> time \<Rightarrow> time \<Rightarrow> time \<Rightarrow> time \<Rightarrow> comparison_response go_result" where
  "api_comparison svc start1 stop1 start2 stop2 =
     ask_service Inl svc (\<lambda>s. Inr (dash_comparison s start1 stop1 start2 stop2))"

text \<open>The dashboard of the request is new, and is dropped when the request returns: nothing but its worker
  refers to the session.\<close>

definition api_stream :: "clock \<Rightarrow> mon_service option \<Rightarrow> string go_result" where
  "api_stream clk svc = ask_service Inl svc (\<lambda>s. Inr (snd (start_stream clk new_streams)))"

definition api_export ::
    "(json_point list \<Rightarrow> string go_result) \<Rightarrow> time \<Rightarrow> mon_service option \<Rightarrow> time \<Rightarrow> time \<Rightarrow> string \<Rightarrow> string list \<Rightarrow>
     export_response go_result" where
  "api_export encode now svc start stop format metrics =
     ask_service Inl svc (\<lambda>s. dash_export encode now s start stop format metrics)"

definition sub_cache_metric ::
    "clock \<Rightarrow> mon_service option \<Rightarrow> cache_metric_event \<Rightarrow> mon_service option \<times> go_error option" where
  "sub_cache_metric clk svc ev = on_message svc (handle_cache_metric clk ev)"

definition sub_warm_completed ::
    "clock \<Rightarrow> mon_service option \<Rightarrow> warm_completed_event \<Rightarrow> mon_service option \<times> go_error option" where
  "sub_warm_completed clk svc ev = on_message svc (handle_warm_completed clk ev)"

definition sub_inval_metric ::
    "clock \<Rightarrow> mon_service option \<Rightarrow> inval_metric_event \<Rightarrow> mon_service option \<times> go_error option" where
  "sub_inval_metric clk svc ev = on_message svc (handle_inval_metric clk ev)"

section \<open>All services\<close>

record ('w, 'b, 'x) system =
  sy_cache :: "'w cm_service option"
  sy_inval :: "'b inv_service option"
  sy_warm :: "'x warm_service option"
  sy_mon :: "mon_service option"

text \<open>Before start-up, and the start-up: the \<open>init\<close> functions run one after the other and a failure ends the
  process.\<close>

definition down :: "('w, 'b, 'x) system" where
  "down = \<lparr>sy_cache = None, sy_inval = None, sy_warm = None, sy_mon = None\<rparr>"

fun error_text :: "go_error \<Rightarrow> string" where
  "error_text (ErrMsg m) = m"
| "error_text (ErrWrap m e) = m @ error_text e"

definition boot_inval ::
    "'b \<Rightarrow> audit_table option \<Rightarrow> go_error option \<Rightarrow> ('w, 'b, 'x) system \<Rightarrow> ('w, 'b, 'x) system outcome" where
  "boot_inval b table fail sys =
     (case inv_init b table fail of
        Inl e \<Rightarrow> Panicked (''failed to initialize invalidation service: '' @ error_text e)
      | Inr s \<Rightarrow> Returned (sys\<lparr>sy_inval := Some s\<rparr>))"

definition boot_cache :: "'w \<Rightarrow> ('w, 'b, 'x) system \<Rightarrow> ('w, 'b, 'x) system outcome" where
  "boot_cache w sys = Returned (sys\<lparr>sy_cache := Some (cm_init w)\<rparr>)"

definition boot_warm :: "'x \<Rightarrow> ('w, 'b, 'x) system \<Rightarrow> ('w, 'b, 'x) system outcome" where
  "boot_warm x sys =
     (case warm_init x of
        Inl e \<Rightarrow> Panicked (error_text e)
      | Inr s \<Rightarrow> Returned (sys\<lparr>sy_warm := Some s\<rparr>))"

definition boot_mon :: "time \<Rightarrow> ('w, 'b, 'x) system \<Rightarrow> ('w, 'b, 'x) system outcome" where
  "boot_mon now sys = Returned (sys\<lparr>sy_mon := Some (mon_init now)\<rparr>)"

fun and_then :: "'a outcome \<Rightarrow> ('a \<Rightarrow> 'b outcome) \<Rightarrow> 'b outcome" where
  "and_then (Returned a) f = f a"
| "and_then (Failed e) f = Failed e"
| "and_then (Panicked m) f = Panicked m"

text \<open>In the order of the imports: the cache manager imports the invalidation service, monitoring imports
  warming.\<close>

definition boot ::
    "'w \<Rightarrow> 'b \<Rightarrow> audit_table option \<Rightarrow> go_error option \<Rightarrow> 'x \<Rightarrow> time \<Rightarrow> ('w, 'b, 'x) system outcome" where
  "boot w b table fail x now =
     and_then (and_then (and_then (boot_inval b table fail down) (boot_cache w)) (boot_warm x)) (boot_mon now)"

section \<open>Requests to the system\<close>

datatype service = CacheService | InvalService | WarmService | MonService

datatype request =
    ReqGet time clock "cache_entry go_result option" string
  | ReqSet clock string set_request
  | ReqInvalidate time "string list" string
  | ReqCacheMetrics
  | ReqInvKey clock inv_request
  | ReqInvPattern clock inv_request
  | ReqAuditLogs "go_error option" "go_error option" int int string
  | ReqInvMetrics
  | ReqWarmKey clock warm_key_request
  | ReqWarmPattern clock warm_pattern_request
  | ReqWarmStatus
  | ReqTrigger clock
  | ReqWarmConfig
  | ReqUpdateConfig update_config_request
  | ReqMetrics time string
  | ReqAggregated get_aggregated_request
  | ReqAlerts
  | ReqOverview clock string
  | ReqDistribution time string
  | ReqHeatmap time time string
  | ReqComparison time time time time
  | ReqStream clock
  | ReqExport time time time string "string list"

datatype response =
    RspGet "get_response option" "go_error option"
  | RspSet "time go_result"
  | RspInvalidate "int go_result"
  | RspCacheMetrics "metrics_response go_result"
  | RspInv "inv_response go_result"
  | RspAuditLogs "audit_page go_result"
  | RspInvMetrics "inv_metrics_response go_result"
  | RspWarmKey "warm_key_response outcome"
  | RspWarmPattern "warm_pattern_response outcome"
  | RspWarmStatus "status_response go_result"
  | RspWarmConfig "config_view go_result"
  | RspMetrics "get_metrics_response go_result"
  | RspAggregated "get_aggregated_response go_result"
  | RspAlerts "get_alerts_response go_result"
  | RspOverview "overview_response go_result"
  | RspDistribution "distribution_response go_result option"
  | RspHeatmap "heatmap_response go_result"
  | RspComparison "comparison_response go_result"
  | RspStream "string go_result"
  | RspExport "export_response go_result"

text \<open>The service a request is for and its route, from the \<open>encore:api\<close> comments.\<close>

fun owner :: "request \<Rightarrow> service" where
  "owner (ReqGet _ _ _ _) = CacheService"
| "owner (ReqSet _ _ _) = CacheService"
| "owner (ReqInvalidate _ _ _) = CacheService"
| "owner ReqCacheMetrics = CacheService"
| "owner (ReqInvKey _ _) = InvalService"
| "owner (ReqInvPattern _ _) = InvalService"
| "owner (ReqAuditLogs _ _ _ _ _) = InvalService"
| "owner ReqInvMetrics = InvalService"
| "owner (ReqWarmKey _ _) = WarmService"
| "owner (ReqWarmPattern _ _) = WarmService"
| "owner ReqWarmStatus = WarmService"
| "owner (ReqTrigger _) = WarmService"
| "owner ReqWarmConfig = WarmService"
| "owner (ReqUpdateConfig _) = WarmService"
| "owner _ = MonService"

fun route :: "request \<Rightarrow> string \<times> string" where
  "route (ReqGet _ _ _ _) = (''GET'', ''/api/cache/entry/:key'')"
| "route (ReqSet _ _ _) = (''PUT'', ''/api/cache/entry/:key'')"
| "route (ReqInvalidate _ _ _) = (''POST'', ''/api/cache/invalidate'')"
| "route ReqCacheMetrics = (''GET'', ''/api/cache/metrics'')"
| "route (ReqInvKey _ _) = (''POST'', ''/invalidate/key'')"
| "route (ReqInvPattern _ _) = (''POST'', ''/invalidate/pattern'')"
| "route (ReqAuditLogs _ _ _ _ _) = (''GET'', ''/audit/logs'')"
| "route ReqInvMetrics = (''GET'', ''/invalidate/metrics'')"
| "route (ReqWarmKey _ _) = (''POST'', ''/warm/key'')"
| "route (ReqWarmPattern _ _) = (''POST'', ''/warm/pattern'')"
| "route ReqWarmStatus = (''GET'', ''/warm/status'')"
| "route (ReqTrigger _) = (''POST'', ''/warm/trigger-predictive'')"
| "route ReqWarmConfig = (''GET'', ''/warm/config'')"
| "route (ReqUpdateConfig _) = (''POST'', ''/warm/config'')"
| "route (ReqMetrics _ _) = (''GET'', ''/monitoring/metrics'')"
| "route (ReqAggregated _) = (''POST'', ''/monitoring/aggregated'')"
| "route ReqAlerts = (''GET'', ''/monitoring/alerts'')"
| "route (ReqOverview _ _) = (''POST'', ''/monitoring/dashboard/overview'')"
| "route (ReqDistribution _ _) = (''POST'', ''/monitoring/dashboard/latency-distribution'')"
| "route (ReqHeatmap _ _ _) = (''POST'', ''/monitoring/dashboard/heatmap'')"
| "route (ReqComparison _ _ _ _) = (''POST'', ''/monitoring/dashboard/comparison'')"
| "route (ReqStream _) = (''GET'', ''/monitoring/dashboard/stream'')"
| "route (ReqExport _ _ _ _ _) = (''POST'', ''/monitoring/dashboard/export'')"

text \<open>The \<open>GET\<close> requests that do not touch the cache or the audit log.\<close>

definition reads_only :: "request \<Rightarrow> bool" where
  "reads_only r \<longleftrightarrow> fst (route r) = ''GET'' \<and>
     (case r of ReqGet _ _ _ _ \<Rightarrow> False | ReqAuditLogs _ _ _ _ _ \<Rightarrow> False | _ \<Rightarrow> True)"

text \<open>Serving a request.\<close>

fun serve ::
    "('w, 'v) cm_env \<Rightarrow> 'b inv_env \<Rightarrow> (json_point list \<Rightarrow> string go_result) \<Rightarrow> request \<Rightarrow> ('w, 'b, 'x) system \<Rightarrow>
     ('w, 'b, 'x) system \<times> response" where
  "serve env ienv encode (ReqGet now clk joined key) sys =
     (let (v, r, e) = api_get env now clk joined (sy_cache sys) key in (sys\<lparr>sy_cache := v\<rparr>, RspGet r e))"
| "serve env ienv encode (ReqSet clk key req) sys =
     (let (v, r) = api_set env clk (sy_cache sys) key req in (sys\<lparr>sy_cache := v\<rparr>, RspSet r))"
| "serve env ienv encode (ReqInvalidate now keys pat) sys =
     (let (v, r) = api_invalidate env now (sy_cache sys) keys pat in (sys\<lparr>sy_cache := v\<rparr>, RspInvalidate r))"
| "serve env ienv encode ReqCacheMetrics sys = (sys, RspCacheMetrics (api_cache_metrics (sy_cache sys)))"
| "serve env ienv encode (ReqInvKey clk req) sys =
     (let (v, r) = api_invalidate_key ienv clk (sy_inval sys) req in (sys\<lparr>sy_inval := v\<rparr>, RspInv r))"
| "serve env ienv encode (ReqInvPattern clk req) sys =
     (let (v, r) = api_invalidate_pattern ienv clk (sy_inval sys) req in (sys\<lparr>sy_inval := v\<rparr>, RspInv r))"
| "serve env ienv encode (ReqAuditLogs fail1 fail2 limit offset pattern) sys =
     (let (v, r) = api_audit_logs ienv fail1 fail2 (sy_inval sys) limit offset pattern
      in (sys\<lparr>sy_inval := v\<rparr>, RspAuditLogs r))"
| "serve env ienv encode ReqInvMetrics sys = (sys, RspInvMetrics (api_inval_metrics (sy_inval sys)))"
| "serve env ienv encode (ReqWarmKey clk req) sys =
     (let (v, r) = api_warm_key clk (sy_warm sys) req in (sys\<lparr>sy_warm := v\<rparr>, RspWarmKey r))"
| "serve env ienv encode (ReqWarmPattern clk req) sys =
     (let (v, r) = api_warm_pattern clk (sy_warm sys) req in (sys\<lparr>sy_warm := v\<rparr>, RspWarmPattern r))"
| "serve env ienv encode ReqWarmStatus sys = (sys, RspWarmStatus (api_status (sy_warm sys)))"
| "serve env ienv encode (ReqTrigger clk) sys =
     (let (v, r) = api_trigger_predictive clk (sy_warm sys) in (sys\<lparr>sy_warm := v\<rparr>, RspWarmKey r))"
| "serve env ienv encode ReqWarmConfig sys = (sys, RspWarmConfig (api_config (sy_warm sys)))"
| "serve env ienv encode (ReqUpdateConfig req) sys =
     (let (v, r) = api_update_config (sy_warm sys) req in (sys\<lparr>sy_warm := v\<rparr>, RspWarmConfig r))"
| "serve env ienv encode (ReqMetrics now req) sys = (sys, RspMetrics (api_mon_metrics now (sy_mon sys) req))"
| "serve env ienv encode (ReqAggregated req) sys = (sys, RspAggregated (api_aggregated (sy_mon sys) req))"
| "serve env ienv encode ReqAlerts sys = (sys, RspAlerts (api_alerts (sy_mon sys)))"
| "serve env ienv encode (ReqOverview clk time_range) sys =
     (sys, RspOverview (api_overview clk (sy_mon sys) time_range))"
| "serve env ienv encode (ReqDistribution now window) sys =
     (sys, RspDistribution (api_distribution now (sy_mon sys) window))"
| "serve env ienv encode (ReqHeatmap start stop metric) sys =
     (sys, RspHeatmap (api_heatmap (sy_mon sys) start stop metric))"
| "serve env ienv encode (ReqComparison start1 stop1 start2 stop2) sys =
     (sys, RspComparison (api_comparison (sy_mon sys) start1 stop1 start2 stop2))"
| "serve env ienv encode (ReqStream clk) sys = (sys, RspStream (api_stream clk (sy_mon sys)))"
| "serve env ienv encode (ReqExport now start stop format metrics) sys =
     (sys, RspExport (api_export encode now (sy_mon sys) start stop format metrics))"

text \<open>Messages of the topics and jobs of the cron library.\<close>

datatype message =
    MsgInvalidate inval_event
  | MsgRefresh time refresh_event
  | MsgCacheMetric clock cache_metric_event
  | MsgWarmCompleted clock warm_completed_event
  | MsgInvalMetric clock inval_metric_event
  | CronDaily clock
  | CronHourly clock
  | CronPeak clock

fun recipient :: "message \<Rightarrow> service" where
  "recipient (MsgInvalidate _) = CacheService"
| "recipient (MsgRefresh _ _) = CacheService"
| "recipient (MsgCacheMetric _ _) = MonService"
| "recipient (MsgWarmCompleted _ _) = MonService"
| "recipient (MsgInvalMetric _ _) = MonService"
| "recipient _ = WarmService"

fun receive :: "message \<Rightarrow> ('w, 'b, 'x) system \<Rightarrow> ('w, 'b, 'x) system" where
  "receive (MsgInvalidate ev) sys = sys\<lparr>sy_cache := fst (sub_invalidate (sy_cache sys) ev)\<rparr>"
| "receive (MsgRefresh now ev) sys = sys\<lparr>sy_cache := fst (sub_refresh now (sy_cache sys) ev)\<rparr>"
| "receive (MsgCacheMetric clk ev) sys = sys\<lparr>sy_mon := fst (sub_cache_metric clk (sy_mon sys) ev)\<rparr>"
| "receive (MsgWarmCompleted clk ev) sys = sys\<lparr>sy_mon := fst (sub_warm_completed clk (sy_mon sys) ev)\<rparr>"
| "receive (MsgInvalMetric clk ev) sys = sys\<lparr>sy_mon := fst (sub_inval_metric clk (sy_mon sys) ev)\<rparr>"
| "receive (CronDaily clk) sys = sys\<lparr>sy_warm := fst (cron_job daily_warmup clk (sy_warm sys))\<rparr>"
| "receive (CronHourly clk) sys = sys\<lparr>sy_warm := fst (cron_job hourly_refresh clk (sy_warm sys))\<rparr>"
| "receive (CronPeak clk) sys = sys\<lparr>sy_warm := fst (cron_job peak_hours_warmup clk (sy_warm sys))\<rparr>"

section \<open>Runs of the system\<close>

datatype input = Request request | Message message

fun react ::
    "('w, 'v) cm_env \<Rightarrow> 'b inv_env \<Rightarrow> (json_point list \<Rightarrow> string go_result) \<Rightarrow> input \<Rightarrow> ('w, 'b, 'x) system \<Rightarrow>
     ('w, 'b, 'x) system" where
  "react env ienv encode (Request r) sys = fst (serve env ienv encode r sys)"
| "react env ienv encode (Message m) sys = receive m sys"

definition sys_run ::
    "('w, 'v) cm_env \<Rightarrow> 'b inv_env \<Rightarrow> (json_point list \<Rightarrow> string go_result) \<Rightarrow> input list \<Rightarrow> ('w, 'b, 'x) system \<Rightarrow>
     ('w, 'b, 'x) system" where
  "sys_run env ienv encode ins sys = fold (react env ienv encode) ins sys"

fun running :: "service \<Rightarrow> ('w, 'b, 'x) system \<Rightarrow> bool" where
  "running CacheService sys \<longleftrightarrow> sy_cache sys \<noteq> None"
| "running InvalService sys \<longleftrightarrow> sy_inval sys \<noteq> None"
| "running WarmService sys \<longleftrightarrow> sy_warm sys \<noteq> None"
| "running MonService sys \<longleftrightarrow> sy_mon sys \<noteq> None"

fun untouched :: "service \<Rightarrow> ('w, 'b, 'x) system \<Rightarrow> ('w, 'b, 'x) system \<Rightarrow> bool" where
  "untouched CacheService sys sys' \<longleftrightarrow> sy_cache sys' = sy_cache sys"
| "untouched InvalService sys sys' \<longleftrightarrow> sy_inval sys' = sy_inval sys"
| "untouched WarmService sys sys' \<longleftrightarrow> sy_warm sys' = sy_warm sys"
| "untouched MonService sys sys' \<longleftrightarrow> sy_mon sys' = sy_mon sys"

text \<open>The response to a request for a service that does not exist.\<close>

fun refusal :: "request \<Rightarrow> response" where
  "refusal (ReqGet _ _ _ _) = RspGet None (Some not_initialized)"
| "refusal (ReqSet _ _ _) = RspSet (Inl not_initialized)"
| "refusal (ReqInvalidate _ _ _) = RspInvalidate (Inl not_initialized)"
| "refusal ReqCacheMetrics = RspCacheMetrics (Inl not_initialized)"
| "refusal (ReqInvKey _ _) = RspInv (Inl not_initialized)"
| "refusal (ReqInvPattern _ _) = RspInv (Inl not_initialized)"
| "refusal (ReqAuditLogs _ _ _ _ _) = RspAuditLogs (Inl not_initialized)"
| "refusal ReqInvMetrics = RspInvMetrics (Inl not_initialized)"
| "refusal (ReqWarmKey _ _) = RspWarmKey (Failed not_initialized)"
| "refusal (ReqWarmPattern _ _) = RspWarmPattern (Failed not_initialized)"
| "refusal ReqWarmStatus = RspWarmStatus (Inl not_initialized)"
| "refusal (ReqTrigger _) = RspWarmKey (Failed not_initialized)"
| "refusal ReqWarmConfig = RspWarmConfig (Inl not_initialized)"
| "refusal (ReqUpdateConfig _) = RspWarmConfig (Inl not_initialized)"
| "refusal (ReqMetrics _ _) = RspMetrics (Inl not_initialized)"
| "refusal (ReqAggregated _) = RspAggregated (Inl not_initialized)"
| "refusal ReqAlerts = RspAlerts (Inl not_initialized)"
| "refusal (ReqOverview _ _) = RspOverview (Inl not_initialized)"
| "refusal (ReqDistribution _ _) = RspDistribution (Some (Inl not_initialized))"
| "refusal (ReqHeatmap _ _ _) = RspHeatmap (Inl not_initialized)"
| "refusal (ReqComparison _ _ _ _) = RspComparison (Inl not_initialized)"
| "refusal (ReqStream _) = RspStream (Inl not_initialized)"
| "refusal (ReqExport _ _ _ _ _) = RspExport (Inl not_initialized)"

section \<open>Lemmas\<close>

named_theorems api_defs \<open>the definitions of endpoints and handlers\<close>

declare api_get_def [api_defs] api_set_def [api_defs] api_invalidate_def [api_defs] api_cache_metrics_def [api_defs]
  api_invalidate_key_def [api_defs] api_invalidate_pattern_def [api_defs] api_audit_logs_def [api_defs]
  api_inval_metrics_def [api_defs] api_warm_key_def [api_defs] api_warm_pattern_def [api_defs] api_status_def [api_defs]
  api_trigger_predictive_def [api_defs] api_config_def [api_defs] api_update_config_def [api_defs]
  api_mon_metrics_def [api_defs] api_aggregated_def [api_defs] api_alerts_def [api_defs] api_overview_def [api_defs]
  api_distribution_def [api_defs] api_heatmap_def [api_defs] api_comparison_def [api_defs] api_stream_def [api_defs]
  api_export_def [api_defs] sub_invalidate_def [api_defs] sub_refresh_def [api_defs] sub_cache_metric_def [api_defs]
  sub_warm_completed_def [api_defs] sub_inval_metric_def [api_defs] cron_job_def [api_defs]

lemma with_service_simps [simp]:
  "with_service refuse None f = (None, refuse not_initialized)"
  "with_service refuse (Some s) f = (Some (fst (f s)), snd (f s))"
  "ask_service refuse None g = refuse not_initialized" "ask_service refuse (Some s) g = g s"
  "on_message None h = (None, None)" "on_message (Some s) h = (Some (h s), None)"
  by (simp_all add: with_service_def ask_service_def on_message_def case_prod_beta Let_def)

lemma with_service_fst [simp]:
  "fst (with_service refuse svc f) = map_option (\<lambda>s. fst (f s)) svc"
  "fst (on_message svc h) = map_option h svc"
  by (cases svc; simp)+

lemma serve_cases:
  "serve env ienv encode r sys =
     (case owner r of
        CacheService \<Rightarrow> (sys\<lparr>sy_cache := sy_cache (fst (serve env ienv encode r sys))\<rparr>, snd (serve env ienv encode r sys))
      | InvalService \<Rightarrow> (sys\<lparr>sy_inval := sy_inval (fst (serve env ienv encode r sys))\<rparr>, snd (serve env ienv encode r sys))
      | WarmService \<Rightarrow> (sys\<lparr>sy_warm := sy_warm (fst (serve env ienv encode r sys))\<rparr>, snd (serve env ienv encode r sys))
      | MonService \<Rightarrow> (sys, snd (serve env ienv encode r sys)))"
  by (cases r) (simp_all add: case_prod_beta Let_def)

lemma serve_untouched: "p \<noteq> owner r \<Longrightarrow> untouched p sys (fst (serve env ienv encode r sys))"
  by (cases p; cases "owner r"; subst serve_cases; simp)

lemma serve_mon: "sy_mon (fst (serve env ienv encode r sys)) = sy_mon sys"
  by (cases "owner r"; subst serve_cases; simp)

lemma receive_untouched: "p \<noteq> recipient m \<Longrightarrow> untouched p sys (receive m sys)"
  by (cases p; cases m; simp)

lemma untouched_running: "untouched p sys sys' \<Longrightarrow> running p sys' = running p sys"
  by (cases p) simp_all

lemma serve_running_owner: "running (owner r) (fst (serve env ienv encode r sys)) = running (owner r) sys"
  by (cases r) (simp_all add: api_defs case_prod_beta Let_def)

lemma receive_running_recipient: "running (recipient m) (receive m sys) = running (recipient m) sys"
  by (cases m) (simp_all add: api_defs)

lemma react_running: "running p (react env ienv encode i sys) = running p sys"
proof (cases i)
  case (Request r)
  show ?thesis
  proof (cases "p = owner r")
    case False
    then show ?thesis unfolding Request react.simps by (rule untouched_running [OF serve_untouched])
  qed (simp add: Request serve_running_owner)
next
  case (Message m)
  show ?thesis
  proof (cases "p = recipient m")
    case False
    then show ?thesis unfolding Message react.simps by (rule untouched_running [OF receive_untouched])
  qed (simp add: Message receive_running_recipient)
qed

lemma run_running: "running p (sys_run env ienv encode ins sys) = running p sys"
  by (induction ins arbitrary: sys) (simp_all add: sys_run_def react_running)

lemma boot_returned:
  assumes "boot w b table fail x now = Returned sys"
  shows "running p sys" "sy_mon sys = Some (mon_init now)"
proof -
  have *: "sy_cache sys \<noteq> None \<and> sy_inval sys \<noteq> None \<and> sy_warm sys \<noteq> None \<and> sy_mon sys = Some (mon_init now)"
    using assms unfolding boot_def boot_inval_def boot_cache_def boot_warm_def boot_mon_def down_def
    by (auto split: sum.splits)
  then show "running p sys" by (cases p) simp_all
  from * show "sy_mon sys = Some (mon_init now)" by blast
qed

lemma warm_init_ok: "\<exists>s. warm_init x = Inr s"
proof -
  have "\<not> wc_warmers warm_default_config < 0" by (simp add: warm_default_config_def)
  then have "\<exists>pool. new_worker_pool (wc_warmers warm_default_config) = Inr pool"
    unfolding new_worker_pool_def by (simp only: if_False) blast
  then show ?thesis unfolding warm_init_def by (elim exE) (simp only: sum.case, blast)
qed

lemma boot_ok: "\<exists>sys. boot w b table None x now = Returned sys"
proof -
  obtain s where "warm_init x = Inr s" using warm_init_ok [of x] ..
  then have "boot w b table None x now =
      Returned \<lparr>sy_cache = Some (cm_init w), sy_inval = Some (projr (inv_init b table None)), sy_warm = Some s,
        sy_mon = Some (mon_init now)\<rparr>"
    by (simp add: boot_def boot_inval_def inv_init_def new_audit_logger_def boot_cache_def boot_warm_def boot_mon_def
        down_def)
  then show ?thesis ..
qed

text \<open>The monitoring service is changed by its messages only.\<close>

fun mon_op_of :: "input \<Rightarrow> (clock \<times> mon_op) list" where
  "mon_op_of (Message (MsgCacheMetric clk ev)) = [(clk, CacheMetric ev)]"
| "mon_op_of (Message (MsgWarmCompleted clk ev)) = [(clk, WarmCompleted ev)]"
| "mon_op_of (Message (MsgInvalMetric clk ev)) = [(clk, InvalMetric ev)]"
| "mon_op_of _ = []"

lemma react_mon:
  "sy_mon (react env ienv encode i sys) = map_option (fold (\<lambda>(clk, a). mon_apply clk a) (mon_op_of i)) (sy_mon sys)"
proof (cases i)
  case (Message m)
  then show ?thesis by (cases m; cases "sy_mon sys") (simp_all add: api_defs)
qed (cases "sy_mon sys"; simp add: serve_mon)

lemma run_mon:
  "sy_mon (sys_run env ienv encode ins sys) =
     map_option (fold (\<lambda>(clk, a). mon_apply clk a) (concat (map mon_op_of ins))) (sy_mon sys)"
proof (induction ins arbitrary: sys)
  case (Cons i ins)
  then show ?case by (cases "sy_mon sys") (simp_all add: sys_run_def react_mon)
qed (simp add: sys_run_def option.map_id)

section \<open>Properties\<close>



text \<open>
  Further result.  Services do not interfere: a request changes no service but the one it is for, and a \<open>GET\<close>
  request other than a cache lookup or a read of the audit log changes nothing at all.
\<close>

theorem requests_isolated:
  assumes "p \<noteq> owner r" and "reads_only q"
  shows "untouched p sys (fst (serve env ienv encode r sys)) \<and> fst (serve env ienv encode q sys) = sys"
proof
  show "untouched p sys (fst (serve env ienv encode r sys))" by (rule serve_untouched [OF assms(1)])
  show "fst (serve env ienv encode q sys) = sys" using assms(2) by (cases q) (simp_all add: reads_only_def)
qed

theorem requests_isolated_witness:
  "sy_mon (fst (serve demo_env demo_inv_env (\<lambda>_. Inr []) (ReqTrigger (\<lambda>_. 0)) (down :: (nat, nat, nat) system))) = None \<and>
   fst (serve demo_env demo_inv_env (\<lambda>_. Inr []) (ReqStream (\<lambda>_. 0)) (down :: (nat, nat, nat) system)) = down"
  using requests_isolated [of MonService "ReqTrigger (\<lambda>_. 0)" "ReqStream (\<lambda>_. 0)" "down :: (nat, nat, nat) system" demo_env
      demo_inv_env "\<lambda>_. Inr []"]
  by (simp add: reads_only_def down_def)

text \<open>
  Further result.  Start-up: the process fails to start exactly when the audit log cannot be created; after a
  start every service exists, in every run of requests and messages.
\<close>

theorem started_services_stay:
  "(case boot w b table fail x now of
      Returned sys \<Rightarrow> running p (sys_run env ienv encode ins sys) \<and> fail = None
    | Failed e \<Rightarrow> False
    | Panicked m \<Rightarrow> fail \<noteq> None)"
proof (cases "boot w b table fail x now")
  case (Returned sys)
  then have "fail = None"
    unfolding boot_def boot_inval_def inv_init_def new_audit_logger_def by (auto split: option.splits)
  with Returned boot_returned(1) [OF Returned] show ?thesis by (simp add: run_running)
next
  case (Failed e)
  then show ?thesis unfolding boot_def boot_inval_def boot_cache_def boot_warm_def boot_mon_def
    by (auto split: sum.splits)
next
  case (Panicked m)
  then show ?thesis
    using warm_init_ok [of x] unfolding boot_def boot_inval_def boot_cache_def boot_warm_def boot_mon_def inv_init_def
      new_audit_logger_def by (auto split: sum.splits option.splits)
qed



end
