(* ===== verification/Spec2Isabelle.thy ===== *)
theory Spec2Isabelle
  imports EvictionPolicy Coalescer CacheManager HashRing KeyPattern Invalidation RateLimit WarmRuns
    PkgModels PkgEvents Logging Export MonRuns Predictive WarmStop Lifecycle Cluster Endpoints
begin

text \<open>
  A distributed caching system in Go (module of four Encore services and shared packages): the cache
  manager (\<open>cache-manager/\<close>), the invalidation service (\<open>invalidation/\<close>), the cache-warming service
  (\<open>warming/\<close>) and the monitoring service (\<open>monitoring/\<close>), with the packages \<open>pkg/utils\<close>, \<open>pkg/models\<close>,
  \<open>pkg/pubsub\<close> and \<open>pkg/middleware\<close>.  This library models them as executable definitions and proves what
  makes them correct, and, where they are not, what they do instead.

  \<^bold>\<open>How the parts interact.\<close>  A \<open>Get\<close> of the cache manager reads its in-process level-1 cache, then the
  level-2 cache, then the origin, with concurrent fetches of a key coalesced; a \<open>Set\<close> writes both levels.
  The invalidation service turns requests into events on a topic to which every cache manager
  subscribes, and writes an audit log.  The warming service predicts hot keys, plans tasks, queues them
  in a worker pool and writes fetched values to the cache; its completion events reach the monitoring
  service, which counts, aggregates, raises alerts, draws the dashboard and exports the numbers.

  \<^bold>\<open>The theories, in the order of the program.\<close>
  \<^item> \<open>Prelude\<close>: 64-bit integers, clocks, strings, Go maps as association lists, errors, decimals, loops.
    \<open>Float64\<close>: IEEE doubles with round-half-even over the rationals.  \<open>Percentile\<close>, \<open>Durations\<close>
    (\<open>time.ParseDuration\<close>), \<open>TimeFormat\<close> (\<open>%.Nf\<close> and \<open>Time.Format\<close>) and \<open>Regexp\<close>: what the code uses of the
    standard library.
  \<^item> \<open>CacheContract\<close>: the interface of a store with lifetimes as locales; \<open>L1Cache\<close>
    (\<open>cache-manager/cache.go\<close>) interprets them and refines an abstract list in order of recency.
    \<open>EvictionPolicy\<close> (\<open>policies.go\<close>), \<open>Coalescer\<close> (\<open>singleflight.go\<close>, a transition system of goroutines),
    \<open>CacheManager\<close> (\<open>service.go\<close>, \<open>subscriptions.go\<close>).
  \<^item> \<open>HashRing\<close> (\<open>pkg/utils/hash.go\<close>), \<open>KeyPattern\<close> (\<open>pkg/utils/pattern.go\<close>).
  \<^item> \<open>PatternMatcher\<close>, \<open>AuditLog\<close>, \<open>Invalidation\<close>: \<open>invalidation/patterns.go\<close>, \<open>audit.go\<close>, \<open>service.go\<close>.  The
    contract of the audit log's pagination is a locale, interpreted for the table of rows.
  \<^item> \<open>RateLimit\<close> and \<open>Logging\<close>: \<open>pkg/middleware/\<close>; \<open>PkgModels\<close>: \<open>pkg/models/\<close>; \<open>PkgEvents\<close>: \<open>pkg/pubsub/\<close> and
    \<open>pkg/utils/encoding.go\<close>.
  \<^item> \<open>WarmStrategies\<close> (the interface \<open>Strategy\<close> is a locale, interpreted for the three strategies),
    \<open>Predictor\<close>, \<open>WorkerPool\<close>, \<open>WarmService\<close>, \<open>Scheduler\<close>, \<open>WarmRuns\<close>, \<open>Predictive\<close>, \<open>WarmStop\<close>:
    \<open>warming/\<close>; \<open>WarmRuns\<close> is the whole service as a transition system, \<open>Predictive\<close> follows the accesses to the queued tasks (the interface
    \<open>Predictor\<close> is a locale, combined with \<open>Strategy\<close>), \<open>WarmStop\<close> is its end.
  \<^item> \<open>Collector\<close> (\<open>monitoring/metrics.go\<close>), \<open>Aggregator\<close>, \<open>Alerts\<close>, \<open>MonService\<close>, and for
    \<open>monitoring/dashboard.go\<close> the theories \<open>Dashboard\<close>, \<open>Streams\<close> (the streaming sessions, a transition
    system) and \<open>Export\<close>.  The interface \<open>AlertRule\<close> is a locale, interpreted for the five rules.
    \<open>MonRuns\<close> combines them: the runs of the whole monitoring service, their invariant and what the
    delivered events mean for the alerts.
  \<^item> \<open>Cluster\<close>: several cache managers, the invalidation service and the topics as one transition system, with
    the fetch of a \<open>Get\<close> split into its read and its store.  \<open>Endpoints\<close>: the package-level functions of all
    services with their checks, start-up, requests and messages of the whole system.
  \<^item> \<open>Lifecycle\<close>: the background goroutines of the cache manager and the monitoring service, their channels,
    wait groups and \<open>Shutdown\<close>, as transition systems; the loop over a ticker is a locale, interpreted for the
    three loops.
  This theory has further properties that span services.

  \<^bold>\<open>How the code is modelled.\<close>  A struct is a record, an error a value of \<^typ>\<open>go_error\<close>, a method a function
  from the state to the new state and the result; run-time panics are results too.  \<open>int\<close>, \<open>int64\<close> and
  durations wrap at 64 bits (\<^const>\<open>i64\<close>), hashes are 64-bit words, doubles are rounded.  Every call of
  \<open>time.Now\<close> is an argument (a single time, or a clock numbered by the readings of the operation).  Code
  that is not in the repository is a parameter: the level-2 cache, the origin, the topics, the JSON
  codec, the database's averages, \<open>x/time/rate\<close> and \<open>x/sync/singleflight\<close>.  Operations guarded by a lock are one
  step; where the code reads and writes shared state in several atomic operations (coalescing, token
  buckets, workers, streams) these are separate steps of an inductive relation.

  \<^bold>\<open>What the lemmas show.\<close>  The level-1 cache refines its specification, respects its capacity and evicts the
  least recently used entry.  Coalescing executes one call at a time per key, all callers agree and none
  is stuck.  Reading through, writing, and invalidating (in any order and number of deliveries) have the
  effect on the cache that the services promise.  In a cluster every entry is younger than the delivered
  events about its key, as long as no event overtakes a fetch.  The ring looks up the successor and moves only the
  keys it must.  Patterns mean the globs they look like, except where the code says otherwise.  Token
  buckets stay within their bounds.  Plans and predictions contain only the keys they were given.  The
  worker pool's accounting is exact.  The time series is faithful, the alerts follow the delivered events, the
  loops over intervals end and cover the range, the heatmap and the histogram are exact, and the
  exported CSV can be read back.  Some properties state defects: a fetch always exceeds the latency
  threshold, so nothing is ever warmed; the ring buffer of latencies loses most samples; no audit entry
  is ever stored; stopping a stream can crash the process; without cache metrics, which no service
  publishes, only the alert for latencies can be raised; a fetch overtaken by an invalidation stores the old
  value, a write is not broadcast, and the invalidation service never reaches the level-2 cache; a second or
  overlapping \<open>Shutdown\<close> can end the process, and a warming service that has been shut down still accepts
  requests.  The monitoring process, with its goroutines interleaved, refines the sequential runs, and the
  waits of every \<open>Shutdown\<close> can end.

  \<^bold>\<open>Bounds and fuel.\<close>  The walk over the ring buffer has the number of slots as fuel, which is enough
  (\<open>ring_get_all_exact\<close>, \<open>distribution_returns\<close>).  The loops over time intervals and over the characters of a
  duration are functions with a proof of termination.  Numeric hypotheses such as \<open>2 ^ 53\<close> bound the
  integers that a double holds exactly.

  \<^bold>\<open>Not modelled.\<close>  The times at which tickers fire (a tick is possible whenever its loop is at its \<open>select\<close>);
  the declarations of topics beyond their names and guarantees; the text of log lines; the
  frontend, deployment scripts, SQL migrations and tests, which have no logic of the services.  Times
  are formatted in the zone UTC.
\<close>

section \<open>Invalidation across services\<close>

definition deliver :: "inval_event list \<Rightarrow> 'w cm_service \<Rightarrow> 'w cm_service" where
  "deliver evs node = fold (\<lambda>ev s. cm_handle_invalidate s ev) evs node"

lemma inv_key_bus:
  assumes "inv_key (recording_env ext codec) clk s req = (s', Inr resp)"
  shows "\<exists>ev. is_bus s' = is_bus s @ [ev] \<and> set (ie_keys ev) = set (iq_keys req) \<and> ie_pattern ev = []"
  using assms
  by (auto simp: inv_key_def recording_env_def Let_def deduplicate_keys_facts split: if_splits)

lemma inv_pattern_bus:
  assumes "inv_pattern (recording_env ext codec) clk s req = (s', Inr resp)" "iq_cache_keys req = []"
  shows "\<exists>ev. is_bus s' = is_bus s @ [ev] \<and> ie_keys ev = [] \<and> ie_pattern ev = iq_pattern req"
  using assms by (auto simp: inv_pattern_def recording_env_def Let_def split: if_splits)

text \<open>
  Property C8.  Invalidation by key, end to end: an accepted request, delivered to a cache-manager
  instance at least once and in any number of copies, removes exactly the requested keys from its
  level-1 cache and leaves every other entry as it was.
\<close>

theorem invalidate_key_end_to_end:
  assumes "l1_inv (cm_l1 node)" and "is_bus s = []"
    and "inv_key (recording_env ext codec) clk s req = (s', Inr resp)"
    and "set delivered = set (is_bus s')"
  shows "l1_content (cm_l1 (deliver delivered node)) =
    (\<lambda>k. if k \<in> set (iq_keys req) then None else l1_content (cm_l1 node) k)"
proof -
  obtain ev where ev: "is_bus s' = [ev]" "set (ie_keys ev) = set (iq_keys req)" "ie_pattern ev = []"
    using inv_key_bus [OF assms(3)] assms(2) by auto
  then have "ev' \<in> set delivered \<longleftrightarrow> ev' = ev" for ev' using assms(4) by simp
  with ev show ?thesis
    by (simp add: deliver_def handle_events_content [OF assms(1)])
qed

definition demo_codec :: keys_codec where
  "demo_codec = \<lparr>kc_enc = (\<lambda>ks. Inr (concat ks)), kc_dec = (\<lambda>d. Inr [d])\<rparr>"

definition demo_inv_service :: "inval_event list inv_service" where
  "demo_inv_service = \<lparr>is_matcher = [], is_table = ensure_schema None,
     is_metrics = \<lparr>im_total = 0, im_key = 0, im_pattern = 0, im_audit_writes = 0,
       im_publishes = 0, im_errors = 0\<rparr>, is_jobs = [], is_bus = []\<rparr>"

definition demo_request :: "string list \<Rightarrow> string \<Rightarrow> inv_request" where
  "demo_request ks p = \<lparr>iq_keys = ks, iq_pattern = p, iq_by = [], iq_request = ''r'', iq_cache_keys = []\<rparr>"

theorem invalidate_key_end_to_end_witness:
  "\<exists>s' resp. inv_key (recording_env (\<lambda>_. Inl (ErrMsg [])) demo_codec) (\<lambda>_. 0) demo_inv_service
       (demo_request [''k'', ''k''] []) = (s', Inr resp) \<and>
     l1_content (cm_l1 (deliver (is_bus s' @ is_bus s') demo_cached)) ''k'' = None"
proof -
  let ?req = "demo_request [''k'', ''k''] []"
  obtain s' resp where ok: "inv_key (recording_env (\<lambda>_. Inl (ErrMsg [])) demo_codec) (\<lambda>_. 0)
      demo_inv_service ?req = (s', Inr resp)"
    by (simp add: inv_key_def recording_env_def demo_request_def Let_def)
  have "set (is_bus s' @ is_bus s') = set (is_bus s')" by simp
  from invalidate_key_end_to_end [OF demo_cached_inv _ ok this] ok show ?thesis
    by (simp add: demo_inv_service_def demo_request_def)
qed

text \<open>
  Property C19.  The two services read patterns differently: a pattern that starts with a star and does
  not end with one, broadcast without keys, removes no entry from a cache manager (except a key equal
  to the pattern itself), although the invalidation service's own matcher selects every key with that
  suffix.
\<close>

theorem suffix_pattern_not_applied:
  assumes "l1_inv (cm_l1 node)" and "is_bus s = []"
    and "inv_pattern (recording_env ext codec) clk s req = (s', Inr resp)"
    and "iq_pattern req = CHR ''*'' # q" and "q \<noteq> []" "last q \<noteq> CHR ''*''" "iq_cache_keys req = []"
    and "k \<noteq> iq_pattern req" and "has_suffix k q"
  shows "l1_content (cm_l1 (deliver (is_bus s') node)) k = l1_content (cm_l1 node) k \<and>
    snd (pm_match ext pm (iq_pattern req) [k]) = [k]"
proof -
  obtain ev where ev: "is_bus s' = [ev]" "ie_keys ev = []" "ie_pattern ev = iq_pattern req"
    using inv_pattern_bus [OF assms(3,7)] assms(2) by auto
  have "\<not> lru_match (iq_pattern req) k"
    using assms(4-6,8) by (simp add: lru_match_def matches_pattern_def has_suffix_star)
  with ev have "l1_content (cm_l1 (deliver (is_bus s') node)) k = l1_content (cm_l1 node) k"
    by (simp add: deliver_def cm_handle_l1 inval_content [OF assms(1)])
  moreover have "snd (pm_match ext pm (CHR ''*'' # q) [k]) = [k]"
    using assms(9) by (simp add: pm_suffix_path [OF assms(6,5)])
  ultimately show ?thesis by (simp add: assms(4))
qed

theorem suffix_pattern_not_applied_witness:
  "\<exists>s' resp. inv_pattern (recording_env (\<lambda>_. Inl (ErrMsg [])) demo_codec) (\<lambda>_. 0) demo_inv_service
       (demo_request [] ''*:p'') = (s', Inr resp) \<and>
     l1_content (cm_l1 (deliver (is_bus s') demo_cached)) ''u:p'' = l1_content (cm_l1 demo_cached) ''u:p'' \<and>
     snd (pm_match (\<lambda>_. Inl (ErrMsg [])) [] ''*:p'' [''u:p'']) = [''u:p'']"
proof -
  let ?req = "demo_request [] ''*:p''"
  obtain s' resp where ok: "inv_pattern (recording_env (\<lambda>_. Inl (ErrMsg [])) demo_codec) (\<lambda>_. 0)
      demo_inv_service ?req = (s', Inr resp)"
    by (simp add: inv_pattern_def recording_env_def demo_request_def Let_def)
  from suffix_pattern_not_applied [OF demo_cached_inv _ ok, of "'':p''" "''u:p''" "[]"] ok show ?thesis
    by (simp add: demo_inv_service_def demo_request_def has_suffix_def)
qed


section \<open>Warming seen by monitoring\<close>

text \<open>
  Further result.  Warming and monitoring together: every completion event of any run of the warming service is
  a failure, so a monitoring service that handles all of them counts exactly as many errors as warmings,
  although not a single cache lookup was recorded.
\<close>

theorem warming_reported_as_errors:
  assumes "warm_steps env (warm_start w) (s, pc, hist)"
  shows "let c = get_counters (mo_collector (deliver_completions clock (ws_events s) (mon_init now)))
    in ct_warmings c = i64 (int (length (ws_events s))) \<and> ct_errors c = ct_warmings c \<and>
      ct_hits c = 0 \<and> ct_misses c = 0"
proof -
  have "\<forall>e \<in> set (ws_events s). we_status e \<noteq> ''success''"
    using never_warmed_steps [OF assms warm_start_never, of "client_set env"] by simp
  moreover have "get_counters (mo_collector (mon_init now)) = counters_zero"
    by (simp add: mon_init_def new_metrics_collector_def get_counters_def)
  ultimately show ?thesis
    using deliver_completions_counters [of "ws_events s" "mon_init now" 0 0 clock]
    by (simp add: Let_def counters_zero_def in_i64_def)
qed

theorem warming_reported_as_errors_witness:
  "\<exists>s pc hist. warm_steps happy_env (warm_start 0) (s, pc, hist) \<and> ws_stop s \<and>
     (let c = get_counters (mo_collector (deliver_completions (\<lambda>_. 0) (ws_events s) (mon_init 0)))
      in ct_errors c = ct_warmings c)"
proof -
  obtain s pc hist where "warm_steps happy_env (warm_start 0) (s, pc, hist)" "ws_stop s"
    using happy_run by blast
  with warming_reported_as_errors [of happy_env 0 s pc hist "\<lambda>_. 0" 0] show ?thesis
    by (auto simp: Let_def)
qed

end
